(* ===== verification/Prelude.thy ===== *)
theory Prelude
  imports
    Main
    "HOL-Library.Word"
    "HOL-Library.Finite_Map"
    "HOL-Library.List_Lexorder"
    "HOL-Library.Char_ord"
    "HOL-Library.Product_Lexorder"
    "HOL-Library.Multiset"
begin

text \<open>
  The shared vocabulary of the B-DNS development: the machine types of the Go sources, the
  values that stand for panics and rejected input, the byte and hexadecimal encodings every
  component hashes or indexes with, and the generic lemmas on finite maps and 64-bit words the
  component theories rely on.

  \<^item> A Go \<^verbatim>\<open>[]byte\<close> is a list of 8-bit words (\<open>bytes\<close>); where the sources tell a nil slice
    from an empty one the field has type \<open>slice\<close>, with \<open>None\<close> for nil.
  \<^item> A Go \<^verbatim>\<open>string\<close> is an Isabelle \<open>string\<close>: a sequence of bytes, compared bytewise.
  \<^item> \<^verbatim>\<open>uint64\<close> is a 64-bit word. \<^verbatim>\<open>int64\<close> and \<^verbatim>\<open>int\<close> are integers; every
    addition, subtraction or product of the sources that may leave the 64-bit range is wrapped
    with \<open>i64\<close>.
  \<^item> A Go map is a finite map; where a result depends on the iteration order the order is an
    argument of the definition.
\<close>

unbundle bit_operations_syntax

named_theorems ledger_simps \<open>reading a balance ledger after an operation\<close>
named_theorems stake_simps \<open>reading a stake map or an unstake queue after an operation\<close>
named_theorems commit_simps \<open>reading a commit store or overlay after an operation\<close>
named_theorems index_simps \<open>reading the domain index after an operation\<close>

subsection \<open>Machine types\<close>

type_synonym byte = "8 word"
type_synonym bytes = "8 word list"
type_synonym uint64 = "64 word"
type_synonym int64 = int
type_synonym slice = "bytes option"

definition sl :: "slice \<Rightarrow> bytes" where
  "sl s = (case s of None \<Rightarrow> [] | Some b \<Rightarrow> b)"

lemma sl_simps [simp]: "sl None = []" "sl (Some b) = b"
  by (simp_all add: sl_def)

text \<open>Two's complement wrap-around of a 64-bit signed result.\<close>

definition i64 :: "int \<Rightarrow> int64" where
  "i64 x = (x + 2 ^ 63) mod 2 ^ 64 - 2 ^ 63"

definition is_i64 :: "int \<Rightarrow> bool" where
  "is_i64 x \<longleftrightarrow> - (2 ^ 63) \<le> x \<and> x < 2 ^ 63"

lemma i64_id [simp]: "is_i64 x \<Longrightarrow> i64 x = x"
  by (simp add: i64_def is_i64_def)

lemma is_i64_i64 [simp]: "is_i64 (i64 x)"
proof -
  have "0 \<le> (x + 2 ^ 63) mod 2 ^ 64" "(x + 2 ^ 63) mod 2 ^ 64 < 2 ^ 64"
    by simp_all
  then show ?thesis
    by (simp add: i64_def is_i64_def)
qed

subsection \<open>Panics\<close>

text \<open>
  A Go run-time panic or a \<^verbatim>\<open>log.Panic\<close> is a left value of a sum; a function that cannot
  panic returns its result directly.
\<close>

datatype panic = NilDereference | IndexOutOfRange | DivideByZero | LogPanic | ClosedChannel | NonPositiveTicker

definition bindR :: "'e + 'a \<Rightarrow> ('a \<Rightarrow> 'e + 'b) \<Rightarrow> 'e + 'b" where
  "bindR m f = (case m of Inl e \<Rightarrow> Inl e | Inr x \<Rightarrow> f x)"

lemma bindR_simps [simp]: "bindR (Inl e) f = Inl e" "bindR (Inr x) f = f x"
  by (simp_all add: bindR_def)

lemma bindR_eq_Inr: "bindR m f = Inr y \<longleftrightarrow> (\<exists>x. m = Inr x \<and> f x = Inr y)"
  by (cases m) auto

lemma bindR_eq_Inl: "bindR m f = Inl e \<longleftrightarrow> m = Inl e \<or> (\<exists>x. m = Inr x \<and> f x = Inl e)"
  by (cases m) auto

text \<open>A slice expression \<^verbatim>\<open>s[:n]\<close> in a message panics on a shorter string.\<close>

definition sliced :: "nat \<Rightarrow> string \<Rightarrow> panic + 'a \<Rightarrow> panic + 'a" where
  "sliced n s x = (if length s < n then Inl IndexOutOfRange else x)"

subsection \<open>Strings and bytes\<close>

definition bytes_of_string :: "string \<Rightarrow> bytes" where
  "bytes_of_string s = map of_char s"

lemma length_bytes_of_string [simp]: "length (bytes_of_string s) = length s"
  by (simp add: bytes_of_string_def)

text \<open>Decimal notation, the \<^verbatim>\<open>%d\<close> of the \<^verbatim>\<open>fmt\<close> package.\<close>

fun show_nat :: "nat \<Rightarrow> string" where
  "show_nat n =
     (if n < 10 then [char_of (48 + n)] else show_nat (n div 10) @ [char_of (48 + n mod 10)])"

declare show_nat.simps [simp del]

definition show_int :: "int \<Rightarrow> string" where
  "show_int i = (if i < 0 then CHR ''-'' # show_nat (nat (- i)) else show_nat (nat i))"

text \<open>Lower-case hexadecimal, \<^verbatim>\<open>hex.EncodeToString\<close> and \<^verbatim>\<open>hex.DecodeString\<close>.\<close>

definition hex_char :: "nat \<Rightarrow> char" where
  "hex_char n = (if n < 10 then char_of (48 + n) else char_of (87 + n))"

definition hex_byte :: "byte \<Rightarrow> string" where
  "hex_byte b = [hex_char (unat b div 16), hex_char (unat b mod 16)]"

fun hex :: "bytes \<Rightarrow> string" where
  "hex [] = []"
| "hex (b # bs) = hex_byte b @ hex bs"

definition unhex_char :: "char \<Rightarrow> nat option" where
  "unhex_char c = (let n = of_char c in
     if 48 \<le> n \<and> n \<le> 57 then Some (n - 48)
     else if 97 \<le> n \<and> n \<le> 102 then Some (n - 87)
     else if 65 \<le> n \<and> n \<le> 70 then Some (n - 55)
     else None)"

text \<open>The bytes decoded before the first malformed pair, and whether the whole string was hex.\<close>

fun hex_decode :: "string \<Rightarrow> bytes \<times> bool" where
  "hex_decode [] = ([], True)"
| "hex_decode [c] = ([], False)"
| "hex_decode (c # d # s) =
     (case (unhex_char c, unhex_char d) of
        (Some x, Some y) \<Rightarrow>
          (let (bs, ok) = hex_decode s in (of_nat (16 * x + y) # bs, ok))
      | _ \<Rightarrow> ([], False))"

text \<open>
  \<^verbatim>\<open>IntToByteArr\<close>: the eight bytes of a 64-bit value, most significant first. The Go
  argument is an \<^verbatim>\<open>int64\<close>; \<^verbatim>\<open>uint64\<close> arguments are converted to it bit by bit.
\<close>

definition IntToByteArr_w :: "uint64 \<Rightarrow> bytes" where
  "IntToByteArr_w w = map (\<lambda>i. ucast (drop_bit (8 * i) w)) [7, 6, 5, 4, 3, 2, 1, 0]"

definition IntToByteArr :: "int64 \<Rightarrow> bytes" where
  "IntToByteArr num = IntToByteArr_w (word_of_int num)"

subsection \<open>Lemmas on the encodings\<close>

lemma length_hex_byte [simp]: "length (hex_byte b) = 2"
  by (simp add: hex_byte_def)

lemma length_hex [simp]: "length (hex bs) = 2 * length bs"
  by (induction bs) auto

lemma hex_eq_Nil_iff [simp]: "hex bs = [] \<longleftrightarrow> bs = []"
  by (cases bs) (auto simp: hex_byte_def)

lemma of_char_char_of_small: "n < 256 \<Longrightarrow> (of_char (char_of (n :: nat)) :: nat) = n"
  by simp

lemma unhex_hex_char: "n < 16 \<Longrightarrow> unhex_char (hex_char n) = Some n"
  by (auto simp: unhex_char_def hex_char_def Let_def)

lemma hex_decode_hex [simp]: "hex_decode (hex bs) = (bs, True)"
proof (induction bs)
  case Nil
  then show ?case by simp
next
  case (Cons b bs)
  have b: "unat b < 256" using unsigned_less [of b] by simp
  have "16 * (unat b div 16) + unat b mod 16 = unat b" by simp
  then have "(of_nat (16 * (unat b div 16) + unat b mod 16) :: byte) = b" by simp
  moreover have "unat b div 16 < 16" using b by simp
  ultimately show ?case
    using Cons.IH by (simp add: hex_byte_def unhex_hex_char)
qed

lemma hex_inject [simp]: "hex a = hex b \<longleftrightarrow> a = b"
  by (metis hex_decode_hex prod.inject)

lemma length_IntToByteArr_w [simp]: "length (IntToByteArr_w w) = 8"
  by (simp add: IntToByteArr_w_def)

lemma length_IntToByteArr [simp]: "length (IntToByteArr n) = 8"
  by (simp add: IntToByteArr_def)

lemma concat_map_inject_fixed:
  assumes len: "\<And>x. x \<in> set xs \<union> set ys \<Longrightarrow> length (f x) = n" and n: "0 < n"
    and inj: "inj_on f (set xs \<union> set ys)"
    and eq: "concat (map f xs) = concat (map f ys)"
  shows "xs = ys"
  using len inj eq
proof (induction xs arbitrary: ys)
  case Nil
  show ?case
  proof (rule ccontr)
    assume "[] \<noteq> ys"
    then obtain y zs where ys: "ys = y # zs" by (cases ys) auto
    with Nil.prems(3) have "f y = []" by simp
    moreover have "length (f y) = n" using Nil.prems(1) ys by simp
    ultimately show False using n by simp
  qed
next
  case (Cons x xs)
  have fx: "length (f x) = n" using Cons.prems(1) by simp
  obtain y zs where ys: "ys = y # zs"
  proof (cases ys)
    case Nil
    with Cons.prems(3) fx n show ?thesis by simp
  qed (use that in simp)
  have "length (f y) = n" using Cons.prems(1) ys by simp
  with Cons.prems(3) ys fx have "f x = f y" and tl: "concat (map f xs) = concat (map f zs)"
    by auto
  then have "x = y" using inj_onD [OF Cons.prems(2), of x y] ys by simp
  moreover have "xs = zs"
  proof (rule Cons.IH)
    show "\<And>x. x \<in> set xs \<union> set zs \<Longrightarrow> length (f x) = n" using Cons.prems(1) ys by auto
    show "inj_on f (set xs \<union> set zs)" using Cons.prems(2) ys by (auto intro: inj_on_subset)
  qed (rule tl)
  ultimately show ?case using ys by simp
qed

text \<open>Decimal notation is injective and uses digits only.\<close>

definition is_digit :: "char \<Rightarrow> bool" where
  "is_digit c \<longleftrightarrow> 48 \<le> (of_char c :: nat) \<and> (of_char c :: nat) \<le> 57"

fun read_nat :: "nat \<Rightarrow> string \<Rightarrow> nat" where
  "read_nat acc [] = acc"
| "read_nat acc (c # s) = read_nat (10 * acc + (of_char c - 48)) s"

lemma read_nat_append: "read_nat acc (s @ t) = read_nat (read_nat acc s) t"
  by (induction s arbitrary: acc) auto

lemma read_show_nat [simp]: "read_nat 0 (show_nat n) = n"
proof (induction n rule: show_nat.induct)
  case (1 n)
  show ?case
  proof (cases "n < 10")
    case True
    then show ?thesis by (simp add: show_nat.simps [of n])
  next
    case False
    with 1 show ?thesis by (simp add: show_nat.simps [of n] read_nat_append)
  qed
qed

lemma show_nat_inject [simp]: "show_nat m = show_nat n \<longleftrightarrow> m = n"
  by (metis read_show_nat)

lemma show_nat_digits: "c \<in> set (show_nat n) \<Longrightarrow> is_digit c"
proof (induction n rule: show_nat.induct)
  case (1 n)
  show ?case
  proof (cases "n < 10")
    case True
    with 1 show ?thesis by (auto simp: show_nat.simps [of n] is_digit_def)
  next
    case False
    with 1 show ?thesis by (auto simp: show_nat.simps [of n] is_digit_def)
  qed
qed

lemma not_digits [simp]: "\<not> is_digit CHR '':''" "\<not> is_digit CHR 0x0A"
  by (simp_all add: is_digit_def)

lemma split_at_separator:
  "a @ c # s = b @ c # t \<Longrightarrow> c \<notin> set a \<Longrightarrow> c \<notin> set b \<Longrightarrow> a = b \<and> s = t"
proof (induction a arbitrary: b)
  case Nil
  then show ?case by (cases b) auto
next
  case (Cons x a)
  then show ?case by (cases b) auto
qed

lemma hex_chars: "c \<in> set (hex bs) \<Longrightarrow> unhex_char c \<noteq> None"
proof (induction bs)
  case (Cons b bs)
  have "unat b < 256" using unsigned_less [of b] by simp
  then have "unat b div 16 < 16" by simp
  with Cons show ?case by (auto simp: hex_byte_def unhex_hex_char)
qed simp

lemma hex_no_separator [simp]: "CHR '':'' \<notin> set (hex bs)" "CHR 0x0A \<notin> set (hex bs)"
  using hex_chars [of "CHR '':''" bs] hex_chars [of "CHR 0x0A" bs]
  by (auto simp: unhex_char_def)

subsection \<open>Eight-byte integers are injective\<close>

lemma IntToByteArr_w_inject [simp]: "IntToByteArr_w v = IntToByteArr_w w \<longleftrightarrow> v = w"
proof
  assume "IntToByteArr_w v = IntToByteArr_w w"
  then have "\<forall>i \<in> set [7, 6, 5, 4, 3, 2, 1, 0].
      (ucast (drop_bit (8 * i) v) :: byte) = ucast (drop_bit (8 * i) w)"
    by (simp only: IntToByteArr_w_def map_eq_conv)
  moreover have "i \<in> set [7, 6, 5, 4, 3, 2, 1, 0]" if "i < 8" for i :: nat
    using that by simp arith
  ultimately have byte: "(ucast (drop_bit (8 * i) v) :: byte) = ucast (drop_bit (8 * i) w)"
    if "i < 8" for i
    using that by blast
  show "v = w"
  proof (rule bit_word_eqI)
    fix n
    assume "n < LENGTH(64)"
    then have i: "n div 8 < 8" and n: "8 * (n div 8) + n mod 8 = n" and m: "n mod 8 < 8"
      by simp_all
    have "bit (ucast (drop_bit (8 * (n div 8)) u) :: byte) (n mod 8) = bit u n" for u :: uint64
      using m n by (simp add: bit_simps)
    then show "bit v n = bit w n"
      using byte [OF i] by metis
  qed
qed simp

lemma IntToByteArr_inject:
  "is_i64 m \<Longrightarrow> is_i64 n \<Longrightarrow> IntToByteArr m = IntToByteArr n \<longleftrightarrow> m = n"
proof -
  assume m: "is_i64 m" and n: "is_i64 n"
  have "m = n" if "word_of_int m = (word_of_int n :: uint64)"
  proof -
    have "sint (word_of_int m :: uint64) = m" "sint (word_of_int n :: uint64) = n"
      using m n by (simp_all add: is_i64_def signed_take_bit_int_eq_self sint_sbintrunc')
    with that show ?thesis by metis
  qed
  then show ?thesis by (auto simp: IntToByteArr_def)
qed

subsection \<open>Finite maps\<close>

text \<open>A Go map iterated in the order of its sorted keys, as the hashing routines do.\<close>

definition sorted_keys :: "('k::linorder, 'v) fmap \<Rightarrow> 'k list" where
  "sorted_keys m = sorted_list_of_fset (fmdom m)"

lemma set_sorted_keys [simp]: "set (sorted_keys m) = fset (fmdom m)"
  by (simp add: sorted_keys_def)

lemma distinct_sorted_keys [simp]: "distinct (sorted_keys m)"
  by (simp add: sorted_keys_def sorted_list_of_fset.rep_eq)

lemma sorted_sorted_keys [simp]: "sorted (sorted_keys m)"
  by (simp add: sorted_keys_def sorted_list_of_fset.rep_eq)

lemma sorted_keys_empty [simp]: "sorted_keys fmempty = []"
  by (simp add: sorted_keys_def sorted_list_of_fset.rep_eq)

lemma fmap_eq_of_keys:
  assumes "sorted_keys m = sorted_keys n"
    and "\<And>k. k \<in> set (sorted_keys m) \<Longrightarrow> fmlookup m k = fmlookup n k"
  shows "m = n"
proof (rule fmap_ext)
  fix k
  have "fset (fmdom m) = fset (fmdom n)" using assms(1) by (metis set_sorted_keys)
  then show "fmlookup m k = fmlookup n k"
    using assms(2) by (cases "k |\<in>| fmdom m") (auto simp: fmdom_notD)
qed

text \<open>The sum of a weight over the entries of a finite map.\<close>

definition fm_sum :: "('v \<Rightarrow> nat) \<Rightarrow> ('k, 'v) fmap \<Rightarrow> nat" where
  "fm_sum f m = (\<Sum>k \<in> fset (fmdom m). f (the (fmlookup m k)))"

definition fm_weight :: "('v \<Rightarrow> nat) \<Rightarrow> ('k, 'v) fmap \<Rightarrow> 'k \<Rightarrow> nat" where
  "fm_weight f m k = (case fmlookup m k of None \<Rightarrow> 0 | Some v \<Rightarrow> f v)"

lemma fm_sum_empty [simp]: "fm_sum f fmempty = 0"
  by (simp add: fm_sum_def)

lemma fm_sum_fmdrop: "fm_sum f (fmdrop k m) + fm_weight f m k = fm_sum f m"
proof (cases "fmlookup m k")
  case None
  then have "fmdrop k m = m" by (intro fmap_ext) auto
  with None show ?thesis by (simp add: fm_weight_def)
next
  case (Some v)
  then have k: "k \<in> fset (fmdom m)" by (simp add: fmdomI)
  have "fm_sum f (fmdrop k m) = (\<Sum>i \<in> fset (fmdom m) - {k}. f (the (fmlookup m i)))"
    unfolding fm_sum_def by (rule sum.cong) auto
  with k Some show ?thesis
    by (simp add: fm_sum_def fm_weight_def sum.remove [of _ k])
qed

lemma fm_sum_fmupd: "fm_sum f (fmupd k v m) + fm_weight f m k = fm_sum f m + f v"
proof -
  have "fm_sum f (fmdrop k (fmupd k v m)) + f v = fm_sum f (fmupd k v m)"
    using fm_sum_fmdrop [of f k "fmupd k v m"] by (simp add: fm_weight_def)
  moreover have "fmdrop k (fmupd k v m) = fmdrop k m"
    by (rule fmap_ext) auto
  ultimately show ?thesis
    using fm_sum_fmdrop [of f k m] by simp
qed

lemma fm_weight_le_sum: "fm_weight f m k \<le> fm_sum f m"
  using fm_sum_fmdrop [of f k m] by simp

subsection \<open>64-bit arithmetic\<close>

lemma unat_add_small: "unat a + unat b < 2 ^ 64 \<Longrightarrow> unat (a + b) = unat a + unat (b :: uint64)"
  by (simp add: unat_word_ariths)

lemma unat_diff_le: "b \<le> a \<Longrightarrow> unat (a - b) = unat a - unat (b :: uint64)"
  by (simp add: unat_sub)

lemma unat_lt_2p64 [simp]: "unat (w :: uint64) < 18446744073709551616"
  using unsigned_less [of w] by simp

end
