(* ===== verification/Config.thy ===== *)
theory Config
  imports Sha256
begin

text \<open>
  \<^verbatim>\<open>internal/blockchain/config.go\<close>: the protocol constants, the slashing arithmetic, the
  registry check and the life cycle of a domain. The global \<^verbatim>\<open>TrustedRegistries\<close> is an
  argument of the functions that read it.
\<close>

definition GracePeriodDays :: int64 where "GracePeriodDays = 30"

definition MinStakeThreshold :: uint64 where "MinStakeThreshold = 100"
definition UnstakeDelaySlots :: uint64 where "UnstakeDelaySlots = 1000"
definition SlashingPercent :: uint64 where "SlashingPercent = 100"
definition MaxEvidenceBlockBytes :: nat where "MaxEvidenceBlockBytes = 2 * 1024 * 1024"

definition ComputeSlashAmount :: "uint64 \<Rightarrow> uint64 \<Rightarrow> uint64" where
  "ComputeSlashAmount stake percent =
     (if percent = 0 then 0
      else if stake > (- 1) div percent then stake
      else stake * percent div 100)"

definition CommitMinDelay :: int64 where "CommitMinDelay = 3"
definition CommitMaxWindow :: int64 where "CommitMaxWindow = 100"

definition InitTrustedRegistries :: "bytes list \<Rightarrow> bytes list" where
  "InitTrustedRegistries registryKeys = registryKeys"

fun IsRegistryKey :: "bytes list \<Rightarrow> bytes \<Rightarrow> bool" where
  "IsRegistryKey [] pubKey = False"
| "IsRegistryKey (regKey # rest) pubKey = (if regKey = pubKey then True else IsRegistryKey rest pubKey)"

definition ComputePurgeSlot :: "int64 \<Rightarrow> int64 \<Rightarrow> int64" where
  "ComputePurgeSlot expirySlot slotsPerDay = i64 (expirySlot + i64 (GracePeriodDays * slotsPerDay))"

definition GetDomainPhase :: "int64 \<Rightarrow> int64 \<Rightarrow> int64 \<Rightarrow> string" where
  "GetDomainPhase currentSlot expirySlot slotsPerDay =
     (if currentSlot < expirySlot then ''active''
      else let purgeSlot = ComputePurgeSlot expirySlot slotsPerDay in
        if currentSlot < purgeSlot then ''grace''
        else ''purged'')"

lemmas config_defs = GracePeriodDays_def MinStakeThreshold_def UnstakeDelaySlots_def
  SlashingPercent_def MaxEvidenceBlockBytes_def CommitMinDelay_def CommitMaxWindow_def

subsection \<open>Registry keys and phases\<close>

lemma IsRegistryKey_iff [simp]: "IsRegistryKey ks k \<longleftrightarrow> k \<in> set ks"
  by (induction ks) auto

lemma phase_active_iff [simp]: "GetDomainPhase s e d = ''active'' \<longleftrightarrow> s < e"
  by (simp add: GetDomainPhase_def Let_def)

lemma phase_purged_iff [simp]:
  "GetDomainPhase s e d = ''purged'' \<longleftrightarrow> e \<le> s \<and> ComputePurgeSlot e d \<le> s"
  by (auto simp: GetDomainPhase_def Let_def)

lemma phase_grace_iff [simp]:
  "GetDomainPhase s e d = ''grace'' \<longleftrightarrow> e \<le> s \<and> s < ComputePurgeSlot e d"
  by (auto simp: GetDomainPhase_def Let_def)

lemma purge_slot_no_overflow:
  "is_i64 (30 * d) \<Longrightarrow> is_i64 (e + 30 * d) \<Longrightarrow> ComputePurgeSlot e d = e + 30 * d"
  by (simp add: ComputePurgeSlot_def config_defs)

definition phase_rank :: "string \<Rightarrow> nat" where
  "phase_rank p = (if p = ''active'' then 0 else if p = ''grace'' then 1 else 2)"

lemma phase_rank_mono: "s \<le> s' \<Longrightarrow> phase_rank (GetDomainPhase s e d) \<le> phase_rank (GetDomainPhase s' e d)"
  by (auto simp: GetDomainPhase_def phase_rank_def Let_def)

subsection \<open>Slashing\<close>

lemma max_word_div_nat: "unat ((- 1 :: uint64) div p) = (2 ^ 64 - 1) div unat p"
  by (simp add: unat_div unsigned_minus_1_eq_mask mask_eq_exp_minus_1)

lemma slash_product_no_overflow:
  assumes "percent \<noteq> 0" and "stake \<le> (- 1) div percent"
  shows "unat (stake * percent) = unat stake * unat (percent :: uint64)"
proof -
  have "unat stake \<le> (2 ^ 64 - 1) div unat percent"
    using assms(2) by (simp add: word_le_nat_alt max_word_div_nat)
  then have "unat stake * unat percent \<le> (2 ^ 64 - 1) div unat percent * unat percent"
    by (rule mult_le_mono1)
  also have "\<dots> \<le> 2 ^ 64 - 1" by (rule div_times_less_eq_dividend)
  finally show ?thesis by (simp add: unat_word_ariths)
qed

lemma unat_ComputeSlashAmount:
  assumes "percent \<noteq> 0" and "stake \<le> (- 1) div percent"
  shows "unat (ComputeSlashAmount stake percent) = unat stake * unat percent div 100"
  using assms slash_product_no_overflow [OF assms]
  by (simp add: ComputeSlashAmount_def unat_div leD)

lemma ComputeSlashAmount_le:
  assumes "percent \<le> 100"
  shows "ComputeSlashAmount stake percent \<le> stake"
proof (cases "percent = 0 \<or> stake > (- 1) div percent")
  case True
  then show ?thesis by (auto simp: ComputeSlashAmount_def)
next
  case False
  then have "unat (ComputeSlashAmount stake percent) = unat stake * unat percent div 100"
    by (intro unat_ComputeSlashAmount) (auto simp: linorder_not_less)
  also have "\<dots> \<le> unat stake * 100 div 100"
    using assms by (intro div_le_mono mult_le_mono2) (simp add: word_le_nat_alt)
  finally show ?thesis by (simp add: word_le_nat_alt)
qed

lemma ComputeSlashAmount_total [simp]: "ComputeSlashAmount stake SlashingPercent = stake"
proof (cases "stake > (- 1) div (100 :: uint64)")
  case True
  then show ?thesis by (simp add: ComputeSlashAmount_def config_defs)
next
  case False
  then have "unat (ComputeSlashAmount stake 100) = unat stake * unat (100 :: uint64) div 100"
    by (intro unat_ComputeSlashAmount) (auto simp: linorder_not_less)
  then have "unat (ComputeSlashAmount stake 100) = unat stake" by simp
  then have "ComputeSlashAmount stake 100 = stake" by (simp add: word_unat_eq_iff)
  then show ?thesis by (simp add: config_defs)
qed

end
