(* ===== verification/Utils.thy ===== *)
theory Utils
  imports Config
begin

text \<open>
  \<^verbatim>\<open>internal/blockchain/utils.go\<close> and \<^verbatim>\<open>key_pair.go\<close>: byte reversal, Base58, stake map
  comparison, public key parsing and addresses. The elliptic-curve primitives of the platform
  (\<^verbatim>\<open>x509.ParsePKIXPublicKey\<close>, \<^verbatim>\<open>ecdsa.Sign\<close>, \<^verbatim>\<open>ecdsa.Verify\<close>, \<^verbatim>\<open>ecdsa.SignASN1\<close>,
  \<^verbatim>\<open>ecdsa.VerifyASN1\<close>) are the fields of a record \<open>crypto\<close> passed to the definitions that
  use them; signing takes its randomness from the record.
\<close>

record PublicKey =
  pkCurve :: string
  pkX :: nat
  pkY :: nat

datatype pkix_key = ECDSAKey PublicKey | OtherKey

type_synonym PrivateKey = nat

record crypto =
  ParsePKIXPublicKey :: "bytes \<Rightarrow> pkix_key option"
  ecdsa_Sign :: "PrivateKey \<Rightarrow> bytes \<Rightarrow> (nat \<times> nat) option"
  ecdsa_Verify :: "PublicKey \<Rightarrow> bytes \<Rightarrow> nat \<Rightarrow> nat \<Rightarrow> bool"

definition BytesToPublicKey :: "crypto \<Rightarrow> bytes \<Rightarrow> PublicKey option" where
  "BytesToPublicKey cr pubKeyBytes =
     (case ParsePKIXPublicKey cr pubKeyBytes of
        None \<Rightarrow> None
      | Some (ECDSAKey pub) \<Rightarrow> Some pub
      | Some OtherKey \<Rightarrow> None)"

text \<open>\<^verbatim>\<open>big.Int\<close>: \<^verbatim>\<open>SetBytes\<close> and \<^verbatim>\<open>Bytes\<close> (most significant byte first, no leading zero).\<close>

definition nat_of_bytes :: "bytes \<Rightarrow> nat" where
  "nat_of_bytes bs = foldl (\<lambda>n b. 256 * n + unat b) 0 bs"

fun bytes_of_nat :: "nat \<Rightarrow> bytes" where
  "bytes_of_nat n = (if n = 0 then [] else bytes_of_nat (n div 256) @ [of_nat (n mod 256)])"

declare bytes_of_nat.simps [simp del]

text \<open>The comparison loop ranges over the first map; both lengths are compared first.\<close>

definition areStakesEqual :: "(string, uint64) fmap \<Rightarrow> (string, uint64) fmap \<Rightarrow> bool" where
  "areStakesEqual m1 m2 =
     (if length (sorted_keys m1) \<noteq> length (sorted_keys m2) then False
      else list_all (\<lambda>k. fmlookup m2 k = fmlookup m1 k) (sorted_keys m1))"

fun reverse_loop :: "'a list \<Rightarrow> nat \<Rightarrow> nat \<Rightarrow> 'a list" where
  "reverse_loop data i j =
     (if i < j then reverse_loop (data[i := data ! j, j := data ! i]) (i + 1) (j - 1) else data)"

declare reverse_loop.simps [simp del]

definition ReverseBytes :: "'a list \<Rightarrow> 'a list" where
  "ReverseBytes data = reverse_loop data 0 (length data - 1)"

definition b58Alphabet :: bytes where
  "b58Alphabet = bytes_of_string ''123456789ABCDEFGHJKLMNPQRSTUVWXYZabcdefghijkmnopqrstuvwxyz''"

fun b58_loop :: "nat \<Rightarrow> bytes" where
  "b58_loop x = (if x = 0 then [] else b58Alphabet ! (x mod 58) # b58_loop (x div 58))"

declare b58_loop.simps [simp del]

definition Base58Encode :: "bytes \<Rightarrow> panic + bytes" where
  "Base58Encode input =
     (let result = b58_loop (nat_of_bytes input) in
      case input of
        [] \<Rightarrow> Inl IndexOutOfRange
      | b # _ \<Rightarrow> Inr (ReverseBytes (if b = 0 then result @ [b58Alphabet ! 0] else result)))"

text \<open>\<^verbatim>\<open>bytes.IndexByte\<close>: the first position, or -1.\<close>

fun IndexByte :: "bytes \<Rightarrow> byte \<Rightarrow> int" where
  "IndexByte [] b = -1"
| "IndexByte (c # cs) b = (if c = b then 0 else let i = IndexByte cs b in if i < 0 then -1 else i + 1)"

definition Base58Decode :: "bytes \<Rightarrow> panic + bytes" where
  "Base58Decode input =
     (let result = foldl (\<lambda>r b. r * 58 + IndexByte b58Alphabet b) 0 input;
          decoded = bytes_of_nat (nat \<bar>result\<bar>)
      in case input of
        [] \<Rightarrow> Inl IndexOutOfRange
      | b # _ \<Rightarrow> Inr (if b = b58Alphabet ! 0 then 0 # decoded else decoded))"

record KeyPair =
  kpPrivateKey :: PrivateKey
  kpPublicKey :: bytes

definition address_version :: byte where "address_version = 0"
definition addressChecksumLen :: nat where "addressChecksumLen = 4"

definition checksum :: "bytes \<Rightarrow> bytes" where
  "checksum payload = take addressChecksumLen (sha256 (sha256 payload))"

definition HashPubKey :: "bytes \<Rightarrow> bytes" where
  "HashPubKey pubKey = take 20 (sha256 (sha256 pubKey))"

definition GetAddress :: "KeyPair \<Rightarrow> panic + bytes" where
  "GetAddress kp =
     (let pubKeyHash = HashPubKey (kpPublicKey kp);
          versionedPayload = address_version # pubKeyHash;
          fullPayload = versionedPayload @ checksum versionedPayload
      in Base58Encode fullPayload)"

text \<open>
  Slicing with a negative bound or with bounds in the wrong order is the Go slice-bounds panic.
\<close>

definition ValidateAddress :: "bytes \<Rightarrow> panic + bool" where
  "ValidateAddress address =
     bindR (Base58Decode address) (\<lambda>pubKeyHash.
       if length pubKeyHash < addressChecksumLen + 1 then Inl IndexOutOfRange
       else
         (let actualChecksum = drop (length pubKeyHash - addressChecksumLen) pubKeyHash;
              version = pubKeyHash ! 0;
              inner = drop 1 (take (length pubKeyHash - addressChecksumLen) pubKeyHash);
              targetChecksum = checksum (version # inner)
          in Inr (actualChecksum = targetChecksum)))"

subsection \<open>Stake map comparison is map equality\<close>

lemma areStakesEqual_iff: "areStakesEqual m1 m2 \<longleftrightarrow> m1 = m2"
proof
  assume eq: "areStakesEqual m1 m2"
  then have len: "length (sorted_keys m1) = length (sorted_keys m2)"
    and look: "\<And>k. k \<in> fset (fmdom m1) \<Longrightarrow> fmlookup m2 k = fmlookup m1 k"
    by (auto simp: areStakesEqual_def list_all_iff split: if_splits)
  have sub: "fset (fmdom m1) \<subseteq> fset (fmdom m2)"
  proof
    fix k
    assume k: "k \<in> fset (fmdom m1)"
    with look [OF k] show "k \<in> fset (fmdom m2)" by (metis fmdom_notI fmdom_notD)
  qed
  have "card (fset (fmdom m1)) = card (fset (fmdom m2))"
    using len by (metis distinct_card distinct_sorted_keys set_sorted_keys)
  with sub have dom: "fset (fmdom m1) = fset (fmdom m2)"
    by (simp add: card_subset_eq)
  show "m1 = m2"
  proof (rule fmap_ext)
    fix k
    show "fmlookup m1 k = fmlookup m2 k"
    proof (cases "k \<in> fset (fmdom m1)")
      case True
      then show ?thesis by (simp add: look)
    next
      case False
      with dom show ?thesis by (simp add: fmdom_notD)
    qed
  qed
qed (simp add: areStakesEqual_def list_all_iff)

subsection \<open>In-place reversal\<close>

lemma length_reverse_loop: "length (reverse_loop d i j) = length d"
  by (induction d i j rule: reverse_loop.induct) (simp add: reverse_loop.simps)

lemma reverse_loop_nth:
  "j < length d \<Longrightarrow> k < length d \<Longrightarrow>
   reverse_loop d i j ! k = (if i \<le> k \<and> k \<le> j then d ! (i + j - k) else d ! k)"
proof (induction d i j arbitrary: k rule: reverse_loop.induct)
  case (1 d i j)
  show ?case
  proof (cases "i < j")
    case True
    let ?d = "d[i := d ! j, j := d ! i]"
    have "reverse_loop ?d (i + 1) (j - 1) ! k =
        (if i + 1 \<le> k \<and> k \<le> j - 1 then ?d ! (i + 1 + (j - 1) - k) else ?d ! k)"
      using "1.IH" [OF True] "1.prems" by auto
    moreover have "?d ! (i + 1 + (j - 1) - k) = d ! (i + j - k)" if "i + 1 \<le> k" "k \<le> j - 1"
      using that True by (simp add: nth_list_update)
    moreover have "?d ! k = (if k = i then d ! j else if k = j then d ! i else d ! k)"
      using "1.prems" True by (auto simp: nth_list_update)
    ultimately show ?thesis
      using True by (auto simp: reverse_loop.simps [of d i j])
  next
    case False
    then have "i + j - k = k" if "i \<le> k" "k \<le> j"
      using that by simp
    with False show ?thesis by (auto simp: reverse_loop.simps [of d i j])
  qed
qed

lemma ReverseBytes_eq_rev [simp]: "ReverseBytes d = rev d"
proof (rule nth_equalityI)
  show "length (ReverseBytes d) = length (rev d)"
    by (simp add: ReverseBytes_def length_reverse_loop)
  fix k
  assume "k < length (ReverseBytes d)"
  then have "k < length d" by (simp add: ReverseBytes_def length_reverse_loop)
  then show "ReverseBytes d ! k = rev d ! k"
    using reverse_loop_nth [of "length d - 1" d k 0]
    by (auto simp: ReverseBytes_def rev_nth)
qed

subsection \<open>Big integers\<close>

lemma nat_of_bytes_Nil [simp]: "nat_of_bytes [] = 0"
  by (simp add: nat_of_bytes_def)

lemma nat_of_bytes_snoc [simp]: "nat_of_bytes (bs @ [b]) = 256 * nat_of_bytes bs + unat b"
  by (simp add: nat_of_bytes_def)

lemma nat_of_bytes_zero_Cons [simp]: "nat_of_bytes (0 # bs) = nat_of_bytes bs"
  by (simp add: nat_of_bytes_def)

lemma nat_of_bytes_eq_0_iff: "nat_of_bytes bs = 0 \<longleftrightarrow> (\<forall>b \<in> set bs. b = 0)"
  by (induction bs rule: rev_induct) (auto simp: unat_eq_zero)

lemma bytes_of_nat_of_bytes: "bytes_of_nat (nat_of_bytes bs) = dropWhile (\<lambda>b. b = 0) bs"
proof (induction bs rule: rev_induct)
  case Nil
  then show ?case by (simp add: bytes_of_nat.simps)
next
  case (snoc b bs)
  have b: "unat b < 256" using unsigned_less [of b] by simp
  show ?case
  proof (cases "nat_of_bytes (bs @ [b]) = 0")
    case True
    then have "\<forall>x \<in> set (bs @ [b]). x = 0"
      using nat_of_bytes_eq_0_iff [of "bs @ [b]"] by metis
    then have "dropWhile (\<lambda>b. b = 0) (bs @ [b]) = []" by (simp only: dropWhile_eq_Nil_conv)
    moreover have "bytes_of_nat 0 = []" by (simp add: bytes_of_nat.simps)
    ultimately show ?thesis using True by metis
  next
    case False
    have "bytes_of_nat (nat_of_bytes (bs @ [b])) = dropWhile (\<lambda>b. b = 0) bs @ [b]"
      using False snoc.IH b by (simp add: bytes_of_nat.simps [of "256 * nat_of_bytes bs + unat b"])
    moreover have "b \<noteq> 0" if "dropWhile (\<lambda>b. b = 0) bs = []"
    proof
      assume "b = 0"
      have "nat_of_bytes bs = 0"
        using that snoc.IH by (simp add: nat_of_bytes_eq_0_iff dropWhile_eq_Nil_conv)
      with False \<open>b = 0\<close> show False by simp
    qed
    ultimately show ?thesis by (auto simp: dropWhile_append)
  qed
qed

subsection \<open>Base58\<close>

lemma b58_distinct: "distinct b58Alphabet"
  by (simp add: b58Alphabet_def bytes_of_string_def)

lemma b58_length [simp]: "length b58Alphabet = 58"
  by (simp add: b58Alphabet_def bytes_of_string_def)

lemma IndexByte_nth: "distinct cs \<Longrightarrow> i < length cs \<Longrightarrow> IndexByte cs (cs ! i) = int i"
  by (induction cs arbitrary: i) (auto simp: nth_Cons Let_def split: nat.splits)

lemma IndexByte_b58 [simp]: "i < 58 \<Longrightarrow> IndexByte b58Alphabet (b58Alphabet ! i) = int i"
  by (simp add: IndexByte_nth b58_distinct)

definition b58_value :: "bytes \<Rightarrow> int" where
  "b58_value ds = foldl (\<lambda>r b. r * 58 + IndexByte b58Alphabet b) 0 ds"

lemma b58_value_snoc: "b58_value (ds @ [d]) = b58_value ds * 58 + IndexByte b58Alphabet d"
  by (simp add: b58_value_def)

lemma b58_value_one_Cons: "b58_value (b58Alphabet ! 0 # ds) = b58_value ds"
  by (simp add: b58_value_def)

lemma b58_value_loop: "b58_value (rev (b58_loop x)) = int x"
proof (induction x rule: b58_loop.induct)
  case (1 x)
  show ?case
  proof (cases "x = 0")
    case True
    then show ?thesis by (simp add: b58_loop.simps b58_value_def)
  next
    case False
    have "int (x div 58) * 58 + int (x mod 58) = int x"
      by (metis div_mult_mod_eq of_nat_add of_nat_mult of_nat_numeral)
    with False "1.IH" show ?thesis
      by (simp add: b58_loop.simps [of x] b58_value_snoc)
  qed
qed

lemma b58_loop_last: "0 < x \<Longrightarrow> \<exists>d ds. rev (b58_loop x) = b58Alphabet ! d # ds \<and> 0 < d \<and> d < 58"
proof (induction x rule: b58_loop.induct)
  case (1 x)
  show ?case
  proof (cases "x div 58 = 0")
    case True
    then have "x < 58" by simp
    with "1.prems" True show ?thesis by (auto simp: b58_loop.simps)
  next
    case False
    with "1.IH" "1.prems" obtain d ds where
      "rev (b58_loop (x div 58)) = b58Alphabet ! d # ds" "0 < d" "d < 58" by auto
    with "1.prems" show ?thesis by (auto simp: b58_loop.simps [of x])
  qed
qed

lemma b58_digit_not_one: "0 < d \<Longrightarrow> d < 58 \<Longrightarrow> b58Alphabet ! d \<noteq> b58Alphabet ! 0"
  using b58_distinct by (simp add: nth_eq_iff_index_eq)

lemma Base58Decode_eq:
  "Base58Decode (c # cs) = Inr ((if c = b58Alphabet ! 0 then [0] else [])
     @ bytes_of_nat (nat \<bar>b58_value (c # cs)\<bar>))"
  by (simp add: Base58Decode_def b58_value_def Let_def)

lemma Base58_roundtrip_nonzero:
  assumes "b \<noteq> 0"
  shows "bindR (Base58Encode (b # bs)) Base58Decode = Inr (b # bs)"
proof -
  have "0 < nat_of_bytes (b # bs)"
    using assms nat_of_bytes_eq_0_iff [of "b # bs"] by auto
  then obtain d ds where d: "rev (b58_loop (nat_of_bytes (b # bs))) = b58Alphabet ! d # ds" "0 < d" "d < 58"
    using b58_loop_last by blast
  have "b58_value (b58Alphabet ! d # ds) = int (nat_of_bytes (b # bs))"
    using b58_value_loop [of "nat_of_bytes (b # bs)"] d(1) by simp
  then show ?thesis
    using assms d by (simp add: Base58Encode_def Let_def Base58Decode_eq b58_digit_not_one
        bytes_of_nat_of_bytes)
qed

lemma Base58_roundtrip_zero:
  "bindR (Base58Encode (0 # bs)) Base58Decode = Inr (0 # dropWhile (\<lambda>b. b = 0) bs)"
  by (simp add: Base58Encode_def Let_def Base58Decode_eq b58_value_one_Cons b58_value_loop
      bytes_of_nat_of_bytes)

subsection \<open>Addresses\<close>

lemma length_checksum [simp]: "length (checksum p) = 4"
  by (simp add: checksum_def addressChecksumLen_def)

lemma length_HashPubKey [simp]: "length (HashPubKey k) = 20"
  by (simp add: HashPubKey_def)

text \<open>What validation sees of an address: the payload with every leading zero but one removed.\<close>

lemma ValidateAddress_GetAddress:
  "bindR (GetAddress kp) ValidateAddress =
     (let h = HashPubKey (kpPublicKey kp);
          p = 0 # dropWhile (\<lambda>b. b = 0) (h @ checksum (0 # h))
      in if length p < 5 then Inl IndexOutOfRange
         else Inr (drop (length p - 4) p = checksum (take (length p - 4) p)))"
proof -
  let ?h = "HashPubKey (kpPublicKey kp)"
  let ?p = "0 # dropWhile (\<lambda>b. b = 0) (?h @ checksum (0 # ?h))"
  obtain a where a: "Base58Encode (0 # ?h @ checksum (0 # ?h)) = Inr a"
    by (simp add: Base58Encode_def Let_def)
  have "Base58Decode a = Inr ?p"
    using Base58_roundtrip_zero [of "?h @ checksum (0 # ?h)"] a by simp
  moreover have "?p ! 0 # drop 1 (take (length ?p - 4) ?p) = take (length ?p - 4) ?p" if "\<not> length ?p < 5"
    using that by (cases "length ?p - 4") auto
  ultimately show ?thesis
    by (simp add: GetAddress_def ValidateAddress_def a address_version_def addressChecksumLen_def
        Let_def del: dropWhile.simps)
qed

subsection \<open>Properties\<close>

text \<open>\<open>Base58Decode\<close> inverts \<open>Base58Encode\<close> on every non-empty input that has at most one
  leading zero byte; of several leading zeros exactly one survives, so that the round trip loses
  the others. Neither function panics there.\<close>

theorem Base58_roundtrip:
  "bindR (Base58Encode (b # bs)) Base58Decode = Inr (if b = 0 then 0 # dropWhile (\<lambda>x. x = 0) bs else b # bs)"
  by (cases "b = 0") (simp_all add: Base58_roundtrip_zero Base58_roundtrip_nonzero)

end
