(* ===== verification/Ledger.thy ===== *)
theory Ledger
  imports Utils
begin

text \<open>
  \<^verbatim>\<open>internal/blockchain/balance_ledger.go\<close>: the account book of B-Coin balances and nonces.
  The read-write mutex is not modelled: every method runs to completion under it. \<open>Debit\<close> returns
  \<open>None\<close> where the code returns its insufficient-balance error, and then changes nothing.
\<close>

record AccountState =
  Balance :: uint64
  Nonce :: uint64

record BalanceLedger =
  accounts :: "(string, AccountState) fmap"

definition NewBalanceLedger :: BalanceLedger where
  "NewBalanceLedger = \<lparr>accounts = fmempty\<rparr>"

definition Seed :: "BalanceLedger \<Rightarrow> string \<Rightarrow> uint64 \<Rightarrow> BalanceLedger" where
  "Seed bl pubKeyHex initialBalance =
     bl\<lparr>accounts := fmupd pubKeyHex \<lparr>Balance = initialBalance, Nonce = 0\<rparr> (accounts bl)\<rparr>"

definition GetBalance :: "BalanceLedger \<Rightarrow> string \<Rightarrow> uint64" where
  "GetBalance bl pubKeyHex =
     (case fmlookup (accounts bl) pubKeyHex of Some acc \<Rightarrow> Balance acc | None \<Rightarrow> 0)"

definition GetNonce :: "BalanceLedger \<Rightarrow> string \<Rightarrow> uint64" where
  "GetNonce bl pubKeyHex =
     (case fmlookup (accounts bl) pubKeyHex of Some acc \<Rightarrow> Nonce acc | None \<Rightarrow> 0)"

definition getBalanceUnsafe :: "BalanceLedger \<Rightarrow> string \<Rightarrow> uint64" where
  "getBalanceUnsafe bl pubKeyHex =
     (case fmlookup (accounts bl) pubKeyHex of Some acc \<Rightarrow> Balance acc | None \<Rightarrow> 0)"

definition ensureAccountUnsafe :: "BalanceLedger \<Rightarrow> string \<Rightarrow> BalanceLedger" where
  "ensureAccountUnsafe bl pubKeyHex =
     (case fmlookup (accounts bl) pubKeyHex of
        None \<Rightarrow> bl\<lparr>accounts := fmupd pubKeyHex \<lparr>Balance = 0, Nonce = 0\<rparr> (accounts bl)\<rparr>
      | Some _ \<Rightarrow> bl)"

definition update_account ::
    "(AccountState \<Rightarrow> AccountState) \<Rightarrow> string \<Rightarrow> BalanceLedger \<Rightarrow> BalanceLedger" where
  "update_account f pubKeyHex bl =
     (case fmlookup (accounts bl) pubKeyHex of
        None \<Rightarrow> bl
      | Some acc \<Rightarrow> bl\<lparr>accounts := fmupd pubKeyHex (f acc) (accounts bl)\<rparr>)"

text \<open>\<^verbatim>\<open>None\<close> is the error for a balance that is too low. Its message cuts the key to eight characters, which panics on a
  shorter key; every caller of \<open>Debit\<close> adds that with \<open>sliced 8\<close>.\<close>

definition Debit :: "BalanceLedger \<Rightarrow> string \<Rightarrow> uint64 \<Rightarrow> BalanceLedger option" where
  "Debit bl pubKeyHex amount =
     (if getBalanceUnsafe bl pubKeyHex < amount then None
      else Some (update_account (\<lambda>acc. acc\<lparr>Balance := Balance acc - amount\<rparr>) pubKeyHex
             (ensureAccountUnsafe bl pubKeyHex)))"

definition Credit :: "BalanceLedger \<Rightarrow> string \<Rightarrow> uint64 \<Rightarrow> BalanceLedger" where
  "Credit bl pubKeyHex amount =
     update_account (\<lambda>acc. acc\<lparr>Balance := Balance acc + amount\<rparr>) pubKeyHex
       (ensureAccountUnsafe bl pubKeyHex)"

definition IncrementNonce :: "BalanceLedger \<Rightarrow> string \<Rightarrow> BalanceLedger" where
  "IncrementNonce bl pubKeyHex =
     update_account (\<lambda>acc. acc\<lparr>Nonce := Nonce acc + 1\<rparr>) pubKeyHex
       (ensureAccountUnsafe bl pubKeyHex)"

text \<open>One line of the hashed text: \<^verbatim>\<open>"%s:%d:%d\n"\<close>.\<close>

definition ledger_line :: "string \<Rightarrow> AccountState \<Rightarrow> string" where
  "ledger_line k st =
     k @ '':'' @ show_nat (unat (Balance st)) @ '':'' @ show_nat (unat (Nonce st)) @ [CHR 0x0A]"

definition ledger_text :: "BalanceLedger \<Rightarrow> string" where
  "ledger_text bl =
     concat (map (\<lambda>k. ledger_line k (the (fmlookup (accounts bl) k))) (sorted_keys (accounts bl)))"

definition LedgerHash :: "BalanceLedger \<Rightarrow> bytes" where
  "LedgerHash bl = sha256 (bytes_of_string (ledger_text bl))"

text \<open>A deep copy: with value semantics the clone is the ledger itself.\<close>

definition CloneLedger :: "BalanceLedger \<Rightarrow> BalanceLedger" where
  "CloneLedger bl = \<lparr>accounts = fmmap (\<lambda>acc. acc) (accounts bl)\<rparr>"

subsection \<open>Reading after writing\<close>

lemma GetBalance_unsafe [simp]: "getBalanceUnsafe bl k = GetBalance bl k"
  by (simp add: getBalanceUnsafe_def GetBalance_def)

lemma lookup_update_ensure:
  "fmlookup (accounts (update_account f k (ensureAccountUnsafe bl k))) j =
     (if j = k
      then Some (f (case fmlookup (accounts bl) k of None \<Rightarrow> \<lparr>Balance = 0, Nonce = 0\<rparr> | Some a \<Rightarrow> a))
      else fmlookup (accounts bl) j)"
  by (auto simp: update_account_def ensureAccountUnsafe_def split: option.splits)

lemma GetBalance_empty [ledger_simps]: "GetBalance NewBalanceLedger k = 0"
  by (simp add: GetBalance_def NewBalanceLedger_def)

lemma GetBalance_Seed [ledger_simps]: "GetBalance (Seed bl k a) j = (if j = k then a else GetBalance bl j)"
  by (simp add: GetBalance_def Seed_def)

lemma GetNonce_Seed [ledger_simps]: "GetNonce (Seed bl k a) j = (if j = k then 0 else GetNonce bl j)"
  by (simp add: GetNonce_def Seed_def)

lemma GetBalance_Credit [ledger_simps]:
  "GetBalance (Credit bl k a) j = (if j = k then GetBalance bl k + a else GetBalance bl j)"
  by (auto simp: GetBalance_def Credit_def lookup_update_ensure split: option.splits)

lemma GetNonce_Credit [ledger_simps]: "GetNonce (Credit bl k a) j = GetNonce bl j"
  by (auto simp: GetNonce_def Credit_def lookup_update_ensure split: option.splits)

lemma GetBalance_IncrementNonce [ledger_simps]: "GetBalance (IncrementNonce bl k) j = GetBalance bl j"
  by (auto simp: GetBalance_def IncrementNonce_def lookup_update_ensure split: option.splits)

lemma GetNonce_IncrementNonce [ledger_simps]:
  "GetNonce (IncrementNonce bl k) j = (if j = k then GetNonce bl k + 1 else GetNonce bl j)"
  by (auto simp: GetNonce_def IncrementNonce_def lookup_update_ensure split: option.splits)

lemma Debit_None_iff: "Debit bl k a = None \<longleftrightarrow> GetBalance bl k < a"
  by (simp add: Debit_def)

lemma Debit_SomeD:
  assumes "Debit bl k a = Some bl'"
  shows "a \<le> GetBalance bl k"
    and "GetBalance bl' j = (if j = k then GetBalance bl k - a else GetBalance bl j)"
    and "GetNonce bl' j = GetNonce bl j"
  using assms
  by (auto simp: Debit_def GetBalance_def GetNonce_def lookup_update_ensure
      split: if_splits option.splits)

lemma CloneLedger_id [simp]: "CloneLedger bl = bl"
  by (cases bl) (simp add: CloneLedger_def fmap.map_ident)

subsection \<open>Coin supply\<close>

definition ledger_supply :: "BalanceLedger \<Rightarrow> nat" where
  "ledger_supply bl = fm_sum (\<lambda>a. unat (Balance a)) (accounts bl)"

lemma ledger_supply_update:
  "ledger_supply (update_account f k (ensureAccountUnsafe bl k)) + unat (GetBalance bl k)
   = ledger_supply bl + unat (Balance (f (case fmlookup (accounts bl) k of
       None \<Rightarrow> \<lparr>Balance = 0, Nonce = 0\<rparr> | Some a \<Rightarrow> a)))"
proof -
  let ?a = "case fmlookup (accounts bl) k of None \<Rightarrow> \<lparr>Balance = 0, Nonce = 0\<rparr> | Some a \<Rightarrow> a"
  have "accounts (update_account f k (ensureAccountUnsafe bl k)) = fmupd k (f ?a) (accounts bl)"
    by (rule fmap_ext) (simp add: lookup_update_ensure)
  then show ?thesis
    using fm_sum_fmupd [of "\<lambda>a. unat (Balance a)" k "f ?a" "accounts bl"]
    by (simp add: ledger_supply_def GetBalance_def fm_weight_def split: option.splits)
qed

lemma balance_le_supply: "unat (GetBalance bl k) \<le> ledger_supply bl"
  using fm_weight_le_sum [of "\<lambda>a. unat (Balance a)" "accounts bl" k]
  by (simp add: ledger_supply_def GetBalance_def fm_weight_def split: option.splits)

lemma supply_IncrementNonce [ledger_simps]: "ledger_supply (IncrementNonce bl k) = ledger_supply bl"
  using ledger_supply_update [of "\<lambda>acc. acc\<lparr>Nonce := Nonce acc + 1\<rparr>" k bl]
  by (auto simp: IncrementNonce_def GetBalance_def split: option.splits)

lemma supply_Debit:
  assumes "Debit bl k a = Some bl'"
  shows "ledger_supply bl' + unat a = ledger_supply bl"
proof -
  have le: "a \<le> GetBalance bl k" using assms by (rule Debit_SomeD)
  have "ledger_supply bl' + unat (GetBalance bl k) = ledger_supply bl + unat (GetBalance bl k - a)"
    using assms ledger_supply_update [of "\<lambda>acc. acc\<lparr>Balance := Balance acc - a\<rparr>" k bl]
    by (auto simp: Debit_def GetBalance_def split: if_splits option.splits)
  with le show ?thesis
    by (simp add: unat_diff_le word_le_nat_alt)
qed

lemma supply_Credit:
  assumes "ledger_supply bl + unat a < 2 ^ 64"
  shows "ledger_supply (Credit bl k a) = ledger_supply bl + unat a"
proof -
  have "unat (GetBalance bl k) + unat a < 2 ^ 64"
    using assms balance_le_supply [of bl k] by simp
  then have "unat (GetBalance bl k + a) = unat (GetBalance bl k) + unat a"
    by (rule unat_add_small)
  moreover have "ledger_supply (Credit bl k a) + unat (GetBalance bl k)
      = ledger_supply bl + unat (GetBalance bl k + a)"
    using ledger_supply_update [of "\<lambda>acc. acc\<lparr>Balance := Balance acc + a\<rparr>" k bl]
    by (auto simp: Credit_def GetBalance_def split: option.splits)
  ultimately show ?thesis by simp
qed

subsection \<open>The interface of a coin book\<close>

text \<open>
  What the rest of the chain relies on: reading a balance after a debit or a credit, when a debit
  fails, and how the total supply moves. The transaction rules are proved from these laws only.
\<close>

locale coin_book =
  fixes bal :: "'l \<Rightarrow> string \<Rightarrow> uint64"
    and debit :: "'l \<Rightarrow> string \<Rightarrow> uint64 \<Rightarrow> 'l option"
    and credit :: "'l \<Rightarrow> string \<Rightarrow> uint64 \<Rightarrow> 'l"
    and total :: "'l \<Rightarrow> nat"
  assumes debit_fails: "debit l k a = None \<longleftrightarrow> bal l k < a"
    and debit_bal: "debit l k a = Some l' \<Longrightarrow> bal l' j = (if j = k then bal l k - a else bal l j)"
    and debit_supply: "debit l k a = Some l' \<Longrightarrow> total l' + unat a = total l"
    and credit_bal: "bal (credit l k a) j = (if j = k then bal l k + a else bal l j)"
    and credit_supply: "total l + unat a < 2 ^ 64 \<Longrightarrow> total (credit l k a) = total l + unat a"
    and bal_supply: "unat (bal l k) \<le> total l"
begin

lemma debit_succeeds: "a \<le> bal l k \<Longrightarrow> \<exists>l'. debit l k a = Some l'"
  using debit_fails [of l k a] by (cases "debit l k a") (auto simp: leD)

lemma debit_le: "debit l k a = Some l' \<Longrightarrow> a \<le> bal l k"
  using debit_fails [of l k a] by (auto simp: not_less [symmetric])

lemma credit_no_wrap:
  "total l + unat a < 2 ^ 64 \<Longrightarrow> unat (bal (credit l k a) j) \<ge> unat (bal l j)"
  using bal_supply [of l k] by (auto simp: credit_bal unat_add_small)

text \<open>A payment: debit one account, credit another. Nothing is created or destroyed.\<close>

lemma payment_supply:
  assumes "debit l k a = Some l'" and "total l < 2 ^ 64"
  shows "total (credit l' j a) = total l"
  using debit_supply [OF assms(1)] assms(2) credit_supply [of l' a j] by simp

lemma payment_bal:
  assumes "debit l k a = Some l'" and "j \<noteq> k"
  shows "bal (credit l' j a) k = bal l k - a" and "bal (credit l' j a) j = bal l j + a"
    and "i \<noteq> k \<Longrightarrow> i \<noteq> j \<Longrightarrow> bal (credit l' j a) i = bal l i"
  using assms by (auto simp: credit_bal debit_bal [OF assms(1)])

lemma payment_self:
  assumes "debit l k a = Some l'"
  shows "bal (credit l' k a) i = bal l i"
  using assms by (auto simp: credit_bal debit_bal [OF assms(1)])

end

interpretation bl: coin_book GetBalance Debit Credit ledger_supply
proof unfold_locales
  fix l k a j l'
  show "(Debit l k a = None) = (GetBalance l k < a)" by (rule Debit_None_iff)
  show "GetBalance (Credit l k a) j = (if j = k then GetBalance l k + a else GetBalance l j)"
    by (rule GetBalance_Credit)
  show "unat (GetBalance l k) \<le> ledger_supply l" by (rule balance_le_supply)
  show "ledger_supply (Credit l k a) = ledger_supply l + unat a"
    if "ledger_supply l + unat a < 2 ^ 64"
    using that by (rule supply_Credit)
  assume "Debit l k a = Some l'"
  then show "GetBalance l' j = (if j = k then GetBalance l k - a else GetBalance l j)"
    and "ledger_supply l' + unat a = ledger_supply l"
    by (rule Debit_SomeD supply_Debit)+
qed

subsection \<open>The hashed text determines the ledger\<close>

definition hex_keys :: "(string, 'v) fmap \<Rightarrow> bool" where
  "hex_keys m \<longleftrightarrow> (\<forall>k \<in> fset (fmdom m). CHR '':'' \<notin> set k \<and> CHR 0x0A \<notin> set k)"

lemma show_nat_no_colon [simp]: "CHR '':'' \<notin> set (show_nat n)" "CHR 0x0A \<notin> set (show_nat n)"
  using show_nat_digits [of "CHR '':''" n] show_nat_digits [of "CHR 0x0A" n] by auto

lemma ledger_line_append_inject:
  assumes "CHR '':'' \<notin> set j" "CHR '':'' \<notin> set k"
    and eq: "ledger_line j s @ x = ledger_line k t @ y"
  shows "j = k \<and> s = (t :: AccountState) \<and> x = y"
proof -
  let ?tail = "\<lambda>st. show_nat (unat (Balance st)) @ CHR '':'' # show_nat (unat (Nonce st)) @ [CHR 0x0A]"
  have "j @ CHR '':'' # ?tail s @ x = k @ CHR '':'' # ?tail t @ y"
    using eq by (simp add: ledger_line_def)
  from split_at_separator [OF this assms(1,2)]
  have jk: "j = k" and "show_nat (unat (Balance s)) @ CHR '':'' # show_nat (unat (Nonce s)) @ CHR 0x0A # x
      = show_nat (unat (Balance t)) @ CHR '':'' # show_nat (unat (Nonce t)) @ CHR 0x0A # y"
    by simp_all
  from split_at_separator [OF this(2)]
  have b: "unat (Balance s) = unat (Balance t)"
    and "show_nat (unat (Nonce s)) @ CHR 0x0A # x = show_nat (unat (Nonce t)) @ CHR 0x0A # y"
    by simp_all
  from split_at_separator [OF this(2)] have n: "unat (Nonce s) = unat (Nonce t)" and "x = y"
    by simp_all
  with jk b show ?thesis by (cases s, cases t) (simp add: word_unat_eq_iff)
qed

lemma ledger_lines_inject:
  assumes "\<forall>(k, s) \<in> set xs \<union> set ys. CHR '':'' \<notin> set k"
    and "concat (map (\<lambda>(k, s). ledger_line k s) xs) = concat (map (\<lambda>(k, s). ledger_line k s) ys)"
  shows "xs = (ys :: (string \<times> AccountState) list)"
  using assms
proof (induction xs arbitrary: ys)
  case Nil
  then show ?case by (cases ys) (auto simp: ledger_line_def split: prod.splits)
next
  case (Cons x xs)
  obtain y zs where ys: "ys = y # zs"
    using Cons.prems(2) by (cases ys) (auto simp: ledger_line_def split: prod.splits)
  obtain j s k t where xy: "x = (j, s)" "y = (k, t)" by (cases x, cases y) auto
  have "j = k \<and> s = t \<and> concat (map (\<lambda>(k, s). ledger_line k s) xs)
      = concat (map (\<lambda>(k, s). ledger_line k s) zs)"
    using Cons.prems ys xy by (intro ledger_line_append_inject) auto
  with Cons.IH [of zs] Cons.prems ys xy show ?case by auto
qed

lemma ledger_text_inject:
  assumes "hex_keys (accounts a)" "hex_keys (accounts b)" and "ledger_text a = ledger_text b"
  shows "a = b"
proof -
  let ?entries = "\<lambda>l. map (\<lambda>k. (k, the (fmlookup (accounts l) k))) (sorted_keys (accounts l))"
  have lines: "ledger_text l = concat (map (\<lambda>(k, s). ledger_line k s) (?entries l))" for l
    by (simp add: ledger_text_def comp_def)
  have e: "?entries a = ?entries b"
    using assms by (intro ledger_lines_inject) (auto simp: lines hex_keys_def)
  then have keys: "sorted_keys (accounts a) = sorted_keys (accounts b)"
    by (drule_tac arg_cong [where f = "map fst"]) (simp add: comp_def)
  have "accounts a = accounts b"
  proof (rule fmap_eq_of_keys [OF keys])
    fix k
    assume k: "k \<in> set (sorted_keys (accounts a))"
    with e keys have "the (fmlookup (accounts a) k) = the (fmlookup (accounts b) k)" by simp
    moreover have "k |\<in>| fmdom (accounts a)" using k by simp
    moreover have "k |\<in>| fmdom (accounts b)" using k keys by (metis set_sorted_keys)
    ultimately show "fmlookup (accounts a) k = fmlookup (accounts b) k"
      by (metis fmlookup_dom_iff option.sel)
  qed
  then show ?thesis by simp
qed

subsection \<open>Properties\<close>

text \<open>A payment (a successful \<open>Debit\<close> followed by a \<open>Credit\<close> of the same amount) moves exactly
  that amount and keeps the sum of all balances, without wrap-around, as long as the supply is
  below \<open>2\<^sup>6\<^sup>4\<close>; the payer could afford it, and paying oneself changes no balance.\<close>

theorem payment_conserves:
  assumes "Debit bl payer amount = Some bl'" and "ledger_supply bl < 2 ^ 64"
  shows "amount \<le> GetBalance bl payer \<and> ledger_supply (Credit bl' payee amount) = ledger_supply bl \<and>
    GetBalance (Credit bl' payee amount) payer =
      (if payee = payer then GetBalance bl payer else GetBalance bl payer - amount) \<and>
    (payee \<noteq> payer \<longrightarrow> GetBalance (Credit bl' payee amount) payee = GetBalance bl payee + amount) \<and>
    (\<forall>k. k \<noteq> payer \<and> k \<noteq> payee \<longrightarrow> GetBalance (Credit bl' payee amount) k = GetBalance bl k)"
  using bl.debit_le [OF assms(1)] bl.payment_supply [OF assms] bl.payment_bal [OF assms(1), of payee]
    bl.payment_self [OF assms(1)] by auto

theorem payment_conserves_witness:
  "\<exists>bl'. Debit (Seed NewBalanceLedger ''aa'' 10) ''aa'' 4 = Some bl' \<and>
    GetBalance (Credit bl' ''bb'' 4) ''aa'' = 6 \<and> GetBalance (Credit bl' ''bb'' 4) ''bb'' = 4"
proof -
  have "\<not> GetBalance (Seed NewBalanceLedger ''aa'' 10) ''aa'' < 4" by (simp add: ledger_simps)
  then obtain bl' where d: "Debit (Seed NewBalanceLedger ''aa'' 10) ''aa'' 4 = Some bl'"
    using Debit_None_iff by fastforce
  have "ledger_supply (Seed NewBalanceLedger ''aa'' 10) < 2 ^ 64"
    by (simp add: ledger_supply_def Seed_def NewBalanceLedger_def fm_sum_def sorted_keys_def)
  from payment_conserves [OF d this, of "''bb''"] show ?thesis
    using d by (auto simp: ledger_simps)
qed

text \<open>The text hashed by \<^verbatim>\<open>BalanceLedger.Hash\<close> determines the ledger: two ledgers keyed by
  hexadecimal public keys have the same text exactly when they hold the same accounts with the same
  balances and nonces, whatever the order of insertion.\<close>

theorem ledger_text_canonical:
  assumes "hex_keys (accounts a)" and "hex_keys (accounts b)"
  shows "ledger_text a = ledger_text b \<longleftrightarrow> a = b"
  using ledger_text_inject [OF assms] by auto

theorem ledger_text_canonical_witness:
  "ledger_text (Seed NewBalanceLedger ''01'' 5) \<noteq> ledger_text (Seed NewBalanceLedger ''01'' 6)"
proof -
  have "hex_keys (accounts (Seed NewBalanceLedger ''01'' n))" for n
    by (simp add: hex_keys_def Seed_def NewBalanceLedger_def)
  moreover have "Seed NewBalanceLedger ''01'' 5 \<noteq> Seed NewBalanceLedger ''01'' 6"
    by (auto simp: ledger_simps dest: arg_cong [where f = "\<lambda>l. GetBalance l ''01''"])
  ultimately show ?thesis by (simp add: ledger_text_canonical)
qed

end
