(* ===== verification/Stake.thy ===== *)
theory Stake
  imports Ledger
begin

text \<open>
  \<^verbatim>\<open>internal/blockchain/stake.go\<close>: the stake map and the queue of pending unstakes. An entry
  of the queue is a datatype with the linear order the hashing routine sorts by, so that the
  library's \<open>sort\<close> is that routine's \<^verbatim>\<open>sort.Slice\<close>.
\<close>

record StakeRecord =
  StakedBalance :: uint64

record StakeMap =
  entries :: "(string, StakeRecord) fmap"

definition DeepCopy :: "StakeRecord \<Rightarrow> StakeRecord" where
  "DeepCopy r = \<lparr>StakedBalance = StakedBalance r\<rparr>"

definition NewStakeMap :: StakeMap where
  "NewStakeMap = \<lparr>entries = fmempty\<rparr>"

definition stake_entry :: "StakeMap \<Rightarrow> string \<Rightarrow> StakeRecord" where
  "stake_entry sm v = (case fmlookup (entries sm) v of None \<Rightarrow> \<lparr>StakedBalance = 0\<rparr> | Some r \<Rightarrow> r)"

definition AddStake :: "StakeMap \<Rightarrow> string \<Rightarrow> uint64 \<Rightarrow> StakeMap" where
  "AddStake sm validatorHex amount =
     (let r = stake_entry sm validatorHex;
          r' = r\<lparr>StakedBalance := StakedBalance r + amount\<rparr>
      in sm\<lparr>entries := fmupd validatorHex r' (entries sm)\<rparr>)"

definition ReduceStake :: "StakeMap \<Rightarrow> string \<Rightarrow> uint64 \<Rightarrow> StakeMap" where
  "ReduceStake sm validatorHex amount =
     (case fmlookup (entries sm) validatorHex of
        None \<Rightarrow> sm
      | Some r \<Rightarrow>
          if amount \<ge> StakedBalance r then sm\<lparr>entries := fmdrop validatorHex (entries sm)\<rparr>
          else sm\<lparr>entries :=
                 fmupd validatorHex (r\<lparr>StakedBalance := StakedBalance r - amount\<rparr>) (entries sm)\<rparr>)"

definition GetStake :: "StakeMap \<Rightarrow> string \<Rightarrow> uint64" where
  "GetStake sm validatorHex = StakedBalance (stake_entry sm validatorHex)"

definition GetAll :: "StakeMap \<Rightarrow> (string, uint64) fmap" where
  "GetAll sm = fmmap StakedBalance (entries sm)"

definition HasAnyStake :: "StakeMap \<Rightarrow> bool" where
  "HasAnyStake sm \<longleftrightarrow> length (sorted_keys (entries sm)) > 0"

definition stake_bytes :: "StakeMap \<Rightarrow> bytes" where
  "stake_bytes sm =
     concat (map (\<lambda>k. fst (hex_decode k) @ IntToByteArr_w (GetStake sm k))
       (filter (\<lambda>k. GetStake sm k > 0) (sorted_keys (entries sm))))"

definition StakeMapDigest :: "StakeMap \<Rightarrow> bytes" where
  "StakeMapDigest sm = sha256 (stake_bytes sm)"

definition CloneStake :: "StakeMap \<Rightarrow> StakeMap" where
  "CloneStake sm = \<lparr>entries = fmmap DeepCopy (entries sm)\<rparr>"

datatype PendingUnstake =
  PendingUnstake (ValidatorHex: string) (Amount: uint64) (MatureSlot: uint64)

definition pending_key :: "PendingUnstake \<Rightarrow> uint64 \<times> string \<times> uint64" where
  "pending_key e = (MatureSlot e, ValidatorHex e, Amount e)"

lemma pending_key_inject [simp]: "pending_key a = pending_key b \<longleftrightarrow> a = b"
  by (cases a, cases b) (auto simp: pending_key_def)

instantiation PendingUnstake :: linorder
begin

definition less_eq_PendingUnstake :: "PendingUnstake \<Rightarrow> PendingUnstake \<Rightarrow> bool" where
  "less_eq_PendingUnstake a b \<longleftrightarrow> pending_key a \<le> pending_key b"

definition less_PendingUnstake :: "PendingUnstake \<Rightarrow> PendingUnstake \<Rightarrow> bool" where
  "less_PendingUnstake a b \<longleftrightarrow> pending_key a < pending_key b"

instance
  by intro_classes
    (auto simp: less_eq_PendingUnstake_def less_PendingUnstake_def order.strict_iff_not
      dest: order.antisym)

end

record UnstakeQueue =
  pending :: "PendingUnstake list"

definition NewUnstakeQueue :: UnstakeQueue where
  "NewUnstakeQueue = \<lparr>pending = []\<rparr>"

definition Enqueue :: "UnstakeQueue \<Rightarrow> string \<Rightarrow> uint64 \<Rightarrow> uint64 \<Rightarrow> UnstakeQueue" where
  "Enqueue uq validatorHex amount matureSlot =
     uq\<lparr>pending := pending uq @ [PendingUnstake validatorHex amount matureSlot]\<rparr>"

fun sweep_loop ::
    "uint64 \<Rightarrow> PendingUnstake list \<Rightarrow> PendingUnstake list \<times> PendingUnstake list" where
  "sweep_loop currentSlot [] = ([], [])"
| "sweep_loop currentSlot (e # es) =
     (let (remaining, matured) = sweep_loop currentSlot es in
      if MatureSlot e \<le> currentSlot then (remaining, e # matured) else (e # remaining, matured))"

text \<open>The updated queue and the returned entries.\<close>

definition SweepMature :: "UnstakeQueue \<Rightarrow> uint64 \<Rightarrow> UnstakeQueue \<times> PendingUnstake list" where
  "SweepMature uq currentSlot =
     (let (remaining, matured) = sweep_loop currentSlot (pending uq)
      in (uq\<lparr>pending := remaining\<rparr>, matured))"

definition GetPendingStake :: "UnstakeQueue \<Rightarrow> string \<Rightarrow> uint64" where
  "GetPendingStake uq validatorHex =
     foldl (\<lambda>t e. if ValidatorHex e = validatorHex then t + Amount e else t) 0 (pending uq)"

fun burn_loop ::
    "string \<Rightarrow> uint64 \<Rightarrow> uint64 \<Rightarrow> PendingUnstake list \<Rightarrow> PendingUnstake list \<times> uint64" where
  "burn_loop v amount burned [] = ([], burned)"
| "burn_loop v amount burned (e # es) =
     (if burned \<ge> amount then (e # es, burned)
      else if ValidatorHex e \<noteq> v then
        (let (es', b) = burn_loop v amount burned es in (e # es', b))
      else
        (let need = amount - burned in
         if Amount e \<le> need then
           (let (es', b) = burn_loop v amount (burned + Amount e) es
            in (PendingUnstake (ValidatorHex e) 0 (MatureSlot e) # es', b))
         else
           (let (es', b) = burn_loop v amount (burned + need) es
            in (PendingUnstake (ValidatorHex e) (Amount e - need) (MatureSlot e) # es', b))))"

definition BurnPending :: "UnstakeQueue \<Rightarrow> string \<Rightarrow> uint64 \<Rightarrow> UnstakeQueue \<times> uint64" where
  "BurnPending uq validatorHex amount =
     (let (es, burned) = burn_loop validatorHex amount 0 (pending uq)
      in (uq\<lparr>pending := filter (\<lambda>e. Amount e > 0) es\<rparr>, burned))"

definition queue_bytes :: "UnstakeQueue \<Rightarrow> bytes" where
  "queue_bytes uq =
     concat (map (\<lambda>e. fst (hex_decode (ValidatorHex e)) @ IntToByteArr_w (Amount e)
                       @ IntToByteArr_w (MatureSlot e)) (sort (pending uq)))"

definition UnstakeQueueDigest :: "UnstakeQueue \<Rightarrow> bytes" where
  "UnstakeQueueDigest uq = sha256 (queue_bytes uq)"

definition CloneQueue :: "UnstakeQueue \<Rightarrow> UnstakeQueue" where
  "CloneQueue uq = \<lparr>pending = map (\<lambda>e. e) (pending uq)\<rparr>"

subsection \<open>Stake map\<close>

lemma GetStake_lookup:
  "GetStake sm v = (case fmlookup (entries sm) v of None \<Rightarrow> 0 | Some r \<Rightarrow> StakedBalance r)"
  by (simp add: GetStake_def stake_entry_def split: option.splits)

lemma GetStake_New [stake_simps]: "GetStake NewStakeMap v = 0"
  by (simp add: GetStake_lookup NewStakeMap_def)

lemma GetStake_AddStake [stake_simps]:
  "GetStake (AddStake sm v a) w = (if w = v then GetStake sm v + a else GetStake sm w)"
  by (simp add: AddStake_def GetStake_def stake_entry_def Let_def split: option.splits)

lemma GetStake_ReduceStake [stake_simps]:
  "GetStake (ReduceStake sm v a) w = (if w = v then GetStake sm v - min a (GetStake sm v) else GetStake sm w)"
  by (auto simp: ReduceStake_def GetStake_lookup min_def split: option.splits)

lemma DeepCopy_id: "DeepCopy = (\<lambda>r. r)"
  by (rule ext) (simp add: DeepCopy_def)

lemma CloneStake_id [simp]: "CloneStake sm = sm"
  by (cases sm) (simp add: CloneStake_def DeepCopy_id fmap.map_ident)

lemma CloneQueue_id [simp]: "CloneQueue uq = uq"
  by (cases uq) (simp add: CloneQueue_def)

lemma lookup_GetAll: "fmlookup (GetAll sm) v = map_option StakedBalance (fmlookup (entries sm) v)"
  by (simp add: GetAll_def)

text \<open>The laws a stake store promises to the block processor, and what follows from them.\<close>

locale stake_storer =
  fixes get :: "'s \<Rightarrow> string \<Rightarrow> uint64"
    and add :: "'s \<Rightarrow> string \<Rightarrow> uint64 \<Rightarrow> 's"
    and reduce :: "'s \<Rightarrow> string \<Rightarrow> uint64 \<Rightarrow> 's"
    and total :: "'s \<Rightarrow> nat"
  assumes get_add: "get (add s v a) w = (if w = v then get s v + a else get s w)"
    and get_reduce: "get (reduce s v a) w = (if w = v then get s v - min a (get s v) else get s w)"
    and total_add: "total s + unat a < 2 ^ 64 \<Longrightarrow> total (add s v a) = total s + unat a"
    and total_reduce: "total (reduce s v a) + unat (min a (get s v)) = total s"
    and get_total: "unat (get s v) \<le> total s"
begin

lemma reduce_all: "get s v \<le> a \<Longrightarrow> get (reduce s v a) v = 0"
  by (simp add: get_reduce min_def)

lemma reduce_exact: "a \<le> get s v \<Longrightarrow> total (reduce s v a) + unat a = total s"
  using total_reduce [of s v a] by (simp add: min_def)

lemma reduce_add: "get (reduce (add s v a) v a) v = (if a \<le> get s v + a then get s v else 0)"
  by (auto simp: get_reduce get_add min_def)

end

definition stake_supply :: "StakeMap \<Rightarrow> nat" where
  "stake_supply sm = fm_sum (\<lambda>r. unat (StakedBalance r)) (entries sm)"

lemma stake_weight: "fm_weight (\<lambda>r. unat (StakedBalance r)) (entries sm) v = unat (GetStake sm v)"
  by (simp add: fm_weight_def GetStake_lookup split: option.splits)

lemma stake_le_supply: "unat (GetStake sm v) \<le> stake_supply sm"
  using fm_weight_le_sum [of "\<lambda>r. unat (StakedBalance r)" "entries sm" v]
  by (simp add: stake_weight stake_supply_def)

lemma stake_supply_AddStake:
  assumes "stake_supply sm + unat a < 2 ^ 64"
  shows "stake_supply (AddStake sm v a) = stake_supply sm + unat a"
proof -
  have "unat (GetStake sm v) + unat a < 2 ^ 64"
    using assms stake_le_supply [of sm v] by simp
  then have "unat (GetStake sm v + a) = unat (GetStake sm v) + unat a"
    by (rule unat_add_small)
  then show ?thesis
    using fm_sum_fmupd [of "\<lambda>r. unat (StakedBalance r)" v
        "(stake_entry sm v)\<lparr>StakedBalance := StakedBalance (stake_entry sm v) + a\<rparr>" "entries sm"]
    by (simp add: AddStake_def stake_supply_def stake_weight Let_def flip: GetStake_def)
qed

lemma stake_supply_ReduceStake:
  "stake_supply (ReduceStake sm v a) + unat (min a (GetStake sm v)) = stake_supply sm"
proof (cases "fmlookup (entries sm) v")
  case None
  then show ?thesis by (simp add: ReduceStake_def GetStake_lookup)
next
  case (Some r)
  then have g: "GetStake sm v = StakedBalance r" by (simp add: GetStake_lookup)
  show ?thesis
  proof (cases "StakedBalance r \<le> a")
    case True
    then show ?thesis
      using fm_sum_fmdrop [of "\<lambda>r. unat (StakedBalance r)" v "entries sm"] Some g
      by (simp add: ReduceStake_def stake_supply_def stake_weight min_def)
  next
    case False
    then have "unat (StakedBalance r - a) = unat (StakedBalance r) - unat a" "unat a \<le> unat (StakedBalance r)"
      by (simp_all add: unat_diff_le word_le_nat_alt)
    moreover have "min a (StakedBalance r) = a" using False by simp
    ultimately show ?thesis
      using False fm_sum_fmupd [of "\<lambda>r. unat (StakedBalance r)" v "r\<lparr>StakedBalance := StakedBalance r - a\<rparr>"
          "entries sm"] Some g
      by (simp add: ReduceStake_def stake_supply_def stake_weight min_def)
  qed
qed

interpretation stk: stake_storer GetStake AddStake ReduceStake stake_supply
  by unfold_locales
    (auto simp: stake_simps stake_supply_AddStake stake_supply_ReduceStake stake_le_supply)

lemma stake_supply_New: "stake_supply NewStakeMap = 0"
  by (simp add: stake_supply_def NewStakeMap_def fm_sum_def)

subsection \<open>Pending unstakes\<close>

definition pending_of :: "string \<Rightarrow> PendingUnstake list \<Rightarrow> nat" where
  "pending_of v es = sum_list (map (\<lambda>e. unat (Amount e)) (filter (\<lambda>e. ValidatorHex e = v) es))"

definition queue_supply :: "UnstakeQueue \<Rightarrow> nat" where
  "queue_supply uq = sum_list (map (\<lambda>e. unat (Amount e)) (pending uq))"

lemma pending_of_simps [simp]:
  "pending_of v [] = 0"
  "pending_of v (e # es) = (if ValidatorHex e = v then unat (Amount e) else 0) + pending_of v es"
  "pending_of v (es @ fs) = pending_of v es + pending_of v fs"
  by (simp_all add: pending_of_def)

lemma pending_of_le: "pending_of v es \<le> sum_list (map (\<lambda>e. unat (Amount e)) es)"
  by (induction es) auto

lemma pending_of_drop_empty [simp]: "pending_of v (filter (\<lambda>e. Amount e > 0) es) = pending_of v es"
  by (induction es) (auto simp: word_gt_0)

lemma sum_drop_empty [simp]:
  "sum_list (map (\<lambda>e. unat (Amount e)) (filter (\<lambda>e. Amount e > 0) es)) = sum_list (map (\<lambda>e. unat (Amount e)) es)"
  by (induction es) (auto simp: word_gt_0)

lemma GetPendingStake_loop:
  "unat t + pending_of v es < 2 ^ 64 \<Longrightarrow>
   unat (foldl (\<lambda>t e. if ValidatorHex e = v then t + Amount e else t) t es) = unat t + pending_of v es"
proof (induction es arbitrary: t)
  case (Cons e es)
  show ?case
  proof (cases "ValidatorHex e = v")
    case True
    then have "unat (t + Amount e) = unat t + unat (Amount e)"
      using Cons.prems by (intro unat_add_small) simp
    with True Cons show ?thesis by simp
  qed (use Cons in simp)
qed simp

lemma GetPendingStake_exact:
  "pending_of v (pending uq) < 2 ^ 64 \<Longrightarrow> unat (GetPendingStake uq v) = pending_of v (pending uq)"
  using GetPendingStake_loop [of 0] by (simp add: GetPendingStake_def)

lemma sweep_loop_filter:
  "sweep_loop s es = (filter (\<lambda>e. \<not> MatureSlot e \<le> s) es, filter (\<lambda>e. MatureSlot e \<le> s) es)"
  by (induction es) auto

text \<open>What the burning loop does: it takes coins of \<open>v\<close> only, and it takes what it was asked for
  or all there is.\<close>

lemma burn_loop_done: "burn_loop v amount amount es = (es, amount)"
  by (cases es) simp_all

lemma burn_loop_other:
  "burned < amount \<Longrightarrow> ValidatorHex e \<noteq> v \<Longrightarrow>
   burn_loop v amount burned (e # es) = apfst (Cons e) (burn_loop v amount burned es)"
  by (auto simp: Let_def split: prod.splits dest: leD)

lemma burn_loop_whole:
  "burned < amount \<Longrightarrow> ValidatorHex e = v \<Longrightarrow> Amount e \<le> amount - burned \<Longrightarrow>
   burn_loop v amount burned (e # es) =
   apfst (Cons (PendingUnstake v 0 (MatureSlot e))) (burn_loop v amount (burned + Amount e) es)"
  by (auto simp: Let_def split: prod.splits dest: leD)

lemma burn_loop_part:
  "burned < amount \<Longrightarrow> ValidatorHex e = v \<Longrightarrow> amount - burned < Amount e \<Longrightarrow>
   burn_loop v amount burned (e # es) =
   (PendingUnstake v (Amount e - (amount - burned)) (MatureSlot e) # es, amount)"
  by (auto simp: Let_def burn_loop_done dest: leD)

declare burn_loop.simps [simp del]

lemma burn_loop_spec:
  "burn_loop v amount burned es = (es', b) \<Longrightarrow> burned \<le> amount \<Longrightarrow>
     unat b = min (unat amount) (unat burned + pending_of v es) \<and>
     pending_of v es' + unat b = pending_of v es + unat burned \<and>
     filter (\<lambda>e. ValidatorHex e \<noteq> v) es' = filter (\<lambda>e. ValidatorHex e \<noteq> v) es"
proof (induction es arbitrary: burned es' b)
  case Nil
  then show ?case by (simp add: word_le_nat_alt burn_loop.simps)
next
  case (Cons e es)
  consider (enough) "burned = amount" | (other) "burned < amount" "ValidatorHex e \<noteq> v"
    | (whole) "burned < amount" "ValidatorHex e = v" "Amount e \<le> amount - burned"
    | (part) "burned < amount" "ValidatorHex e = v" "amount - burned < Amount e"
    using Cons.prems(2) by fastforce
  then show ?case
  proof cases
    case enough
    with Cons.prems(1) show ?thesis by (auto simp: burn_loop_done)
  next
    case other
    then obtain fs where "burn_loop v amount burned es = (fs, b)" "es' = e # fs"
      using Cons.prems(1) by (cases "burn_loop v amount burned es") (auto simp: burn_loop_other)
    with other Cons.IH [of burned fs b] Cons.prems(2) show ?thesis by simp
  next
    case whole
    have lt: "unat burned < unat amount" using whole(1) by (simp add: word_less_nat_alt)
    have le: "unat (Amount e) \<le> unat amount - unat burned"
      using whole(3) unat_diff_le [OF less_imp_le [OF whole(1)]] by (simp add: word_le_nat_alt)
    have "unat burned + unat (Amount e) \<le> unat amount" using lt le by simp
    then have eq: "unat (burned + Amount e) = unat burned + unat (Amount e)"
      using le_less_trans [OF _ unat_lt_2p64] by (intro unat_add_small) simp
    with lt le have le': "burned + Amount e \<le> amount" by (simp add: word_le_nat_alt)
    obtain fs where "burn_loop v amount (burned + Amount e) es = (fs, b)"
      "es' = PendingUnstake v 0 (MatureSlot e) # fs"
      using Cons.prems(1) whole
      by (cases "burn_loop v amount (burned + Amount e) es") (auto simp: burn_loop_whole)
    with whole Cons.IH [of "burned + Amount e" fs b] le' eq show ?thesis by simp
  next
    case part
    have lt: "unat burned < unat amount" using part(1) by (simp add: word_less_nat_alt)
    have "unat amount - unat burned < unat (Amount e)"
      using part(3) unat_diff_le [OF less_imp_le [OF part(1)]] by (simp add: word_less_nat_alt)
    moreover have "unat (Amount e - (amount - burned)) = unat (Amount e) - (unat amount - unat burned)"
      using unat_diff_le [OF less_imp_le [OF part(1)]] unat_diff_le [OF less_imp_le [OF part(3)]] by simp
    ultimately show ?thesis
      using part Cons.prems(1) lt by (auto simp: burn_loop_part)
  qed
qed

lemma filter_drop_empty_other:
  "filter (\<lambda>e. ValidatorHex e \<noteq> v) es' = filter (\<lambda>e. ValidatorHex e \<noteq> v) es \<Longrightarrow>
   filter (\<lambda>e. ValidatorHex e \<noteq> v) (filter (\<lambda>e. Amount e > 0) es') =
   filter (\<lambda>e. ValidatorHex e \<noteq> v \<and> Amount e > 0) es"
  by (drule arg_cong [where f = "filter (\<lambda>e. Amount e > 0)"]) (simp add: conj_commute)

lemma BurnPending_spec:
  assumes "BurnPending uq v amount = (uq', b)"
  shows "unat b = min (unat amount) (pending_of v (pending uq))"
    and "pending_of v (pending uq') + unat b = pending_of v (pending uq)"
    and "\<And>e. e \<in> set (pending uq') \<Longrightarrow> Amount e > 0"
    and "filter (\<lambda>e. ValidatorHex e \<noteq> v) (pending uq') =
         filter (\<lambda>e. ValidatorHex e \<noteq> v \<and> Amount e > 0) (pending uq)"
proof -
  obtain es where l: "burn_loop v amount 0 (pending uq) = (es, b)"
    and q: "uq' = uq\<lparr>pending := filter (\<lambda>e. Amount e > 0) es\<rparr>"
    using assms by (auto simp: BurnPending_def split: prod.splits)
  note spec = burn_loop_spec [OF l, simplified]
  show "unat b = min (unat amount) (pending_of v (pending uq))"
    "pending_of v (pending uq') + unat b = pending_of v (pending uq)"
    "\<And>e. e \<in> set (pending uq') \<Longrightarrow> Amount e > 0"
    using spec q by simp_all
  show "filter (\<lambda>e. ValidatorHex e \<noteq> v) (pending uq') =
         filter (\<lambda>e. ValidatorHex e \<noteq> v \<and> Amount e > 0) (pending uq)"
    using spec q filter_drop_empty_other by simp
qed

lemma sum_split_validator:
  "sum_list (map (\<lambda>e. unat (Amount e)) es) =
   pending_of v es + sum_list (map (\<lambda>e. unat (Amount e)) (filter (\<lambda>e. ValidatorHex e \<noteq> v) es))"
  by (induction es) auto

lemma sum_pos_other:
  "sum_list (map (\<lambda>e. unat (Amount e)) (filter (\<lambda>e. P e \<and> Amount e > 0) es)) =
   sum_list (map (\<lambda>e. unat (Amount e)) (filter P es))"
  by (induction es) (auto simp: word_gt_0)

lemma queue_supply_BurnPending:
  assumes "BurnPending uq v amount = (uq', b)"
  shows "queue_supply uq' + unat b = queue_supply uq"
  using BurnPending_spec [OF assms] sum_split_validator [of "pending uq" v]
    sum_split_validator [of "pending uq'" v]
  by (simp add: queue_supply_def sum_pos_other)

lemma queue_supply_Enqueue [stake_simps]:
  "queue_supply (Enqueue uq v a s) = queue_supply uq + unat a"
  by (simp add: queue_supply_def Enqueue_def)

lemma queue_supply_SweepMature:
  assumes "SweepMature uq s = (uq', matured)"
  shows "queue_supply uq' + sum_list (map (\<lambda>e. unat (Amount e)) matured) = queue_supply uq"
proof -
  have "sum_list (map f (filter (\<lambda>x. \<not> P x) xs)) + sum_list (map f (filter P xs)) = sum_list (map f xs)"
    for f :: "PendingUnstake \<Rightarrow> nat" and P xs
    by (induction xs) auto
  with assms show ?thesis
    by (auto simp: SweepMature_def queue_supply_def sweep_loop_filter)
qed

subsection \<open>Digests\<close>

lemma sort_eq_of_mset: "mset xs = mset ys \<Longrightarrow> sort xs = sort ys"
  by (rule properties_for_sort) simp_all

definition queue_keys :: "nat \<Rightarrow> UnstakeQueue \<Rightarrow> bool" where
  "queue_keys n uq \<longleftrightarrow> (\<forall>e \<in> set (pending uq). \<exists>k. ValidatorHex e = hex k \<and> length k = n)"

lemma queue_bytes_eq_iff:
  assumes "queue_keys n q" and "queue_keys n q'"
  shows "queue_bytes q = queue_bytes q' \<longleftrightarrow> mset (pending q) = mset (pending q')"
proof
  let ?f = "\<lambda>e. fst (hex_decode (ValidatorHex e)) @ IntToByteArr_w (Amount e) @ IntToByteArr_w (MatureSlot e)"
  have key: "\<exists>k. ValidatorHex e = hex k \<and> length k = n" if "e \<in> set (pending q) \<union> set (pending q')" for e
    using that assms by (auto simp: queue_keys_def)
  assume eq: "queue_bytes q = queue_bytes q'"
  have "sort (pending q) = sort (pending q')"
  proof (rule concat_map_inject_fixed [where f = ?f and n = "n + 16"])
    show "length (?f x) = n + 16" if "x \<in> set (sort (pending q)) \<union> set (sort (pending q'))" for x
      using that key [of x] by auto
    show "inj_on ?f (set (sort (pending q)) \<union> set (sort (pending q')))"
    proof (rule inj_onI)
      fix x y
      assume xy: "x \<in> set (sort (pending q)) \<union> set (sort (pending q'))"
        "y \<in> set (sort (pending q)) \<union> set (sort (pending q'))" and eq: "?f x = ?f y"
      obtain k l where "ValidatorHex x = hex k" "length k = n" "ValidatorHex y = hex l" "length l = n"
        using xy key [of x] key [of y] by auto
      with eq show "x = y" by (cases x, cases y) simp
    qed
  qed (use eq in \<open>simp_all add: queue_bytes_def\<close>)
  then show "mset (pending q) = mset (pending q')" by (metis mset_sort)
next
  assume "mset (pending q) = mset (pending q')"
  then show "queue_bytes q = queue_bytes q'" 
    unfolding queue_bytes_def by (simp only: sort_eq_of_mset [of "pending q" "pending q'"])
qed

text \<open>The stake digest: keys are hexadecimal and zero stakes are skipped.\<close>

definition stake_keys :: "nat \<Rightarrow> StakeMap \<Rightarrow> bool" where
  "stake_keys n sm \<longleftrightarrow> (\<forall>v \<in> fset (fmdom (entries sm)). \<exists>k. v = hex k \<and> length k = n)"

definition stakers :: "StakeMap \<Rightarrow> string list" where
  "stakers sm = filter (\<lambda>k. GetStake sm k > 0) (sorted_keys (entries sm))"

lemma set_stakers: "v \<in> set (stakers sm) \<longleftrightarrow> GetStake sm v > 0"
proof -
  have "GetStake sm v = 0" if "v |\<notin>| fmdom (entries sm)"
    using that by (simp add: GetStake_lookup fmdom_notD)
  then show ?thesis by (auto simp: stakers_def word_gt_0)
qed

lemma stake_bytes_stakers:
  "stake_bytes sm = concat (map (\<lambda>k. fst (hex_decode k) @ IntToByteArr_w (GetStake sm k)) (stakers sm))"
  by (simp add: stake_bytes_def stakers_def)

lemma stakers_cong:
  assumes "\<And>v. GetStake s v = GetStake t v"
  shows "stakers s = stakers t"
proof (rule sorted_distinct_set_unique)
  show "sorted (stakers s)" "sorted (stakers t)" "distinct (stakers s)" "distinct (stakers t)"
    by (simp_all add: stakers_def sorted_wrt_filter)
  show "set (stakers s) = set (stakers t)"
    by (rule set_eqI) (simp add: set_stakers assms)
qed

lemma stake_bytes_eq_iff:
  assumes "stake_keys n s" and "stake_keys n t"
  shows "stake_bytes s = stake_bytes t \<longleftrightarrow> (\<forall>v. GetStake s v = GetStake t v)"
proof
  let ?f = "\<lambda>(k, a). fst (hex_decode k) @ IntToByteArr_w a"
  let ?rows = "\<lambda>m. map (\<lambda>k. (k, GetStake m k)) (stakers m)"
  have key: "\<exists>k. v = hex k \<and> length k = n" if "v \<in> set (stakers s) \<union> set (stakers t)" for v
    using that assms by (auto simp: stakers_def stake_keys_def)
  assume eq: "stake_bytes s = stake_bytes t"
  have rows: "?rows s = ?rows t"
  proof (rule concat_map_inject_fixed [where f = ?f and n = "n + 8"])
    show "length (?f x) = n + 8" if m: "x \<in> set (?rows s) \<union> set (?rows t)" for x
    proof -
      obtain v a where x: "x = (v, a)" "v \<in> set (stakers s) \<union> set (stakers t)" using m by auto
      then obtain k where "v = hex k" "length k = n" using key by blast
      with x show ?thesis by simp
    qed
    show "inj_on ?f (set (?rows s) \<union> set (?rows t))"
    proof (rule inj_onI)
      fix x y
      assume xy: "x \<in> set (?rows s) \<union> set (?rows t)" "y \<in> set (?rows s) \<union> set (?rows t)"
        and eq: "?f x = ?f y"
      have "fst x \<in> set (stakers s) \<union> set (stakers t)" "fst y \<in> set (stakers s) \<union> set (stakers t)"
        using xy by auto
      then obtain k l where "fst x = hex k" "length k = n" "fst y = hex l" "length l = n"
        using key by meson
      with eq show "x = y" by (cases x, cases y) simp
    qed
  qed (use eq in \<open>simp_all add: stake_bytes_stakers comp_def\<close>)
  then have "map fst (?rows s) = map fst (?rows t)" by (rule arg_cong)
  then have st: "stakers s = stakers t" by (simp add: comp_def)
  show "\<forall>v. GetStake s v = GetStake t v"
  proof
    fix v
    show "GetStake s v = GetStake t v"
    proof (cases "v \<in> set (stakers s)")
      case True
      with rows show ?thesis unfolding st map_eq_conv by simp
    next
      case False
      with st show ?thesis by (metis set_stakers word_gt_0)
    qed
  qed
next
  assume eq: "\<forall>v. GetStake s v = GetStake t v"
  then have "stakers s = stakers t" by (intro stakers_cong) (rule spec)
  with eq show "stake_bytes s = stake_bytes t" by (simp add: stake_bytes_stakers)
qed

subsection \<open>Properties\<close>

text \<open>C35: \<open>BurnPending\<close> burns exactly the smaller of the requested amount and the validator's
  pending total, takes exactly that from the queue, keeps the entries of every other validator in
  their order and leaves no empty entry behind.\<close>

theorem BurnPending_exact:
  "case BurnPending uq v amount of (uq', burned) \<Rightarrow>
     unat burned = min (unat amount) (pending_of v (pending uq)) \<and>
     pending_of v (pending uq') + unat burned = pending_of v (pending uq) \<and>
     queue_supply uq' + unat burned = queue_supply uq \<and>
     filter (\<lambda>e. ValidatorHex e \<noteq> v) (pending uq') =
       filter (\<lambda>e. ValidatorHex e \<noteq> v \<and> Amount e > 0) (pending uq) \<and>
     list_all (\<lambda>e. Amount e > 0) (pending uq')"
  using BurnPending_spec [of uq v amount] queue_supply_BurnPending [of uq v amount]
  by (auto simp: list_all_iff split: prod.split)

text \<open>\<open>SweepMature\<close> splits the queue: the entries due at the slot are returned, the others stay,
  both in queue order, and no coin of the queue is lost or made.\<close>

theorem SweepMature_partition:
  "case SweepMature uq slot of (uq', matured) \<Rightarrow>
     pending uq' = filter (\<lambda>e. slot < MatureSlot e) (pending uq) \<and>
     matured = filter (\<lambda>e. MatureSlot e \<le> slot) (pending uq) \<and>
     queue_supply uq' + sum_list (map (\<lambda>e. unat (Amount e)) matured) = queue_supply uq"
  using queue_supply_SweepMature [of uq slot]
  by (auto simp: SweepMature_def sweep_loop_filter not_le)

text \<open>The byte strings hashed by \<^verbatim>\<open>StakeMap.Hash\<close> identify the stakes: two stake maps keyed by
  hexadecimal keys of one length hash the same bytes exactly when every validator has the same stake
  in both (an entry of zero counts as absent).\<close>

theorem stake_digest_canonical:
  assumes "stake_keys n s" and "stake_keys n t"
  shows "stake_bytes s = stake_bytes t \<longleftrightarrow> (\<forall>v. GetStake s v = GetStake t v)"
  by (rule stake_bytes_eq_iff [OF assms])

theorem stake_digest_canonical_witness:
  "stake_bytes (AddStake NewStakeMap (hex [1]) 5) \<noteq> stake_bytes (AddStake NewStakeMap (hex [1]) 6)"
proof -
  have "stake_keys 1 (AddStake NewStakeMap (hex [1]) x)" for x
    by (simp add: stake_keys_def AddStake_def NewStakeMap_def Let_def del: hex.simps)
  from stake_digest_canonical [OF this this, of 5 6] show ?thesis
    by (auto simp: stake_simps dest: spec [of _ "hex [1]"])
qed

end
