(* ===== verification/Transaction.thy ===== *)
theory Transaction
  imports Stake
begin

text \<open>
  \<^verbatim>\<open>internal/blockchain/transaction.go\<close>: transactions, the canonical order of DNS records,
  the byte string that is signed, signing and verifying, and the constructors. A constructor
  takes the clock reading and the values \<^verbatim>\<open>crypto/rand\<close> yields; it returns \<open>None\<close> when every
  value offered was already in the pool, where the Go loop would go on drawing.
\<close>

datatype TransactionType =
    REGISTER | UPDATE | REVOKE | RENEW | LIST | BUY | TRANSFER | DELIST | FUND | COMMIT | REVEAL
  | STAKE | UNSTAKE | EQUIVOCATION_PROOF | UnknownType byte

text \<open>The value of the \<^verbatim>\<open>uint8\<close>; \<open>UnknownType\<close> stands for the values no constant names.\<close>

fun txTypeByte :: "TransactionType \<Rightarrow> byte" where
  "txTypeByte REGISTER = 0" | "txTypeByte UPDATE = 1" | "txTypeByte REVOKE = 2"
| "txTypeByte RENEW = 3" | "txTypeByte LIST = 4" | "txTypeByte BUY = 5"
| "txTypeByte TRANSFER = 6" | "txTypeByte DELIST = 7" | "txTypeByte FUND = 8"
| "txTypeByte COMMIT = 9" | "txTypeByte REVEAL = 10" | "txTypeByte STAKE = 11"
| "txTypeByte UNSTAKE = 12" | "txTypeByte EQUIVOCATION_PROOF = 13"
| "txTypeByte (UnknownType b) = b"

datatype Record = Record (RType: string) (RValue: string) (Priority: int)

text \<open>The comparison of \<^verbatim>\<open>SortRecords\<close>, as the linear order of the type.\<close>

definition record_key :: "Record \<Rightarrow> string \<times> int \<times> string" where
  "record_key r = (RType r, Priority r, RValue r)"

lemma record_key_inject [simp]: "record_key a = record_key b \<longleftrightarrow> a = b"
  by (cases a, cases b) (auto simp: record_key_def)

instantiation Record :: linorder
begin

definition less_eq_Record :: "Record \<Rightarrow> Record \<Rightarrow> bool" where
  "less_eq_Record a b \<longleftrightarrow> record_key a \<le> record_key b"

definition less_Record :: "Record \<Rightarrow> Record \<Rightarrow> bool" where
  "less_Record a b \<longleftrightarrow> record_key a < record_key b"

instance
  by intro_classes
    (auto simp: less_eq_Record_def less_Record_def order.strict_iff_not dest: order.antisym)

end

definition SortRecords :: "Record list \<Rightarrow> Record list" where
  "SortRecords records = sort records"

record Transaction =
  TID :: int
  TxType :: TransactionType
  TxTimestamp :: int64
  DomainName :: string
  Records :: "Record list"
  CacheTTL :: int64
  ExpirySlot :: int64
  RedeemsTxID :: int
  OwnerKey :: slice
  Fee :: uint64
  TxNonce :: uint64
  ListPrice :: uint64
  Recipient :: slice
  TxSignature :: slice
  CommitHash :: bytes
  Salt :: bytes
  StakeAmount :: uint64
  EquivBlockA :: bytes
  EquivBlockB :: bytes

text \<open>The zero value of the struct, which a composite literal starts from.\<close>

definition zero_Transaction :: Transaction where
  "zero_Transaction = \<lparr>TID = 0, TxType = REGISTER, TxTimestamp = 0, DomainName = [], Records = [],
     CacheTTL = 0, ExpirySlot = 0, RedeemsTxID = 0, OwnerKey = None, Fee = 0, TxNonce = 0,
     ListPrice = 0, Recipient = None, TxSignature = None, CommitHash = [], Salt = [],
     StakeAmount = 0, EquivBlockA = [], EquivBlockB = []\<rparr>"

definition record_bytes :: "Record \<Rightarrow> bytes" where
  "record_bytes r = bytes_of_string (RType r) @ bytes_of_string (RValue r) @ IntToByteArr (Priority r)"

definition counted :: "bytes \<Rightarrow> bytes" where
  "counted b = (if length b > 0 then IntToByteArr (int (length b)) @ b else [])"

definition SerializeForSigning :: "Transaction \<Rightarrow> bytes" where
  "SerializeForSigning tx =
     IntToByteArr (TID tx) @ [txTypeByte (TxType tx)]
     @ IntToByteArr (TxTimestamp tx)
     @ bytes_of_string (DomainName tx)
     @ concat (map record_bytes (SortRecords (Records tx)))
     @ IntToByteArr (CacheTTL tx)
     @ IntToByteArr (ExpirySlot tx)
     @ IntToByteArr (RedeemsTxID tx)
     @ sl (OwnerKey tx)
     @ IntToByteArr_w (Fee tx)
     @ IntToByteArr_w (TxNonce tx)
     @ IntToByteArr_w (ListPrice tx)
     @ sl (Recipient tx)
     @ counted (CommitHash tx)
     @ counted (Salt tx)
     @ (if StakeAmount tx > 0 then IntToByteArr_w (StakeAmount tx) else [])
     @ counted (EquivBlockA tx)
     @ counted (EquivBlockB tx)"

text \<open>
  \<^verbatim>\<open>copy(rPadded[32-len(rBytes):], rBytes)\<close>; a longer value makes the slice bound negative.
\<close>

definition pad32 :: "bytes \<Rightarrow> panic + bytes" where
  "pad32 b = (if length b > 32 then Inl IndexOutOfRange else Inr (replicate (32 - length b) 0 @ b))"

definition SignTransaction :: "crypto \<Rightarrow> PrivateKey \<Rightarrow> Transaction \<Rightarrow> panic + bytes" where
  "SignTransaction cr privateKey tx =
     (let hash = sha256 (SerializeForSigning tx) in
      case ecdsa_Sign cr privateKey hash of
        None \<Rightarrow> Inl LogPanic
      | Some (r, s) \<Rightarrow>
          bindR (pad32 (bytes_of_nat r)) (\<lambda>rPadded.
          bindR (pad32 (bytes_of_nat s)) (\<lambda>sPadded. Inr (rPadded @ sPadded))))"

definition VerifySignature :: "crypto \<Rightarrow> bytes \<Rightarrow> Transaction \<Rightarrow> bool" where
  "VerifySignature cr publicKeyBytes tx =
     (case BytesToPublicKey cr publicKeyBytes of
        None \<Rightarrow> False
      | Some publicKey \<Rightarrow>
          (let hash = sha256 (SerializeForSigning tx) in
           if length (sl (TxSignature tx)) \<noteq> 64 then False
           else
             (let r = nat_of_bytes (take 32 (sl (TxSignature tx)));
                  s = nat_of_bytes (drop 32 (sl (TxSignature tx)))
              in ecdsa_Verify cr publicKey hash r s)))"

definition VerifyRegistrySignature :: "crypto \<Rightarrow> bytes list \<Rightarrow> Transaction \<Rightarrow> bool" where
  "VerifyRegistrySignature cr registries tx = list_ex (\<lambda>regKey. VerifySignature cr regKey tx) registries"

definition VerifyTransaction ::
    "crypto \<Rightarrow> bytes list \<Rightarrow> bytes \<Rightarrow> Transaction \<Rightarrow> int64 \<Rightarrow> int64 \<Rightarrow> bool" where
  "VerifyTransaction cr registries publicKeyBytes tx currentSlot slotsPerDay =
     (case TxType tx of
        REGISTER \<Rightarrow>
          if \<not> IsRegistryKey registries (sl (OwnerKey tx)) then False
          else VerifySignature cr (sl (OwnerKey tx)) tx
      | UPDATE \<Rightarrow> VerifySignature cr publicKeyBytes tx
      | REVOKE \<Rightarrow>
          if TxSignature tx = None \<and> OwnerKey tx = None then
            (let purgeSlot = ComputePurgeSlot (ExpirySlot tx) slotsPerDay in purgeSlot \<le> currentSlot)
          else VerifySignature cr publicKeyBytes tx
      | RENEW \<Rightarrow> VerifyRegistrySignature cr registries tx
      | LIST \<Rightarrow> VerifySignature cr publicKeyBytes tx
      | BUY \<Rightarrow> VerifySignature cr publicKeyBytes tx
      | TRANSFER \<Rightarrow> VerifySignature cr publicKeyBytes tx
      | DELIST \<Rightarrow> VerifySignature cr publicKeyBytes tx
      | FUND \<Rightarrow> VerifySignature cr publicKeyBytes tx
      | COMMIT \<Rightarrow>
          if \<not> IsRegistryKey registries (sl (OwnerKey tx)) then False
          else VerifySignature cr (sl (OwnerKey tx)) tx
      | REVEAL \<Rightarrow>
          if \<not> IsRegistryKey registries (sl (OwnerKey tx)) then False
          else VerifySignature cr (sl (OwnerKey tx)) tx
      | STAKE \<Rightarrow> VerifySignature cr (sl (OwnerKey tx)) tx
      | UNSTAKE \<Rightarrow> VerifySignature cr (sl (OwnerKey tx)) tx
      | EQUIVOCATION_PROOF \<Rightarrow> VerifySignature cr (sl (OwnerKey tx)) tx
      | UnknownType b \<Rightarrow> False)"

type_synonym txpool = "(int, Transaction) fmap"

text \<open>Each element of the list is the 64-bit value of the eight bytes one \<^verbatim>\<open>rand.Read\<close> gives.\<close>

fun GenerateRandomTxID :: "uint64 list \<Rightarrow> txpool \<Rightarrow> int option" where
  "GenerateRandomTxID [] txPool = None"
| "GenerateRandomTxID (d # ds) txPool =
     (let txID = int (unat (d mod 1000000000)) in
      if fmlookup txPool txID = None then Some txID else GenerateRandomTxID ds txPool)"

definition RemoveTxsFromPool :: "Transaction list \<Rightarrow> txpool \<Rightarrow> txpool" where
  "RemoveTxsFromPool txs txPool = foldl (\<lambda>p tx. fmdrop (TID tx) p) txPool txs"

subsection \<open>Constructors\<close>

definition signed :: "crypto \<Rightarrow> PrivateKey \<Rightarrow> Transaction \<Rightarrow> panic + Transaction" where
  "signed cr privateKey tx =
     bindR (SignTransaction cr privateKey tx) (\<lambda>sig. Inr (tx\<lparr>TxSignature := Some sig\<rparr>))"

definition year_from :: "int64 \<Rightarrow> int64 \<Rightarrow> int64" where
  "year_from slot slotsPerDay = i64 (slot + i64 (365 * slotsPerDay))"

definition NewTransaction ::
    "crypto \<Rightarrow> int64 \<Rightarrow> uint64 list \<Rightarrow> TransactionType \<Rightarrow> string \<Rightarrow> Record list \<Rightarrow> int64 \<Rightarrow> int64 \<Rightarrow> int64
     \<Rightarrow> int \<Rightarrow> slice \<Rightarrow> PrivateKey \<Rightarrow> txpool \<Rightarrow> uint64 \<Rightarrow> uint64 \<Rightarrow> (panic + Transaction) option" where
  "NewTransaction cr now draws txType domainName records cacheTTL currentSlot slotsPerDay
     redeemsTxID ownerKey privateKey txPool fee nonce =
     map_option (\<lambda>tid.
       let tx = zero_Transaction\<lparr>TID := tid, TxType := txType, TxTimestamp := now,
                  DomainName := domainName, Records := SortRecords records, CacheTTL := cacheTTL,
                  RedeemsTxID := redeemsTxID, OwnerKey := ownerKey, Fee := fee, TxNonce := nonce\<rparr>;
           tx = (if txType = REGISTER
                 then tx\<lparr>ExpirySlot := year_from currentSlot slotsPerDay, RedeemsTxID := 0\<rparr>
                 else tx)
       in signed cr privateKey tx) (GenerateRandomTxID draws txPool)"

definition NewRenewTransaction ::
    "crypto \<Rightarrow> int64 \<Rightarrow> uint64 list \<Rightarrow> string \<Rightarrow> Record list \<Rightarrow> int64 \<Rightarrow> int64 \<Rightarrow> int64
     \<Rightarrow> int \<Rightarrow> slice \<Rightarrow> PrivateKey \<Rightarrow> txpool \<Rightarrow> uint64 \<Rightarrow> uint64 \<Rightarrow> (panic + Transaction) option" where
  "NewRenewTransaction cr now draws domainName records cacheTTL oldExpirySlot slotsPerDay
     redeemsTxID registryKey registryPrivKey txPool fee nonce =
     map_option (\<lambda>tid.
       signed cr registryPrivKey (zero_Transaction\<lparr>TID := tid, TxType := RENEW, TxTimestamp := now,
         DomainName := domainName, Records := SortRecords records, CacheTTL := cacheTTL,
         ExpirySlot := year_from oldExpirySlot slotsPerDay, RedeemsTxID := redeemsTxID,
         OwnerKey := registryKey, Fee := fee, TxNonce := nonce\<rparr>)) (GenerateRandomTxID draws txPool)"

text \<open>The inner \<open>None\<close> is the nil pointer returned for a zero price.\<close>

definition NewListTransaction ::
    "crypto \<Rightarrow> int64 \<Rightarrow> uint64 list \<Rightarrow> string \<Rightarrow> uint64 \<Rightarrow> int \<Rightarrow> slice \<Rightarrow> PrivateKey
     \<Rightarrow> uint64 \<Rightarrow> uint64 \<Rightarrow> txpool \<Rightarrow> (panic + Transaction option) option" where
  "NewListTransaction cr now draws domainName listPrice redeemsTxID ownerKey privateKey fee nonce txPool =
     (if listPrice = 0 then Some (Inr None)
      else map_option (\<lambda>tid.
        bindR (signed cr privateKey (zero_Transaction\<lparr>TID := tid, TxType := LIST, TxTimestamp := now,
          DomainName := domainName, RedeemsTxID := redeemsTxID, OwnerKey := ownerKey, Fee := fee,
          TxNonce := nonce, ListPrice := listPrice\<rparr>)) (\<lambda>tx. Inr (Some tx)))
        (GenerateRandomTxID draws txPool))"

definition NewBuyTransaction ::
    "crypto \<Rightarrow> int64 \<Rightarrow> uint64 list \<Rightarrow> string \<Rightarrow> uint64 \<Rightarrow> int \<Rightarrow> slice \<Rightarrow> PrivateKey
     \<Rightarrow> uint64 \<Rightarrow> uint64 \<Rightarrow> txpool \<Rightarrow> (panic + Transaction) option" where
  "NewBuyTransaction cr now draws domainName maxPrice redeemsTxID buyerKey privateKey fee nonce txPool =
     map_option (\<lambda>tid.
       signed cr privateKey (zero_Transaction\<lparr>TID := tid, TxType := BUY, TxTimestamp := now,
         DomainName := domainName, RedeemsTxID := redeemsTxID, OwnerKey := buyerKey, Fee := fee,
         TxNonce := nonce, ListPrice := maxPrice\<rparr>)) (GenerateRandomTxID draws txPool)"

definition NewTransferTransaction ::
    "crypto \<Rightarrow> int64 \<Rightarrow> uint64 list \<Rightarrow> string \<Rightarrow> slice \<Rightarrow> int \<Rightarrow> slice \<Rightarrow> PrivateKey
     \<Rightarrow> uint64 \<Rightarrow> uint64 \<Rightarrow> txpool \<Rightarrow> (panic + Transaction) option" where
  "NewTransferTransaction cr now draws domainName recipient redeemsTxID ownerKey privateKey fee nonce txPool =
     map_option (\<lambda>tid.
       signed cr privateKey (zero_Transaction\<lparr>TID := tid, TxType := TRANSFER, TxTimestamp := now,
         DomainName := domainName, RedeemsTxID := redeemsTxID, OwnerKey := ownerKey, Fee := fee,
         TxNonce := nonce, Recipient := recipient\<rparr>)) (GenerateRandomTxID draws txPool)"

definition NewDelistTransaction ::
    "crypto \<Rightarrow> int64 \<Rightarrow> uint64 list \<Rightarrow> string \<Rightarrow> int \<Rightarrow> slice \<Rightarrow> PrivateKey
     \<Rightarrow> uint64 \<Rightarrow> uint64 \<Rightarrow> txpool \<Rightarrow> (panic + Transaction) option" where
  "NewDelistTransaction cr now draws domainName redeemsTxID ownerKey privateKey fee nonce txPool =
     map_option (\<lambda>tid.
       signed cr privateKey (zero_Transaction\<lparr>TID := tid, TxType := DELIST, TxTimestamp := now,
         DomainName := domainName, RedeemsTxID := redeemsTxID, OwnerKey := ownerKey, Fee := fee,
         TxNonce := nonce\<rparr>)) (GenerateRandomTxID draws txPool)"

definition NewFundTransaction ::
    "crypto \<Rightarrow> int64 \<Rightarrow> uint64 list \<Rightarrow> slice \<Rightarrow> uint64 \<Rightarrow> slice \<Rightarrow> PrivateKey
     \<Rightarrow> uint64 \<Rightarrow> uint64 \<Rightarrow> txpool \<Rightarrow> (panic + Transaction) option" where
  "NewFundTransaction cr now draws recipient amount senderKey privateKey fee nonce txPool =
     map_option (\<lambda>tid.
       signed cr privateKey (zero_Transaction\<lparr>TID := tid, TxType := FUND, TxTimestamp := now,
         DomainName := [], OwnerKey := senderKey, Fee := fee, TxNonce := nonce,
         ListPrice := amount, Recipient := recipient\<rparr>)) (GenerateRandomTxID draws txPool)"

definition NewStakeTransaction ::
    "crypto \<Rightarrow> int64 \<Rightarrow> uint64 list \<Rightarrow> uint64 \<Rightarrow> slice \<Rightarrow> PrivateKey
     \<Rightarrow> uint64 \<Rightarrow> uint64 \<Rightarrow> txpool \<Rightarrow> (panic + Transaction) option" where
  "NewStakeTransaction cr now draws amount ownerKey privateKey fee nonce txPool =
     map_option (\<lambda>tid.
       signed cr privateKey (zero_Transaction\<lparr>TID := tid, TxType := STAKE, TxTimestamp := now,
         DomainName := [], OwnerKey := ownerKey, Fee := fee, TxNonce := nonce,
         StakeAmount := amount\<rparr>)) (GenerateRandomTxID draws txPool)"

text \<open>The length-prefixed preimage of the blind hash.\<close>

definition commit_preimage :: "string \<Rightarrow> bytes \<Rightarrow> bytes \<Rightarrow> bytes" where
  "commit_preimage domainName salt ownerKey =
     IntToByteArr (int (length domainName)) @ bytes_of_string domainName
     @ IntToByteArr (int (length salt)) @ salt
     @ IntToByteArr (int (length ownerKey)) @ ownerKey"

definition NewCommitTransaction ::
    "crypto \<Rightarrow> int64 \<Rightarrow> uint64 list \<Rightarrow> string \<Rightarrow> bytes \<Rightarrow> slice \<Rightarrow> PrivateKey
     \<Rightarrow> uint64 \<Rightarrow> uint64 \<Rightarrow> txpool \<Rightarrow> (panic + Transaction) option" where
  "NewCommitTransaction cr now draws domainName salt ownerKey privateKey fee nonce txPool =
     map_option (\<lambda>tid.
       signed cr privateKey (zero_Transaction\<lparr>TID := tid, TxType := COMMIT, TxTimestamp := now,
         DomainName := [], CommitHash := sha256 (commit_preimage domainName salt (sl ownerKey)),
         OwnerKey := ownerKey, Fee := fee, TxNonce := nonce\<rparr>)) (GenerateRandomTxID draws txPool)"

definition NewUnstakeTransaction ::
    "crypto \<Rightarrow> int64 \<Rightarrow> uint64 list \<Rightarrow> uint64 \<Rightarrow> slice \<Rightarrow> PrivateKey
     \<Rightarrow> uint64 \<Rightarrow> uint64 \<Rightarrow> txpool \<Rightarrow> (panic + Transaction) option" where
  "NewUnstakeTransaction cr now draws amount ownerKey privateKey fee nonce txPool =
     map_option (\<lambda>tid.
       signed cr privateKey (zero_Transaction\<lparr>TID := tid, TxType := UNSTAKE, TxTimestamp := now,
         DomainName := [], OwnerKey := ownerKey, Fee := fee, TxNonce := nonce,
         StakeAmount := amount\<rparr>)) (GenerateRandomTxID draws txPool)"

definition NewRevealTransaction ::
    "crypto \<Rightarrow> int64 \<Rightarrow> uint64 list \<Rightarrow> string \<Rightarrow> bytes \<Rightarrow> Record list \<Rightarrow> int64 \<Rightarrow> int64 \<Rightarrow> int64
     \<Rightarrow> int \<Rightarrow> slice \<Rightarrow> slice \<Rightarrow> PrivateKey \<Rightarrow> uint64 \<Rightarrow> uint64 \<Rightarrow> txpool \<Rightarrow> (panic + Transaction) option" where
  "NewRevealTransaction cr now draws domainName salt records cacheTTL currentSlot slotsPerDay
     commitTID ownerKey recipient privateKey fee nonce txPool =
     map_option (\<lambda>tid.
       signed cr privateKey (zero_Transaction\<lparr>TID := tid, TxType := REVEAL, TxTimestamp := now,
         DomainName := domainName, Records := SortRecords records, CacheTTL := cacheTTL,
         ExpirySlot := year_from currentSlot slotsPerDay, RedeemsTxID := commitTID, Salt := salt,
         OwnerKey := ownerKey, Recipient := recipient, Fee := fee, TxNonce := nonce\<rparr>))
       (GenerateRandomTxID draws txPool)"

subsection \<open>Signing bytes\<close>

lemma SortRecords_perm: "mset xs = mset ys \<Longrightarrow> SortRecords xs = SortRecords ys"
  unfolding SortRecords_def by (rule sort_eq_of_mset)

lemma SortRecords_SortRecords [simp]: "SortRecords (SortRecords xs) = SortRecords xs"
  by (rule SortRecords_perm) (simp add: SortRecords_def)

lemma SerializeForSigning_signature [simp]:
  "SerializeForSigning (tx\<lparr>TxSignature := s\<rparr>) = SerializeForSigning tx"
  by (simp add: SerializeForSigning_def)

lemma SerializeForSigning_records:
  "mset rs = mset (Records tx) \<Longrightarrow> SerializeForSigning (tx\<lparr>Records := rs\<rparr>) = SerializeForSigning tx"
  using SortRecords_perm [of rs "Records tx"] by (simp add: SerializeForSigning_def)

subsection \<open>Signatures\<close>

lemma nat_of_bytes_zeros: "nat_of_bytes (replicate k 0 @ b) = nat_of_bytes b"
proof -
  have "foldl (\<lambda>n b. 256 * n + unat b) 0 (replicate k (0 :: byte)) = 0" by (induction k) simp_all
  then show ?thesis by (simp add: nat_of_bytes_def)
qed

lemma length_bytes_of_nat: "n < 256 ^ k \<Longrightarrow> length (bytes_of_nat n) \<le> k"
proof (induction n arbitrary: k rule: bytes_of_nat.induct)
  case (1 n)
  show ?case
  proof (cases "n = 0")
    case True
    then show ?thesis using bytes_of_nat.simps [of 0] by simp
  next
    case False
    then obtain j where k: "k = Suc j" using 1(2) by (cases k) auto
    with 1(2) have "n div 256 < 256 ^ j" by (simp add: less_mult_imp_div_less mult.commute)
    with 1(1) False k show ?thesis by (simp add: bytes_of_nat.simps [of n])
  qed
qed

lemma nat_of_bytes_bytes_of_nat: "nat_of_bytes (bytes_of_nat n) = n"
proof (induction n rule: bytes_of_nat.induct)
  case (1 n)
  show ?case
  proof (cases "n = 0")
    case True
    then show ?thesis using bytes_of_nat.simps [of 0] by simp
  next
    case False
    have "unat (of_nat (n mod 256) :: byte) = n mod 256" by (simp add: unat_of_nat)
    with 1 False show ?thesis by (simp add: bytes_of_nat.simps [of n])
  qed
qed

text \<open>A platform whose signing and verification fit together for one key pair.\<close>

definition key_pair_ok :: "crypto \<Rightarrow> PrivateKey \<Rightarrow> bytes \<Rightarrow> bool" where
  "key_pair_ok cr priv pub \<longleftrightarrow>
     (\<exists>pk. ParsePKIXPublicKey cr pub = Some (ECDSAKey pk) \<and>
       (\<forall>h. \<exists>r s. ecdsa_Sign cr priv h = Some (r, s) \<and> r < 256 ^ 32 \<and> s < 256 ^ 32 \<and>
              ecdsa_Verify cr pk h r s))"

lemma pad32_ok:
  assumes "n < 256 ^ 32"
  obtains b where "pad32 (bytes_of_nat n) = Inr b" "length b = 32" "nat_of_bytes b = n"
proof
  have "length (bytes_of_nat n) \<le> 32" using assms by (rule length_bytes_of_nat)
  then show "pad32 (bytes_of_nat n) = Inr (replicate (32 - length (bytes_of_nat n)) 0 @ bytes_of_nat n)"
    "length (replicate (32 - length (bytes_of_nat n)) 0 @ bytes_of_nat n) = 32"
    by (simp_all add: pad32_def)
  show "nat_of_bytes (replicate (32 - length (bytes_of_nat n)) 0 @ bytes_of_nat n) = n"
    by (simp add: nat_of_bytes_zeros nat_of_bytes_bytes_of_nat)
qed

lemma signed_ok:
  assumes "key_pair_ok cr priv pub"
  shows "\<exists>sig. signed cr priv tx = Inr (tx\<lparr>TxSignature := Some sig\<rparr>) \<and> length sig = 64 \<and>
           VerifySignature cr pub (tx\<lparr>TxSignature := Some sig\<rparr>)"
proof -
  let ?h = "sha256 (SerializeForSigning tx)"
  obtain pk r s where pk: "ParsePKIXPublicKey cr pub = Some (ECDSAKey pk)"
    and sgn: "ecdsa_Sign cr priv ?h = Some (r, s)" and rs: "r < 256 ^ 32" "s < 256 ^ 32"
    and ver: "ecdsa_Verify cr pk ?h r s"
    using assms unfolding key_pair_ok_def by blast
  obtain a where a: "pad32 (bytes_of_nat r) = Inr a" "length a = 32" "nat_of_bytes a = r"
    using pad32_ok [OF rs(1)] .
  obtain b where b: "pad32 (bytes_of_nat s) = Inr b" "length b = 32" "nat_of_bytes b = s"
    using pad32_ok [OF rs(2)] .
  have "SignTransaction cr priv tx = Inr (a @ b)"
    using sgn a b by (simp add: SignTransaction_def)
  with a b pk ver show ?thesis
    by (intro exI [of _ "a @ b"]) (simp add: signed_def VerifySignature_def BytesToPublicKey_def)
qed

lemma VerifySignature_length: "VerifySignature cr pub tx \<Longrightarrow> length (sl (TxSignature tx)) = 64"
  by (simp add: VerifySignature_def Let_def split: option.splits if_splits)

lemma VerifySignature_cong:
  "SerializeForSigning tx = SerializeForSigning tx' \<Longrightarrow> TxSignature tx = TxSignature tx' \<Longrightarrow>
   VerifySignature cr pub tx = VerifySignature cr pub tx'"
  by (simp add: VerifySignature_def Let_def split: option.splits)

subsection \<open>The blind hash\<close>

lemma counted_field_inject:
  assumes "IntToByteArr (int (length a)) @ a @ s = IntToByteArr (int (length b)) @ b @ t"
    and "length a < 2 ^ 63" "length b < 2 ^ 63"
  shows "a = b \<and> s = t"
proof -
  have "IntToByteArr (int (length a)) = IntToByteArr (int (length b))" and tl: "a @ s = b @ t"
    using assms(1) by simp_all
  moreover have "is_i64 (int (length a))" "is_i64 (int (length b))"
    using assms(2,3) by (simp_all add: is_i64_def)
  ultimately have "length a = length b" by (simp add: IntToByteArr_inject)
  with tl show ?thesis by simp
qed

lemma bytes_of_string_inject [simp]: "bytes_of_string s = bytes_of_string t \<longleftrightarrow> s = t"
proof -
  have "unat (of_char c :: byte) = of_char c" for c
    using unat_of_nat [where ?'a = 8, of "of_char c"] by (simp add: of_nat_of_char)
  then have "inj (of_char :: char \<Rightarrow> byte)"
    by (intro injI) (metis of_char_eq_iff)
  then show ?thesis by (simp add: bytes_of_string_def inj_map_eq_map)
qed

lemma commit_preimage_inject:
  assumes "commit_preimage n1 s1 k1 = commit_preimage n2 s2 k2"
    and "length n1 < 2 ^ 63" "length n2 < 2 ^ 63" "length s1 < 2 ^ 63" "length s2 < 2 ^ 63"
      "length k1 < 2 ^ 63" "length k2 < 2 ^ 63"
  shows "n1 = n2 \<and> s1 = s2 \<and> k1 = k2"
proof -
  have "bytes_of_string n1 = bytes_of_string n2 \<and>
      IntToByteArr (int (length s1)) @ s1 @ IntToByteArr (int (length k1)) @ k1 =
      IntToByteArr (int (length s2)) @ s2 @ IntToByteArr (int (length k2)) @ k2"
    by (rule counted_field_inject) (use assms in \<open>simp_all add: commit_preimage_def\<close>)
  moreover from this have "s1 = s2 \<and>
      IntToByteArr (int (length k1)) @ k1 @ [] = IntToByteArr (int (length k2)) @ k2 @ []"
    by (intro counted_field_inject) (use assms in simp_all)
  moreover from this have "k1 = k2 \<and> [] = ([] :: bytes)"
    by (intro counted_field_inject) (use assms in simp_all)
  ultimately show ?thesis by simp
qed

subsection \<open>Transaction identifiers\<close>

lemma GenerateRandomTxID_fresh:
  "GenerateRandomTxID ds pool = Some t \<Longrightarrow> fmlookup pool t = None \<and> 0 \<le> t \<and> t < 1000000000"
proof (induction ds)
  case (Cons d ds)
  have "uint (d mod 1000000000) < 1000000000"
    by (simp add: uint_mod)
  with Cons show ?case by (auto simp: Let_def split: if_splits)
qed simp

lemma GenerateRandomTxID_returns:
  "\<exists>d \<in> set ds. fmlookup pool (int (unat (d mod 1000000000))) = None \<Longrightarrow>
   \<exists>t. GenerateRandomTxID ds pool = Some t"
  by (induction ds) (auto simp: Let_def)

lemma lookup_RemoveTxsFromPool:
  "fmlookup (RemoveTxsFromPool txs pool) t = (if t \<in> TID ` set txs then None else fmlookup pool t)"
  unfolding RemoveTxsFromPool_def by (induction txs arbitrary: pool) auto

subsection \<open>Properties\<close>

text \<open>A signature scheme with one fixed signature, for the examples.\<close>

definition sample_crypto :: crypto where
  "sample_crypto = \<lparr>ParsePKIXPublicKey = (\<lambda>b. Some (ECDSAKey \<lparr>pkCurve = ''P-256'', pkX = length b, pkY = 0\<rparr>)),
     ecdsa_Sign = (\<lambda>k h. Some (1, 1)), ecdsa_Verify = (\<lambda>pk h r s. r = 1 \<and> s = 1)\<rparr>"

lemma sample_key_ok: "key_pair_ok sample_crypto k pub"
  by (simp add: key_pair_ok_def sample_crypto_def)

text \<open>C34: \<open>SignTransaction\<close> and \<open>VerifySignature\<close> fit together: with a key pair whose ECDSA signatures
  verify, signing never panics, gives 64 bytes, and the signed transaction verifies, also after its
  records have been put in another order.\<close>

theorem signed_verifies:
  assumes "key_pair_ok cr priv pub"
  shows "\<exists>sig. signed cr priv tx = Inr (tx\<lparr>TxSignature := Some sig\<rparr>) \<and> length sig = 64 \<and>
    (\<forall>rs. mset rs = mset (Records tx) \<longrightarrow> VerifySignature cr pub (tx\<lparr>TxSignature := Some sig, Records := rs\<rparr>))"
proof -
  obtain sig where sig: "signed cr priv tx = Inr (tx\<lparr>TxSignature := Some sig\<rparr>)" "length sig = 64"
    and ok: "VerifySignature cr pub (tx\<lparr>TxSignature := Some sig\<rparr>)"
    using signed_ok [OF assms] by blast
  have "VerifySignature cr pub (tx\<lparr>TxSignature := Some sig, Records := rs\<rparr>)"
    if "mset rs = mset (Records tx)" for rs
    using ok SerializeForSigning_records [of rs "tx\<lparr>TxSignature := Some sig\<rparr>"] that
    by (subst VerifySignature_cong) auto
  with sig show ?thesis by blast
qed

theorem signed_verifies_witness:
  "\<exists>sig. signed sample_crypto 7 zero_Transaction = Inr (zero_Transaction\<lparr>TxSignature := Some sig\<rparr>) \<and>
     VerifySignature sample_crypto [1, 2, 3] (zero_Transaction\<lparr>TxSignature := Some sig, Records := []\<rparr>)"
  using signed_verifies [OF sample_key_ok, of 7 zero_Transaction "[1, 2, 3]"] by (auto simp: zero_Transaction_def)

text \<open>C40: the signed bytes have no boundary between the domain name and the records: moving the end of the name
  to the front of the type of the first record gives another transaction that every signature of the first one
  also covers. The first record is the least one in the canonical order in which the records are signed, before and
  after the move; it may be followed by any other records.\<close>

theorem name_boundary_not_signed:
  assumes "\<forall>r \<in> set rs. Record u v p \<le> r \<and> Record (t @ u) v p \<le> r"
  shows "VerifySignature cr pub (tx\<lparr>DomainName := d @ t, Records := Record u v p # rs\<rparr>) =
   VerifySignature cr pub (tx\<lparr>DomainName := d, Records := Record (t @ u) v p # rs\<rparr>)"
proof -
  have "SortRecords (Record u v p # rs) = Record u v p # sort rs" "SortRecords (Record (t @ u) v p # rs) = Record (t @ u) v p # sort rs"
    using assms by (simp_all add: SortRecords_def insort_is_Cons)
  then show ?thesis
    by (intro VerifySignature_cong) (simp_all add: SerializeForSigning_def record_bytes_def bytes_of_string_def)
qed

theorem name_boundary_not_signed_witness:
  "\<forall>cr pub sig.
     VerifySignature cr pub (zero_Transaction\<lparr>TxSignature := sig, DomainName := ''a.comA'',
       Records := [Record [] ''1.2.3.4'' 0, Record ''TXT'' ''x'' 0]\<rparr>) =
     VerifySignature cr pub (zero_Transaction\<lparr>TxSignature := sig, DomainName := ''a.com'',
       Records := [Record ''A'' ''1.2.3.4'' 0, Record ''TXT'' ''x'' 0]\<rparr>)"
proof (intro allI)
  fix cr pub sig
  have "\<forall>r \<in> set [Record ''TXT'' ''x'' 0]. Record [] ''1.2.3.4'' 0 \<le> r \<and> Record (''A'' @ []) ''1.2.3.4'' 0 \<le> r"
    by (simp add: less_eq_Record_def record_key_def)
  from name_boundary_not_signed [OF this, where cr = cr and pub = pub and tx = "zero_Transaction\<lparr>TxSignature := sig\<rparr>" and d = "''a.com''"]
  show "VerifySignature cr pub (zero_Transaction\<lparr>TxSignature := sig, DomainName := ''a.comA'',
       Records := [Record [] ''1.2.3.4'' 0, Record ''TXT'' ''x'' 0]\<rparr>) =
     VerifySignature cr pub (zero_Transaction\<lparr>TxSignature := sig, DomainName := ''a.com'',
       Records := [Record ''A'' ''1.2.3.4'' 0, Record ''TXT'' ''x'' 0]\<rparr>)" by simp
qed

text \<open>The length-prefixed preimage of a commitment is injective: domain, salt and owner key are
  determined by it, so that two different registrations never share a preimage.\<close>

theorem commit_preimage_unambiguous:
  assumes "length n1 < 2 ^ 63" "length n2 < 2 ^ 63" "length s1 < 2 ^ 63" "length s2 < 2 ^ 63"
    "length k1 < 2 ^ 63" "length k2 < 2 ^ 63"
  shows "commit_preimage n1 s1 k1 = commit_preimage n2 s2 k2 \<longleftrightarrow> n1 = n2 \<and> s1 = s2 \<and> k1 = k2"
  using commit_preimage_inject [OF _ assms] by blast

theorem commit_preimage_unambiguous_witness:
  "commit_preimage ''ab'' [1] [2] \<noteq> commit_preimage ''a'' [98, 1] [2]"
  using commit_preimage_unambiguous [of "''ab''" "''a''" "[1]" "[98, 1]" "[2]" "[2]"] by simp

text \<open>The retry loop of \<open>GenerateRandomTxID\<close> returns the first draw whose identifier is free in
  the pool, within \<open>[0, 10\<^sup>9)\<close>, and goes on only while every draw is taken.\<close>

theorem GenerateRandomTxID_first_free:
  "GenerateRandomTxID draws pool =
     find (\<lambda>t. fmlookup pool t = None) (map (\<lambda>d. int (unat (d mod 1000000000))) draws) \<and>
   pred_option (\<lambda>t. fmlookup pool t = None \<and> 0 \<le> t \<and> t < 1000000000) (GenerateRandomTxID draws pool)"
proof
  show "GenerateRandomTxID draws pool =
      find (\<lambda>t. fmlookup pool t = None) (map (\<lambda>d. int (unat (d mod 1000000000))) draws)"
    by (induction draws) (simp_all add: Let_def)
  show "pred_option (\<lambda>t. fmlookup pool t = None \<and> 0 \<le> t \<and> t < 1000000000) (GenerateRandomTxID draws pool)"
    using GenerateRandomTxID_fresh [of draws pool] by (cases "GenerateRandomTxID draws pool") simp_all
qed

end
