(* ===== verification/Commit.thy ===== *)
theory Commit
  imports Transaction
begin

text \<open>
  \<^verbatim>\<open>internal/blockchain/commit.go\<close>: the store of pending COMMITs and the per-block overlay on a
  snapshot of it. The interface \<^verbatim>\<open>CommitStorer\<close> is the record of the operations the block
  processor calls, with one instance for each of the two types.
\<close>

record CommitRecord =
  cmHash :: bytes
  CommitterPK :: bytes
  CommitBlock :: int64
  CommitSlot :: int64
  CommitTID :: int
  ExpiryBlock :: int64

type_synonym commits = "(string, CommitRecord) fmap"

record CommitStore =
  csPending :: commits

definition NewCommitStore :: CommitStore where
  "NewCommitStore = \<lparr>csPending = fmempty\<rparr>"

definition AddCommit :: "CommitStore \<Rightarrow> CommitRecord \<Rightarrow> CommitStore" where
  "AddCommit cs rec = (let key = hex (cmHash rec) in cs\<lparr>csPending := fmupd key rec (csPending cs)\<rparr>)"

definition GetCommit :: "CommitStore \<Rightarrow> string \<Rightarrow> CommitRecord option" where
  "GetCommit cs commitHashHex = fmlookup (csPending cs) commitHashHex"

definition ConsumeCommit :: "CommitStore \<Rightarrow> string \<Rightarrow> CommitStore" where
  "ConsumeCommit cs commitHashHex = cs\<lparr>csPending := fmdrop commitHashHex (csPending cs)\<rparr>"

definition expired_in :: "int64 \<Rightarrow> commits \<Rightarrow> string \<Rightarrow> bool" where
  "expired_in currentBlockIndex m k =
     (case fmlookup m k of None \<Rightarrow> False | Some rec \<Rightarrow> currentBlockIndex > ExpiryBlock rec)"

definition PurgeExpired :: "CommitStore \<Rightarrow> int64 \<Rightarrow> CommitStore \<times> int" where
  "PurgeExpired cs currentBlockIndex =
     (let dead = filter (expired_in currentBlockIndex (csPending cs)) (sorted_keys (csPending cs))
      in (cs\<lparr>csPending := fold fmdrop dead (csPending cs)\<rparr>, int (length dead)))"

definition commit_record_bytes :: "CommitRecord \<Rightarrow> bytes" where
  "commit_record_bytes rec =
     cmHash rec @ CommitterPK rec @ IntToByteArr (CommitBlock rec) @ IntToByteArr (CommitSlot rec)
     @ IntToByteArr (CommitTID rec) @ IntToByteArr (ExpiryBlock rec)"

definition commits_bytes :: "commits \<Rightarrow> bytes" where
  "commits_bytes m = concat (map (\<lambda>k. commit_record_bytes (the (fmlookup m k))) (sorted_keys m))"

definition CommitStoreDigest :: "CommitStore \<Rightarrow> bytes" where
  "CommitStoreDigest cs = sha256 (commits_bytes (csPending cs))"

definition CloneCommits :: "CommitStore \<Rightarrow> CommitStore" where
  "CloneCommits cs =
     \<lparr>csPending = fmmap (\<lambda>rec. rec\<lparr>cmHash := [] @ cmHash rec, CommitterPK := [] @ CommitterPK rec\<rparr>)
        (csPending cs)\<rparr>"

definition ExportPending :: "CommitStore \<Rightarrow> commits" where
  "ExportPending cs = fmmap (\<lambda>v. v) (csPending cs)"

record CommitOverlay =
  coBase :: commits
  coAdded :: commits
  coConsumed :: "string fset"
  coPurged :: "string fset"
  coBlockIndex :: int64

definition NewCommitOverlay :: "commits \<Rightarrow> int64 \<Rightarrow> CommitOverlay" where
  "NewCommitOverlay base blockIndex =
     \<lparr>coBase = base, coAdded = fmempty, coConsumed = {||}, coPurged = {||}, coBlockIndex = blockIndex\<rparr>"

definition AddCommitO :: "CommitOverlay \<Rightarrow> CommitRecord \<Rightarrow> CommitOverlay" where
  "AddCommitO co rec = (let key = hex (cmHash rec) in co\<lparr>coAdded := fmupd key rec (coAdded co)\<rparr>)"

definition GetCommitO :: "CommitOverlay \<Rightarrow> string \<Rightarrow> CommitRecord option" where
  "GetCommitO co commitHashHex =
     (if commitHashHex |\<in>| coConsumed co \<or> commitHashHex |\<in>| coPurged co then None
      else case fmlookup (coAdded co) commitHashHex of
        Some rec \<Rightarrow> Some rec
      | None \<Rightarrow>
          (case fmlookup (coBase co) commitHashHex of
             Some rec \<Rightarrow> if coBlockIndex co > ExpiryBlock rec then None else Some rec
           | None \<Rightarrow> None))"

definition ConsumeCommitO :: "CommitOverlay \<Rightarrow> string \<Rightarrow> CommitOverlay" where
  "ConsumeCommitO co commitHashHex =
     co\<lparr>coConsumed := finsert commitHashHex (coConsumed co), coAdded := fmdrop commitHashHex (coAdded co)\<rparr>"

definition PurgeExpiredO :: "CommitOverlay \<Rightarrow> int64 \<Rightarrow> CommitOverlay \<times> int" where
  "PurgeExpiredO co currentBlockIndex =
     (let deadBase = filter (\<lambda>k. k |\<notin>| coConsumed co \<and> expired_in currentBlockIndex (coBase co) k)
                       (sorted_keys (coBase co));
          deadAdded = filter (expired_in currentBlockIndex (coAdded co)) (sorted_keys (coAdded co))
      in (co\<lparr>coPurged := coPurged co |\<union>| fset_of_list deadBase,
             coAdded := fold fmdrop deadAdded (coAdded co)\<rparr>,
          int (length deadBase + length deadAdded)))"

text \<open>The merged view that is hashed: the surviving snapshot, then the additions.\<close>

definition merged :: "CommitOverlay \<Rightarrow> commits" where
  "merged co =
     fmfilter (\<lambda>k. \<not> k |\<in>| coConsumed co \<and> \<not> k |\<in>| coPurged co) (coBase co) ++\<^sub>f coAdded co"

definition CommitOverlayDigest :: "CommitOverlay \<Rightarrow> bytes" where
  "CommitOverlayDigest co = sha256 (commits_bytes (merged co))"

definition CommitO :: "CommitOverlay \<Rightarrow> CommitStore \<Rightarrow> CommitStore" where
  "CommitO co target =
     target\<lparr>csPending :=
       fmdrop_fset (coPurged co) (fmdrop_fset (coConsumed co) (csPending target ++\<^sub>f coAdded co))\<rparr>"

record 'c CommitStorer =
  csAddCommit :: "'c \<Rightarrow> CommitRecord \<Rightarrow> 'c"
  csGetCommit :: "'c \<Rightarrow> string \<Rightarrow> CommitRecord option"
  csConsumeCommit :: "'c \<Rightarrow> string \<Rightarrow> 'c"
  csPurgeExpired :: "'c \<Rightarrow> int64 \<Rightarrow> 'c \<times> int"
  csHash :: "'c \<Rightarrow> bytes"

definition CommitStoreOps :: "CommitStore CommitStorer" where
  "CommitStoreOps = \<lparr>csAddCommit = AddCommit, csGetCommit = GetCommit, csConsumeCommit = ConsumeCommit,
     csPurgeExpired = PurgeExpired, csHash = CommitStoreDigest\<rparr>"

definition CommitOverlayOps :: "CommitOverlay CommitStorer" where
  "CommitOverlayOps = \<lparr>csAddCommit = AddCommitO, csGetCommit = GetCommitO,
     csConsumeCommit = ConsumeCommitO, csPurgeExpired = PurgeExpiredO, csHash = CommitOverlayDigest\<rparr>"

lemmas CommitOps_simps [simp] =
  CommitStorer.select_convs CommitStoreOps_def CommitOverlayOps_def

subsection \<open>The store\<close>

lemma lookup_fold_fmdrop: "fmlookup (fold fmdrop ks m) k = (if k \<in> set ks then None else fmlookup m k)"
  by (induction ks arbitrary: m) auto

lemma expired_in_dom: "expired_in n m k \<Longrightarrow> k |\<in>| fmdom m"
  by (auto simp: expired_in_def fmdomI split: option.splits)

lemma lookup_drop_expired:
  "fmlookup (fold fmdrop (filter (expired_in n m) (sorted_keys m)) m) k =
   (if expired_in n m k then None else fmlookup m k)"
  using expired_in_dom [of n m k] by (auto simp: lookup_fold_fmdrop)

lemma GetCommit_New [commit_simps]: "GetCommit NewCommitStore k = None"
  by (simp add: GetCommit_def NewCommitStore_def)

lemma GetCommit_AddCommit [commit_simps]:
  "GetCommit (AddCommit cs r) k = (if k = hex (cmHash r) then Some r else GetCommit cs k)"
  by (simp add: GetCommit_def AddCommit_def)

lemma GetCommit_ConsumeCommit [commit_simps]:
  "GetCommit (ConsumeCommit cs j) k = (if k = j then None else GetCommit cs k)"
  by (simp add: GetCommit_def ConsumeCommit_def)

lemma GetCommit_PurgeExpired [commit_simps]:
  "GetCommit (fst (PurgeExpired cs n)) k =
   (case GetCommit cs k of None \<Rightarrow> None | Some r \<Rightarrow> if n > ExpiryBlock r then None else Some r)"
  by (simp add: GetCommit_def PurgeExpired_def Let_def lookup_drop_expired expired_in_def
      split: option.splits)

lemma CloneCommits_id [simp]: "CloneCommits cs = cs"
  by (cases cs) (simp add: CloneCommits_def fmap.map_ident)

lemma ExportPending_id [simp]: "ExportPending cs = csPending cs"
  by (simp add: ExportPending_def fmap.map_ident)

text \<open>
  The contract of the interface: a commit that is added is found until it is consumed. The
  predicate \<open>fresh\<close> says when a key may be added again.
\<close>

locale commit_storer =
  fixes add :: "'c \<Rightarrow> CommitRecord \<Rightarrow> 'c"
    and get :: "'c \<Rightarrow> string \<Rightarrow> CommitRecord option"
    and consume :: "'c \<Rightarrow> string \<Rightarrow> 'c"
    and fresh :: "'c \<Rightarrow> string \<Rightarrow> bool"
  assumes get_add: "fresh c (hex (cmHash r)) \<Longrightarrow>
      get (add c r) k = (if k = hex (cmHash r) then Some r else get c k)"
    and get_consume: "get (consume c j) k = (if k = j then None else get c k)"
    and fresh_add: "fresh (add c r) k = fresh c k"
    and fresh_consume: "k \<noteq> j \<Longrightarrow> fresh (consume c j) k = fresh c k"
begin

lemma reveal_once: "get (consume c k) k = None"
  by (simp add: get_consume)

lemma commit_then_reveal:
  "fresh c (hex (cmHash r)) \<Longrightarrow>
   get (add c r) (hex (cmHash r)) = Some r \<and> get (consume (add c r) (hex (cmHash r))) (hex (cmHash r)) = None"
  by (simp add: get_add get_consume)

lemma adds_found:
  "(\<forall>r \<in> set rs. fresh c (hex (cmHash r))) \<Longrightarrow> distinct (map cmHash rs) \<Longrightarrow> r \<in> set rs \<Longrightarrow>
   get (foldl add c rs) (hex (cmHash r)) = Some r"
proof (induction rs rule: rev_induct)
  case (snoc x rs)
  have keep: "fresh (foldl add c xs) k = fresh c k" for xs k
    by (induction xs rule: rev_induct) (simp_all add: fresh_add)
  show ?case
  proof (cases "r = x")
    case True
    with snoc.prems(1) show ?thesis by (simp add: get_add keep)
  next
    case False
    with snoc.prems have "r \<in> set rs" "cmHash r \<noteq> cmHash x" by (auto simp: image_iff)
    with snoc show ?thesis by (simp add: get_add keep)
  qed
qed simp

end

interpretation css: commit_storer AddCommit GetCommit ConsumeCommit "\<lambda>_ _. True"
  by unfold_locales (simp_all add: commit_simps)

definition overlay_fresh :: "CommitOverlay \<Rightarrow> string \<Rightarrow> bool" where
  "overlay_fresh co k \<longleftrightarrow> k |\<notin>| coConsumed co \<and> k |\<notin>| coPurged co"

lemma GetCommitO_ConsumeCommitO [commit_simps]:
  "GetCommitO (ConsumeCommitO co j) k = (if k = j then None else GetCommitO co k)"
  by (simp add: GetCommitO_def ConsumeCommitO_def split: option.splits)

interpretation cos: commit_storer AddCommitO GetCommitO ConsumeCommitO overlay_fresh
  by unfold_locales
    (auto simp: overlay_fresh_def AddCommitO_def GetCommitO_def ConsumeCommitO_def split: option.splits)

subsection \<open>The overlay refines the store\<close>

text \<open>
  The abstract state of an overlay is its merged view. Under \<open>co_inv\<close> the view follows the
  store's operations, and committing the overlay installs the view.
\<close>

definition co_inv :: "CommitOverlay \<Rightarrow> bool" where
  "co_inv co \<longleftrightarrow> (\<forall>k. k |\<in>| fmdom (coAdded co) \<longrightarrow>
     k |\<notin>| coConsumed co \<and> k |\<notin>| coPurged co \<and> k |\<notin>| fmdom (coBase co))"

definition co_abs :: "CommitOverlay \<Rightarrow> CommitStore" where
  "co_abs co = \<lparr>csPending = merged co\<rparr>"

lemma lookup_merged:
  "fmlookup (merged co) k =
   (case fmlookup (coAdded co) k of Some r \<Rightarrow> Some r
    | None \<Rightarrow> if k |\<in>| coConsumed co \<or> k |\<in>| coPurged co then None else fmlookup (coBase co) k)"
  by (cases "fmlookup (coAdded co) k") (simp_all add: merged_def fmdom_notI fmdomI)

lemma co_inv_New: "co_inv (NewCommitOverlay base n)"
  by (simp add: co_inv_def NewCommitOverlay_def)

lemma co_abs_New: "co_abs (NewCommitOverlay (csPending cs) n) = cs"
  by (cases cs) (simp add: co_abs_def merged_def NewCommitOverlay_def)

lemma co_inv_AddCommitO:
  "co_inv co \<Longrightarrow> overlay_fresh co (hex (cmHash r)) \<Longrightarrow> hex (cmHash r) |\<notin>| fmdom (coBase co) \<Longrightarrow>
   co_inv (AddCommitO co r)"
  by (auto simp: co_inv_def AddCommitO_def overlay_fresh_def)

lemma co_inv_ConsumeCommitO: "co_inv co \<Longrightarrow> co_inv (ConsumeCommitO co k)"
  by (auto simp: co_inv_def ConsumeCommitO_def)

lemma PurgeExpiredO_fields:
  "coBase (fst (PurgeExpiredO co n)) = coBase co"
  "coConsumed (fst (PurgeExpiredO co n)) = coConsumed co"
  "coBlockIndex (fst (PurgeExpiredO co n)) = coBlockIndex co"
  "k |\<in>| coPurged (fst (PurgeExpiredO co n)) \<longleftrightarrow>
     k |\<in>| coPurged co \<or> k |\<notin>| coConsumed co \<and> expired_in n (coBase co) k"
  "fmlookup (coAdded (fst (PurgeExpiredO co n))) k =
     (if expired_in n (coAdded co) k then None else fmlookup (coAdded co) k)"
  using expired_in_dom [of n "coBase co" k]
  by (auto simp: PurgeExpiredO_def Let_def fset_of_list.rep_eq lookup_drop_expired)

lemma co_inv_PurgeExpiredO:
  assumes "co_inv co"
  shows "co_inv (fst (PurgeExpiredO co n))"
  unfolding co_inv_def
proof (intro allI impI)
  fix k
  assume "k |\<in>| fmdom (coAdded (fst (PurgeExpiredO co n)))"
  then have "k |\<in>| fmdom (coAdded co)"
    by (auto simp: fmlookup_dom_iff PurgeExpiredO_fields split: if_splits)
  with assms show "k |\<notin>| coConsumed (fst (PurgeExpiredO co n)) \<and>
      k |\<notin>| coPurged (fst (PurgeExpiredO co n)) \<and> k |\<notin>| fmdom (coBase (fst (PurgeExpiredO co n)))"
    using expired_in_dom [of n "coBase co" k] by (auto simp: co_inv_def PurgeExpiredO_fields)
qed

lemma co_abs_AddCommitO: "co_abs (AddCommitO co r) = AddCommit (co_abs co) r"
  by (auto simp: co_abs_def AddCommit_def AddCommitO_def lookup_merged intro!: fmap_ext
      split: option.splits)

lemma co_abs_ConsumeCommitO: "co_abs (ConsumeCommitO co k) = ConsumeCommit (co_abs co) k"
  by (auto simp: co_abs_def ConsumeCommit_def ConsumeCommitO_def lookup_merged intro!: fmap_ext
      split: option.splits)

lemma co_abs_PurgeExpiredO:
  assumes inv: "co_inv co"
  shows "co_abs (fst (PurgeExpiredO co n)) = fst (PurgeExpired (co_abs co) n)"
proof -
  have "fmlookup (merged (fst (PurgeExpiredO co n))) k =
      (if expired_in n (merged co) k then None else fmlookup (merged co) k)" for k
  proof (cases "fmlookup (coAdded co) k")
    case None
    then show ?thesis
      by (simp add: lookup_merged PurgeExpiredO_fields expired_in_def split: option.splits)
  next
    case (Some r)
    then have "k |\<notin>| coConsumed co" "k |\<notin>| coPurged co" "fmlookup (coBase co) k = None"
      using inv by (auto simp: co_inv_def fmdomI fmdom_notD)
    with Some show ?thesis
      by (simp add: lookup_merged PurgeExpiredO_fields expired_in_def)
  qed
  then have "merged (fst (PurgeExpiredO co n)) =
      fold fmdrop (filter (expired_in n (merged co)) (sorted_keys (merged co))) (merged co)"
    by (intro fmap_ext) (simp only: lookup_drop_expired)
  then show ?thesis by (simp add: co_abs_def PurgeExpired_def Let_def)
qed

lemma GetCommitO_abs:
  assumes "co_inv co" and "\<And>r. fmlookup (coBase co) k = Some r \<Longrightarrow> coBlockIndex co \<le> ExpiryBlock r"
  shows "GetCommitO co k = GetCommit (co_abs co) k"
proof (cases "fmlookup (coAdded co) k")
  case None
  with assms(2) show ?thesis
    by (force simp: GetCommitO_def GetCommit_def co_abs_def lookup_merged split: option.splits)
next
  case (Some r)
  with assms(1) have "k |\<notin>| coConsumed co" "k |\<notin>| coPurged co" by (auto simp: co_inv_def fmdomI)
  with Some show ?thesis by (simp add: GetCommitO_def GetCommit_def co_abs_def lookup_merged)
qed

lemma CommitO_installs:
  assumes "co_inv co" and "csPending target = coBase co"
  shows "CommitO co target = co_abs co"
proof -
  have "csPending (CommitO co target) = merged co"
  proof (rule fmap_ext)
    fix k
    show "fmlookup (csPending (CommitO co target)) k = fmlookup (merged co) k"
    proof (cases "fmlookup (coAdded co) k")
      case None
      with assms(2) show ?thesis by (simp add: CommitO_def lookup_merged fmdom_notI)
    next
      case (Some r)
      with assms(1) have "k |\<notin>| coConsumed co" "k |\<notin>| coPurged co" "k |\<in>| fmdom (coAdded co)"
        by (auto simp: co_inv_def fmdomI)
      with Some show ?thesis by (simp add: CommitO_def lookup_merged)
    qed
  qed
  then show ?thesis by (cases "CommitO co target") (simp add: co_abs_def)
qed

lemma CommitOverlayDigest_abs: "CommitOverlayDigest co = CommitStoreDigest (co_abs co)"
  by (simp add: CommitOverlayDigest_def CommitStoreDigest_def co_abs_def)

subsection \<open>Properties\<close>

text \<open>The commit operations of one block, on the overlay and on the store.\<close>

datatype commit_op = OpAdd CommitRecord | OpConsume string

fun run_overlay :: "commit_op list \<Rightarrow> CommitOverlay \<Rightarrow> CommitOverlay" where
  "run_overlay [] co = co"
| "run_overlay (OpAdd r # ops) co = run_overlay ops (AddCommitO co r)"
| "run_overlay (OpConsume k # ops) co = run_overlay ops (ConsumeCommitO co k)"

fun run_store :: "commit_op list \<Rightarrow> CommitStore \<Rightarrow> CommitStore" where
  "run_store [] cs = cs"
| "run_store (OpAdd r # ops) cs = run_store ops (AddCommit cs r)"
| "run_store (OpConsume k # ops) cs = run_store ops (ConsumeCommit cs k)"

text \<open>No hash is added that the block has already seen: stored before it, or consumed in it.\<close>

fun adds_new :: "string set \<Rightarrow> commit_op list \<Rightarrow> bool" where
  "adds_new seen [] = True"
| "adds_new seen (OpAdd r # ops) = (hex (cmHash r) \<notin> seen \<and> adds_new seen ops)"
| "adds_new seen (OpConsume k # ops) = adds_new (insert k seen) ops"

lemma adds_new_mono: "adds_new t ops \<Longrightarrow> s \<subseteq> t \<Longrightarrow> adds_new s ops"
  by (induction t ops arbitrary: s rule: adds_new.induct) (auto, blast)

lemma run_overlay_abs:
  assumes "co_inv co" "adds_new (fset (fmdom (coBase co)) \<union> fset (coConsumed co) \<union> fset (coPurged co)) ops"
  shows "co_inv (run_overlay ops co) \<and> co_abs (run_overlay ops co) = run_store ops (co_abs co) \<and>
    coBase (run_overlay ops co) = coBase co"
  using assms
proof (induction ops co rule: run_overlay.induct)
  case (2 r ops co)
  then have fresh: "overlay_fresh co (hex (cmHash r))" "hex (cmHash r) |\<notin>| fmdom (coBase co)"
    by (auto simp: overlay_fresh_def)
  have "co_inv (AddCommitO co r)" using 2(2) fresh by (rule co_inv_AddCommitO)
  with 2 show ?case by (simp add: co_abs_AddCommitO) (simp add: AddCommitO_def)
next
  case (3 k ops co)
  have "co_inv (ConsumeCommitO co k)" using 3(2) by (rule co_inv_ConsumeCommitO)
  moreover have "adds_new (fset (fmdom (coBase (ConsumeCommitO co k))) \<union> fset (coConsumed (ConsumeCommitO co k))
      \<union> fset (coPurged (ConsumeCommitO co k))) ops"
    using 3(3) by (auto simp: ConsumeCommitO_def elim: adds_new_mono)
  ultimately show ?case using 3(1) by (simp add: co_abs_ConsumeCommitO) (simp add: ConsumeCommitO_def)
qed simp

text \<open>The commit overlay of a block refines the commit store: purging, adding and consuming on an
  overlay of the exported records and then calling \<open>Commit\<close> leaves exactly the store that the same
  operations on the store itself give, and the overlay's digest is that store's digest, provided the
  block adds no hash it has already seen.\<close>

theorem commit_overlay_refines:
  fixes n :: int64
  assumes "adds_new (fset (fmdom (csPending cs))) ops"
  defines "co \<equiv> run_overlay ops (fst (PurgeExpiredO (NewCommitOverlay (ExportPending cs) n) n))"
    and "cs' \<equiv> run_store ops (fst (PurgeExpired cs n))"
  shows "CommitO co cs = cs' \<and> CommitOverlayDigest co = CommitStoreDigest cs'"
proof -
  define co0 where "co0 = fst (PurgeExpiredO (NewCommitOverlay (csPending cs) n) n)"
  have inv: "co_inv co0" unfolding co0_def by (intro co_inv_PurgeExpiredO co_inv_New)
  have abs: "co_abs co0 = fst (PurgeExpired cs n)"
    unfolding co0_def by (simp add: co_abs_PurgeExpiredO co_inv_New co_abs_New)
  have base: "coBase co0 = csPending cs" "coConsumed co0 = {||}"
    unfolding co0_def by (simp_all add: PurgeExpiredO_fields NewCommitOverlay_def)
  have "k |\<in>| fmdom (csPending cs)" if "k |\<in>| coPurged co0" for k
    using that unfolding co0_def by (auto simp: PurgeExpiredO_fields NewCommitOverlay_def dest: expired_in_dom)
  then have "adds_new (fset (fmdom (coBase co0)) \<union> fset (coConsumed co0) \<union> fset (coPurged co0)) ops"
    using assms(1) by (auto simp: base elim!: adds_new_mono)
  from run_overlay_abs [OF inv this] show ?thesis
    by (simp add: co_def cs'_def CommitO_installs CommitOverlayDigest_abs base abs flip: co0_def)
qed

theorem commit_overlay_refines_witness:
  "let r = \<lparr>cmHash = [7], CommitterPK = [2], CommitBlock = 1, CommitSlot = 1, CommitTID = 5, ExpiryBlock = 101\<rparr>;
       co = run_overlay [OpAdd r] (fst (PurgeExpiredO (NewCommitOverlay (ExportPending NewCommitStore) 1) 1))
   in GetCommit (CommitO co NewCommitStore) (hex [7]) = Some r"
  using commit_overlay_refines [of NewCommitStore
      "[OpAdd \<lparr>cmHash = [7], CommitterPK = [2], CommitBlock = 1, CommitSlot = 1, CommitTID = 5, ExpiryBlock = 101\<rparr>]" 1]
  by (simp add: Let_def commit_simps NewCommitStore_def del: hex.simps)

end
