(* ===== verification/AVL.thy ===== *)
theory AVL
  imports Commit
begin

text \<open>
  \<^verbatim>\<open>internal/index/avl.go\<close>: the height-balanced search tree of the domain index. A node
  pointer is a tree, nil is \<open>Nil\<close>. Dereferencing a nil child in a rotation is the panic value; it
  is shown not to happen on trees the operations build.
\<close>

record DomainMetadata =
  mdListPrice :: uint64
  mdOwnerKey :: slice

definition zero_DomainMetadata :: DomainMetadata where
  "zero_DomainMetadata = \<lparr>mdListPrice = 0, mdOwnerKey = None\<rparr>"

datatype AVLNode =
    Nil
  | Node (nkey: string) (nvalue: Transaction) (nmetadata: DomainMetadata) (nheight: int)
      (nleft: AVLNode) (nright: AVLNode)

record AVLTree =
  root :: AVLNode

fun getHeight :: "AVLNode \<Rightarrow> int" where
  "getHeight Nil = 0"
| "getHeight (Node k v m h l r) = h"

text \<open>The node with these fields after \<^verbatim>\<open>recalculateHeight\<close>.\<close>

definition recalculateHeight ::
    "string \<Rightarrow> Transaction \<Rightarrow> DomainMetadata \<Rightarrow> AVLNode \<Rightarrow> AVLNode \<Rightarrow> AVLNode" where
  "recalculateHeight k v m l r = Node k v m (1 + max (getHeight l) (getHeight r)) l r"

fun rotateLeft :: "AVLNode \<Rightarrow> panic + AVLNode" where
  "rotateLeft (Node k v m h l (Node rk rv rm rh rl rr)) =
     Inr (recalculateHeight rk rv rm (recalculateHeight k v m l rl) rr)"
| "rotateLeft _ = Inl NilDereference"

fun rotateRight :: "AVLNode \<Rightarrow> panic + AVLNode" where
  "rotateRight (Node k v m h (Node lk lv lm lh ll lr) r) =
     Inr (recalculateHeight lk lv lm ll (recalculateHeight k v m lr r))"
| "rotateRight _ = Inl NilDereference"

fun rebalanceTree :: "AVLNode \<Rightarrow> panic + AVLNode" where
  "rebalanceTree Nil = Inr Nil"
| "rebalanceTree (Node k v m h l r) =
     (let h' = 1 + max (getHeight l) (getHeight r);
          balanceFactor = getHeight l - getHeight r
      in
      if balanceFactor = -2 then
        (case r of
           Nil \<Rightarrow> Inl NilDereference
         | Node rk rv rm rh rl rr \<Rightarrow>
             bindR (if getHeight rl > getHeight rr then rotateRight r else Inr r)
               (\<lambda>r'. rotateLeft (Node k v m h' l r')))
      else if balanceFactor = 2 then
        (case l of
           Nil \<Rightarrow> Inl NilDereference
         | Node lk lv lm lh ll lr \<Rightarrow>
             bindR (if getHeight lr > getHeight ll then rotateLeft l else Inr l)
               (\<lambda>l'. rotateRight (Node k v m h' l' r)))
      else Inr (Node k v m h' l r))"

fun add :: "AVLNode \<Rightarrow> string \<Rightarrow> Transaction \<Rightarrow> panic + AVLNode" where
  "add Nil key value = Inr (Node key value zero_DomainMetadata 1 Nil Nil)"
| "add (Node k v m h l r) key value =
     bindR
       (if key < k then bindR (add l key value) (\<lambda>l'. Inr (Node k v m h l' r))
        else if key > k then bindR (add r key value) (\<lambda>r'. Inr (Node k v m h l r'))
        else Inr (Node k value m h l r))
       rebalanceTree"

fun findSmallest :: "AVLNode \<Rightarrow> panic + string \<times> Transaction \<times> DomainMetadata" where
  "findSmallest Nil = Inl NilDereference"
| "findSmallest (Node k v m h l r) = (if l \<noteq> Nil then findSmallest l else Inr (k, v, m))"

fun remove :: "AVLNode \<Rightarrow> string \<Rightarrow> panic + AVLNode" where
  "remove Nil key = Inr Nil"
| "remove (Node k v m h l r) key =
     (if key < k then
        bindR (remove l key) (\<lambda>l'. rebalanceTree (Node k v m h l' r))
      else if key > k then
        bindR (remove r key) (\<lambda>r'. rebalanceTree (Node k v m h l r'))
      else if l \<noteq> Nil \<and> r \<noteq> Nil then
        bindR (findSmallest r) (\<lambda>(mk, mv, mm).
        bindR (remove r mk) (\<lambda>r'. rebalanceTree (Node mk mv mm h l r')))
      else if l \<noteq> Nil then rebalanceTree l
      else if r \<noteq> Nil then rebalanceTree r
      else Inr Nil)"

fun search :: "AVLNode \<Rightarrow> string \<Rightarrow> AVLNode" where
  "search Nil key = Nil"
| "search (Node k v m h l r) key =
     (if key < k then search l key else if key > k then search r key else Node k v m h l r)"

text \<open>The effect of writing through the node pointer \<^verbatim>\<open>search\<close> returns.\<close>

fun set_metadata :: "(DomainMetadata \<Rightarrow> DomainMetadata) \<Rightarrow> AVLNode \<Rightarrow> string \<Rightarrow> AVLNode" where
  "set_metadata f Nil key = Nil"
| "set_metadata f (Node k v m h l r) key =
     (if key < k then Node k v m h (set_metadata f l key) r
      else if key > k then Node k v m h l (set_metadata f r key)
      else Node k v (f m) h l r)"

fun displayNodesInOrder :: "AVLNode \<Rightarrow> panic + string" where
  "displayNodesInOrder Nil = Inl NilDereference"
| "displayNodesInOrder (Node k v m h l r) =
     bindR (if l \<noteq> Nil then displayNodesInOrder l else Inr []) (\<lambda>a.
     bindR (if r \<noteq> Nil then displayNodesInOrder r else Inr []) (\<lambda>b.
     Inr (a @ k @ '' '' @ b)))"

record DomainRecord =
  drDomain :: string
  drRecords :: "Record list"
  drExpirySlot :: int64
  drListPrice :: uint64
  drOwnerKey :: slice

fun inOrderTraversal :: "AVLNode \<Rightarrow> DomainRecord list \<Rightarrow> DomainRecord list" where
  "inOrderTraversal Nil records = records"
| "inOrderTraversal (Node k v m h l r) records =
     (let records = inOrderTraversal l records;
          records = records @ [\<lparr>drDomain = DomainName v, drRecords = Records v,
                       drExpirySlot = ExpirySlot v, drListPrice = mdListPrice m,
                       drOwnerKey = mdOwnerKey m\<rparr>]
      in inOrderTraversal r records)"

fun findNodeByTxID :: "AVLNode \<Rightarrow> int \<Rightarrow> AVLNode" where
  "findNodeByTxID Nil txID = Nil"
| "findNodeByTxID (Node k v m h l r) txID =
     (if TID v = txID then Node k v m h l r
      else let found = findNodeByTxID l txID in
        if found \<noteq> Nil then found else findNodeByTxID r txID)"

definition avlAdd :: "AVLTree \<Rightarrow> string \<Rightarrow> Transaction \<Rightarrow> panic + AVLTree" where
  "avlAdd t key value = bindR (add (root t) key value) (\<lambda>n. Inr (t\<lparr>root := n\<rparr>))"

definition avlRemove :: "AVLTree \<Rightarrow> string \<Rightarrow> panic + AVLTree" where
  "avlRemove t key = bindR (remove (root t) key) (\<lambda>n. Inr (t\<lparr>root := n\<rparr>))"

definition avlUpdate :: "AVLTree \<Rightarrow> string \<Rightarrow> Transaction \<Rightarrow> panic + AVLTree" where
  "avlUpdate t key newValue = bindR (avlRemove t key) (\<lambda>t'. avlAdd t' key newValue)"

definition avlSearch :: "AVLTree \<Rightarrow> string \<Rightarrow> AVLNode" where
  "avlSearch t key = search (root t) key"

definition GetAllRecords :: "AVLTree \<Rightarrow> DomainRecord list" where
  "GetAllRecords t = inOrderTraversal (root t) []"

definition FindNodeByTxID :: "AVLTree \<Rightarrow> int \<Rightarrow> AVLNode" where
  "FindNodeByTxID t txID = findNodeByTxID (root t) txID"

subsection \<open>Balance\<close>

fun avl :: "AVLNode \<Rightarrow> bool" where
  "avl Nil = True"
| "avl (Node k v m h l r) \<longleftrightarrow>
     avl l \<and> avl r \<and> h = 1 + max (getHeight l) (getHeight r) \<and>
     \<bar>getHeight l - getHeight r\<bar> \<le> 1"

fun inorder :: "AVLNode \<Rightarrow> (string \<times> Transaction \<times> DomainMetadata) list" where
  "inorder Nil = []"
| "inorder (Node k v m h l r) = inorder l @ (k, v, m) # inorder r"

lemma getHeight_nonneg: "avl t \<Longrightarrow> 0 \<le> getHeight t"
  by (induction t) auto

lemma getHeight_0_iff: "avl t \<Longrightarrow> getHeight t = 0 \<longleftrightarrow> t = Nil"
  by (cases t) (auto dest!: getHeight_nonneg)

lemma rebalance_avl:
  assumes "avl l" "avl r" "\<bar>getHeight l - getHeight r\<bar> \<le> 2"
  obtains t where "rebalanceTree (Node k v m h l r) = Inr t" "avl t"
    "inorder t = inorder l @ (k, v, m) # inorder r"
    "getHeight t = 1 + max (getHeight l) (getHeight r) \<or>
     \<bar>getHeight l - getHeight r\<bar> = 2 \<and> getHeight t = max (getHeight l) (getHeight r)"
proof -
  consider (left) "getHeight l = getHeight r + 2" | (right) "getHeight r = getHeight l + 2"
    | (level) "\<bar>getHeight l - getHeight r\<bar> \<le> 1"
    using assms(3) by linarith
  then show thesis
  proof cases
    case level
    then show thesis
      using assms by (intro that [of "Node k v m (1 + max (getHeight l) (getHeight r)) l r"]) (auto simp: Let_def)
  next
    case left
    then obtain lk lv lm lh ll lr where l: "l = Node lk lv lm lh ll lr"
      using getHeight_nonneg [OF assms(2)] by (cases l) auto
    show thesis
    proof (cases "getHeight lr > getHeight ll")
      case False
      with left l assms show thesis
        by (intro that [of "recalculateHeight lk lv lm ll (recalculateHeight k v m lr r)"])
          (auto simp: Let_def recalculateHeight_def)
    next
      case True
      then obtain k2 v2 m2 h2 l2 r2 where lr: "lr = Node k2 v2 m2 h2 l2 r2"
        using l assms(1) getHeight_nonneg [of ll] by (cases lr) auto
      with True left l assms show thesis
        by (intro that [of "recalculateHeight k2 v2 m2 (recalculateHeight lk lv lm ll l2) (recalculateHeight k v m r2 r)"])
          (auto simp: Let_def recalculateHeight_def)
    qed
  next
    case right
    then obtain rk rv rm rh rl rr where r: "r = Node rk rv rm rh rl rr"
      using getHeight_nonneg [OF assms(1)] by (cases r) auto
    show thesis
    proof (cases "getHeight rl > getHeight rr")
      case False
      with right r assms show thesis
        by (intro that [of "recalculateHeight rk rv rm (recalculateHeight k v m l rl) rr"])
          (auto simp: Let_def recalculateHeight_def)
    next
      case True
      then obtain k2 v2 m2 h2 l2 r2 where rl: "rl = Node k2 v2 m2 h2 l2 r2"
        using r assms(2) getHeight_nonneg [of rr] by (cases rl) auto
      with True right r assms show thesis
        by (intro that [of "recalculateHeight k2 v2 m2 (recalculateHeight k v m l l2) (recalculateHeight rk rv rm r2 rr)"])
          (auto simp: Let_def recalculateHeight_def)
    qed
  qed
qed

declare rebalanceTree.simps [simp del]

subsection \<open>Insertion and deletion on the in-order list\<close>

abbreviation keys :: "(string \<times> 'b) list \<Rightarrow> string list" where
  "keys xs \<equiv> map fst xs"

abbreviation ordered :: "(string \<times> 'b) list \<Rightarrow> bool" where
  "ordered xs \<equiv> sorted_wrt (<) (keys xs)"

definition bst :: "AVLNode \<Rightarrow> bool" where
  "bst t \<longleftrightarrow> ordered (inorder t)"

lemma bst_simps [simp]:
  "bst Nil"
  "bst (Node k v m h l r) \<longleftrightarrow> bst l \<and> bst r \<and>
     (\<forall>x \<in> set (keys (inorder l)). x < k) \<and> (\<forall>x \<in> set (keys (inorder r)). k < x)"
  by (fastforce simp: bst_def sorted_wrt_append)+

fun add_list :: "string \<Rightarrow> Transaction \<Rightarrow> (string \<times> Transaction \<times> DomainMetadata) list
    \<Rightarrow> (string \<times> Transaction \<times> DomainMetadata) list" where
  "add_list k v [] = [(k, v, zero_DomainMetadata)]"
| "add_list k v ((a, w, m) # xs) =
     (if k < a then (k, v, zero_DomainMetadata) # (a, w, m) # xs
      else if k = a then (k, v, m) # xs
      else (a, w, m) # add_list k v xs)"

lemma add_list_before: "k < a \<Longrightarrow> add_list k v (xs @ (a, p) # ys) = add_list k v xs @ (a, p) # ys"
  by (induction k v xs rule: add_list.induct) (cases p; auto)+

lemma add_list_at:
  "\<forall>x \<in> set (keys xs). x < k \<Longrightarrow> add_list k v (xs @ (k, w, m) # ys) = xs @ (k, v, m) # ys"
  by (induction xs) (auto dest: order.asym)

lemma add_list_after:
  "\<forall>x \<in> set (keys xs). x < a \<Longrightarrow> a < k \<Longrightarrow>
   add_list k v (xs @ (a, w, m) # ys) = xs @ (a, w, m) # add_list k v ys"
  by (induction xs) (auto dest: order.strict_trans order.asym)

lemma keys_add_list: "set (keys (add_list k v xs)) = insert k (set (keys xs))"
  by (induction k v xs rule: add_list.induct) auto

lemma ordered_add_list: "ordered xs \<Longrightarrow> ordered (add_list k v xs)"
proof (induction k v xs rule: add_list.induct)
  case (2 k v a w m xs)
  then show ?case
    using keys_add_list [of k v xs] by (fastforce dest: order.strict_trans)
qed simp

lemma map_of_add_list:
  "ordered xs \<Longrightarrow> map_of (add_list k v xs) x =
   (if x = k then Some (v, case map_of xs k of None \<Rightarrow> zero_DomainMetadata | Some (w, m) \<Rightarrow> m)
    else map_of xs x)"
proof (induction k v xs rule: add_list.induct)
  case (2 k v a w m xs)
  have "map_of xs k = None" if "k < a"
    using that 2(2) by (auto simp: map_of_eq_None_iff dest: order.strict_trans)
  with 2 show ?case by auto
qed simp

lemma add_spec:
  assumes "avl t" "bst t"
  obtains t' where "add t key value = Inr t'" "avl t'" "bst t'"
    "inorder t' = add_list key value (inorder t)"
    "getHeight t \<le> getHeight t'" "getHeight t' \<le> getHeight t + 1"
proof -
  have "\<exists>t'. add t key value = Inr t' \<and> avl t' \<and> inorder t' = add_list key value (inorder t) \<and>
      getHeight t \<le> getHeight t' \<and> getHeight t' \<le> getHeight t + 1"
    using assms
  proof (induction t)
    case Nil
    then show ?case by simp
  next
    case (Node k v m h l r)
    then have lr: "avl l" "avl r" and lev: "\<bar>getHeight l - getHeight r\<bar> \<le> 1" by simp_all
    consider (less) "key < k" | (greater) "k < key" | (equal) "key = k" by (rule linorder_cases)
    then show ?case
    proof cases
      case less
      with Node obtain l' where l': "add l key value = Inr l'" "avl l'"
        "inorder l' = add_list key value (inorder l)" "getHeight l \<le> getHeight l'" "getHeight l' \<le> getHeight l + 1"
        by auto
      then have b: "\<bar>getHeight l' - getHeight r\<bar> \<le> 2" using lev by linarith
      obtain t' where "rebalanceTree (Node k v m h l' r) = Inr t'" "avl t'"
        "inorder t' = inorder l' @ (k, v, m) # inorder r"
        "getHeight t' = 1 + max (getHeight l') (getHeight r) \<or>
         \<bar>getHeight l' - getHeight r\<bar> = 2 \<and> getHeight t' = max (getHeight l') (getHeight r)"
        by (rule rebalance_avl [OF l'(2) lr(2) b])
      with less l' Node.prems show ?thesis by (auto simp: add_list_before)
    next
      case greater
      with Node obtain r' where r': "add r key value = Inr r'" "avl r'"
        "inorder r' = add_list key value (inorder r)" "getHeight r \<le> getHeight r'" "getHeight r' \<le> getHeight r + 1"
        by auto
      then have b: "\<bar>getHeight l - getHeight r'\<bar> \<le> 2" using lev by linarith
      obtain t' where "rebalanceTree (Node k v m h l r') = Inr t'" "avl t'"
        "inorder t' = inorder l @ (k, v, m) # inorder r'"
        "getHeight t' = 1 + max (getHeight l) (getHeight r') \<or>
         \<bar>getHeight l - getHeight r'\<bar> = 2 \<and> getHeight t' = max (getHeight l) (getHeight r')"
        by (rule rebalance_avl [OF lr(1) r'(2) b])
      with greater r' Node.prems show ?thesis by (auto simp: add_list_after)
    next
      case equal
      have b: "\<bar>getHeight l - getHeight r\<bar> \<le> 2" using lev by linarith
      obtain t' where "rebalanceTree (Node k value m h l r) = Inr t'" "avl t'"
        "inorder t' = inorder l @ (k, value, m) # inorder r"
        "getHeight t' = 1 + max (getHeight l) (getHeight r) \<or>
         \<bar>getHeight l - getHeight r\<bar> = 2 \<and> getHeight t' = max (getHeight l) (getHeight r)"
        by (rule rebalance_avl [OF lr b])
      with equal Node.prems show ?thesis by (auto simp: add_list_at)
    qed
  qed
  then show thesis
    using that assms(2) ordered_add_list unfolding bst_def by metis
qed

lemma findSmallest_inorder:
  "t \<noteq> Nil \<Longrightarrow> \<exists>p xs. findSmallest t = Inr p \<and> inorder t = p # xs"
  by (induction t) auto

lemma filter_other_key:
  "\<forall>x \<in> set (keys xs). x \<noteq> k \<Longrightarrow> filter (\<lambda>p. fst p \<noteq> k) xs = xs"
  by (induction xs) auto

lemma remove_spec:
  assumes "avl t" "bst t"
  obtains t' where "remove t key = Inr t'" "avl t'" "bst t'"
    "inorder t' = filter (\<lambda>p. fst p \<noteq> key) (inorder t)"
    "getHeight t' \<le> getHeight t" "getHeight t \<le> getHeight t' + 1"
proof -
  have "\<exists>t'. remove t key = Inr t' \<and> avl t' \<and> inorder t' = filter (\<lambda>p. fst p \<noteq> key) (inorder t) \<and>
      getHeight t' \<le> getHeight t \<and> getHeight t \<le> getHeight t' + 1"
    using assms
  proof (induction t arbitrary: key)
    case Nil
    then show ?case by simp
  next
    case (Node k v m h l r)
    then have lr: "avl l" "avl r" and lev: "\<bar>getHeight l - getHeight r\<bar> \<le> 1"
      and hh: "h = 1 + max (getHeight l) (getHeight r)"
      and bl: "\<forall>x \<in> set (keys (inorder l)). x < k" and br: "\<forall>x \<in> set (keys (inorder r)). k < x"
      and bs: "bst l" "bst r" by simp_all
    consider (less) "key < k" | (greater) "k < key" | (equal) "key = k" by (rule linorder_cases)
    then show ?case
    proof cases
      case less
      obtain l' where l': "remove l key = Inr l'" "avl l'"
        "inorder l' = filter (\<lambda>p. fst p \<noteq> key) (inorder l)" "getHeight l' \<le> getHeight l" "getHeight l \<le> getHeight l' + 1"
        using Node.IH(1) [OF lr(1) bs(1)] by blast
      then have b: "\<bar>getHeight l' - getHeight r\<bar> \<le> 2" using lev by linarith
      obtain t' where "rebalanceTree (Node k v m h l' r) = Inr t'" "avl t'"
        "inorder t' = inorder l' @ (k, v, m) # inorder r"
        "getHeight t' = 1 + max (getHeight l') (getHeight r) \<or>
         \<bar>getHeight l' - getHeight r\<bar> = 2 \<and> getHeight t' = max (getHeight l') (getHeight r)"
        by (rule rebalance_avl [OF l'(2) lr(2) b])
      moreover have "filter (\<lambda>p. fst p \<noteq> key) (inorder r) = inorder r"
        using less br by (intro filter_other_key) auto
      ultimately show ?thesis using less l' lev hh by auto
    next
      case greater
      obtain r' where r': "remove r key = Inr r'" "avl r'"
        "inorder r' = filter (\<lambda>p. fst p \<noteq> key) (inorder r)" "getHeight r' \<le> getHeight r" "getHeight r \<le> getHeight r' + 1"
        using Node.IH(2) [OF lr(2) bs(2)] by blast
      then have b: "\<bar>getHeight l - getHeight r'\<bar> \<le> 2" using lev by linarith
      obtain t' where "rebalanceTree (Node k v m h l r') = Inr t'" "avl t'"
        "inorder t' = inorder l @ (k, v, m) # inorder r'"
        "getHeight t' = 1 + max (getHeight l) (getHeight r') \<or>
         \<bar>getHeight l - getHeight r'\<bar> = 2 \<and> getHeight t' = max (getHeight l) (getHeight r')"
        by (rule rebalance_avl [OF lr(1) r'(2) b])
      moreover have "filter (\<lambda>p. fst p \<noteq> key) (inorder l) = inorder l"
        using greater bl by (intro filter_other_key) auto
      ultimately show ?thesis using greater r' lev hh by auto
    next
      case equal
      have fl: "filter (\<lambda>p. fst p \<noteq> key) (inorder l) = inorder l"
        "filter (\<lambda>p. fst p \<noteq> key) (inorder r) = inorder r"
        using equal bl br by (intro filter_other_key; auto)+
      show ?thesis
      proof (cases "l \<noteq> Nil \<and> r \<noteq> Nil")
        case True
        then obtain mk mv mm xs where sm: "findSmallest r = Inr (mk, mv, mm)" "inorder r = (mk, mv, mm) # xs"
          using findSmallest_inorder [of r] by auto
        have xs: "filter (\<lambda>p. fst p \<noteq> mk) xs = xs"
          using bs(2) sm(2) by (intro filter_other_key) (auto simp: bst_def)
        obtain r' where r': "remove r mk = Inr r'" "avl r'"
          "inorder r' = filter (\<lambda>p. fst p \<noteq> mk) (inorder r)" "getHeight r' \<le> getHeight r" "getHeight r \<le> getHeight r' + 1"
          using Node.IH(2) [OF lr(2) bs(2)] by blast
        then have b: "\<bar>getHeight l - getHeight r'\<bar> \<le> 2" using lev by linarith
        obtain t' where "rebalanceTree (Node mk mv mm h l r') = Inr t'" "avl t'"
          "inorder t' = inorder l @ (mk, mv, mm) # inorder r'"
          "getHeight t' = 1 + max (getHeight l) (getHeight r') \<or>
           \<bar>getHeight l - getHeight r'\<bar> = 2 \<and> getHeight t' = max (getHeight l) (getHeight r')"
          by (rule rebalance_avl [OF lr(1) r'(2) b])
        then show ?thesis using equal True fl xs sm r' lev hh by auto
      next
        case False
        define c where "c = (if l \<noteq> Nil then l else r)"
        have c: "avl c" "inorder c = inorder l @ inorder r" "getHeight c + 1 = h"
          using False lr hh getHeight_nonneg [OF lr(1)] getHeight_nonneg [OF lr(2)] by (auto simp: c_def)
        have "rebalanceTree c = Inr c"
        proof (cases c)
          case c': (Node a b d e cl cr)
          then have cc: "avl cl" "avl cr" "\<bar>getHeight cl - getHeight cr\<bar> \<le> 1"
            "e = 1 + max (getHeight cl) (getHeight cr)" using c(1) by simp_all
          then show ?thesis using c' by (simp add: rebalanceTree.simps Let_def abs_le_iff)
        qed (simp add: rebalanceTree.simps)
        moreover have "remove (Node k v m h l r) key = rebalanceTree c"
          using False equal by (auto simp: c_def rebalanceTree.simps)
        ultimately show ?thesis using c equal fl by auto
      qed
    qed
  qed
  then show thesis
    using that assms(2) unfolding bst_def by (metis sorted_wrt_map sorted_wrt_filter)
qed

subsection \<open>Search, metadata, traversal\<close>

definition node_info :: "AVLNode \<Rightarrow> (Transaction \<times> DomainMetadata) option" where
  "node_info n = (case n of Nil \<Rightarrow> None | Node k v m h l r \<Rightarrow> Some (v, m))"

lemma node_info_simps [simp]: "node_info Nil = None" "node_info (Node k v m h l r) = Some (v, m)"
  by (simp_all add: node_info_def)

lemma node_info_None_iff [simp]: "node_info n = None \<longleftrightarrow> n = Nil"
  by (cases n) simp_all

lemma map_of_less: "\<forall>x \<in> set (keys xs). x < k \<Longrightarrow> k \<le> y \<Longrightarrow> map_of xs y = None"
  by (force simp: map_of_eq_None_iff)

lemma map_of_greater: "\<forall>x \<in> set (keys xs). k < x \<Longrightarrow> y \<le> k \<Longrightarrow> map_of xs y = None"
  by (force simp: map_of_eq_None_iff)

lemma search_map_of: "bst t \<Longrightarrow> node_info (search t key) = map_of (inorder t) key"
proof (induction t)
  case (Node k v m h l r)
  then have l: "\<forall>x \<in> set (keys (inorder l)). x < k" and r: "\<forall>x \<in> set (keys (inorder r)). k < x"
    by simp_all
  show ?case
    using Node map_of_less [OF l, of key] map_of_greater [OF r, of key]
    by (auto simp: map_add_def split: option.splits)
qed simp

lemma set_metadata_inorder:
  "bst t \<Longrightarrow> inorder (set_metadata f t key) =
     map (\<lambda>(k, v, m). (k, v, if k = key then f m else m)) (inorder t)"
proof (induction t)
  case (Node k v m h l r)
  let ?g = "\<lambda>(k, v, m). (k, v, if k = key then f m else m)"
  have id: "map ?g xs = xs" if "\<forall>x \<in> set (keys xs). x \<noteq> key" for xs :: "(string \<times> Transaction \<times> DomainMetadata) list"
    using that by (induction xs) auto
  have "map ?g (inorder l) = inorder l" if "k \<le> key" using that Node.prems by (intro id) auto
  moreover have "map ?g (inorder r) = inorder r" if "key \<le> k" using that Node.prems by (intro id) auto
  ultimately show ?case using Node by auto
qed simp

lemma set_metadata_height [simp]: "getHeight (set_metadata f t key) = getHeight t"
  by (cases t) simp_all

lemma set_metadata_avl [simp]: "avl (set_metadata f t key) = avl t"
  by (induction t) auto

lemma set_metadata_bst: "bst t \<Longrightarrow> bst (set_metadata f t key)"
proof -
  assume b: "bst t"
  have "keys (inorder (set_metadata f t key)) = keys (inorder t)"
    unfolding set_metadata_inorder [OF b] by (induction "inorder t") auto
  with b show ?thesis by (simp add: bst_def)
qed

lemma set_metadata_search:
  assumes "bst t"
  shows "node_info (search (set_metadata f t key) x) =
    (case node_info (search t x) of None \<Rightarrow> None
     | Some (v, m) \<Rightarrow> Some (v, if x = key then f m else m))"
proof -
  have "map_of (map (\<lambda>(k, v, m). (k, v, if k = key then f m else m)) xs) x =
      (case map_of xs x of None \<Rightarrow> None | Some (v, m) \<Rightarrow> Some (v, if x = key then f m else m))"
    for xs :: "(string \<times> Transaction \<times> DomainMetadata) list"
    by (induction xs) auto
  then show ?thesis
    using assms by (simp add: search_map_of set_metadata_bst set_metadata_inorder)
qed

definition domain_record :: "string \<times> Transaction \<times> DomainMetadata \<Rightarrow> DomainRecord" where
  "domain_record = (\<lambda>(k, v, m). \<lparr>drDomain = DomainName v, drRecords = Records v,
     drExpirySlot = ExpirySlot v, drListPrice = mdListPrice m, drOwnerKey = mdOwnerKey m\<rparr>)"

lemma inOrderTraversal_inorder: "inOrderTraversal t acc = acc @ map domain_record (inorder t)"
  by (induction t arbitrary: acc) (simp_all add: domain_record_def)

lemma findNodeByTxID_Nil_iff: "findNodeByTxID t i = Nil \<longleftrightarrow> (\<forall>p \<in> set (inorder t). TID (fst (snd p)) \<noteq> i)"
  by (induction t) (auto simp: Let_def)

lemma findNodeByTxID_found:
  "findNodeByTxID t i = Node k v m h l r \<Longrightarrow> TID v = i \<and> (k, v, m) \<in> set (inorder t)"
  by (induction t) (auto simp: Let_def split: if_splits)

text \<open>The tree stays shallow: its height is at most twice the logarithm of its size.\<close>

lemma avl_height_log: "avl t \<Longrightarrow> (2::nat) ^ (nat (getHeight t) div 2) \<le> length (inorder t) + 1"
proof (induction "nat (getHeight t)" arbitrary: t rule: less_induct)
  case less
  show ?case
  proof (cases t)
    case (Node k v m h l r)
    have lr: "avl l" "avl r" "h = 1 + max (getHeight l) (getHeight r)" "\<bar>getHeight l - getHeight r\<bar> \<le> 1"
      using less.prems Node by simp_all
    note nn = getHeight_nonneg [OF lr(1)] getHeight_nonneg [OF lr(2)]
    have IH: "(2::nat) ^ (nat (getHeight s) div 2) \<le> length (inorder s) + 1" if "s = l \<or> s = r" for s
      using that lr nn Node by (intro less.hyps) auto
    have low: "nat h div 2 \<le> Suc (nat (getHeight s) div 2)" if "s = l \<or> s = r" for s
      using that lr(3,4) nn by (auto simp: max_def split: if_splits)
    have "(2::nat) ^ (nat h div 2) \<le> 2 * 2 ^ (nat (getHeight s) div 2)" if "s = l \<or> s = r" for s
      using power_increasing [OF low [OF that], of "2 :: nat"] by simp
    from this [of l] this [of r] IH [of l] IH [of r] show ?thesis using Node by simp
  qed simp
qed

text \<open>What the domain index relies on, and the tree as an implementation of it.\<close>

locale metadata_map =
  fixes inv :: "'t \<Rightarrow> bool"
    and info :: "'t \<Rightarrow> string \<Rightarrow> (Transaction \<times> DomainMetadata) option"
    and ins :: "'t \<Rightarrow> string \<Rightarrow> Transaction \<Rightarrow> panic + 't"
    and del :: "'t \<Rightarrow> string \<Rightarrow> panic + 't"
    and upd :: "(DomainMetadata \<Rightarrow> DomainMetadata) \<Rightarrow> 't \<Rightarrow> string \<Rightarrow> 't"
  assumes ins_ok: "inv t \<Longrightarrow> \<exists>t'. ins t k v = Inr t' \<and> inv t' \<and>
      (\<forall>x. info t' x = (if x = k then Some (v, case info t k of None \<Rightarrow> zero_DomainMetadata | Some (w, m) \<Rightarrow> m)
                       else info t x))"
    and del_ok: "inv t \<Longrightarrow> \<exists>t'. del t k = Inr t' \<and> inv t' \<and>
      (\<forall>x. info t' x = (if x = k then None else info t x))"
    and upd_inv: "inv t \<Longrightarrow> inv (upd f t k)"
    and upd_info: "inv t \<Longrightarrow> info (upd f t k) x =
      (case info t x of None \<Rightarrow> None | Some (v, m) \<Rightarrow> Some (v, if x = k then f m else m))"
begin

lemma ins_no_panic: "inv t \<Longrightarrow> ins t k v \<noteq> Inl p"
  using ins_ok [of t k v] by auto

lemma insE:
  assumes "inv t" "ins t k v = Inr t'"
  shows "inv t'"
    and "info t' x = (if x = k then Some (v, case info t k of None \<Rightarrow> zero_DomainMetadata | Some (w, m) \<Rightarrow> m)
                      else info t x)"
  using ins_ok [OF assms(1), of k v] assms(2) by auto

lemma delE:
  assumes "inv t" "del t k = Inr t'"
  shows "inv t'" and "info t' x = (if x = k then None else info t x)"
  using del_ok [OF assms(1), of k] assms(2) by auto

lemma replace_resets:
  assumes "inv t"
  shows "\<exists>t'. bindR (del t k) (\<lambda>u. ins u k v) = Inr t' \<and> inv t' \<and>
    info t' k = Some (v, zero_DomainMetadata) \<and> (\<forall>x. x \<noteq> k \<longrightarrow> info t' x = info t x)"
proof -
  obtain u where u: "del t k = Inr u" "inv u" "\<And>x. info u x = (if x = k then None else info t x)"
    using del_ok [OF assms, of k] by auto
  then show ?thesis using ins_ok [of u k v] by auto
qed

end

definition tree_inv :: "AVLNode \<Rightarrow> bool" where
  "tree_inv t \<longleftrightarrow> avl t \<and> bst t"

definition tree_info :: "AVLNode \<Rightarrow> string \<Rightarrow> (Transaction \<times> DomainMetadata) option" where
  "tree_info t k = node_info (search t k)"

lemma map_of_filter_key: "map_of (filter (\<lambda>p. fst p \<noteq> k) xs) x = (if x = k then None else map_of xs x)"
  by (induction xs) auto

interpretation tm: metadata_map tree_inv tree_info add remove set_metadata
proof
  fix t k v
  assume inv: "tree_inv t"
  obtain t' where "add t k v = Inr t'" "avl t'" "bst t'" "inorder t' = add_list k v (inorder t)"
    using inv by (auto simp: tree_inv_def elim: add_spec)
  with inv show "\<exists>t'. add t k v = Inr t' \<and> tree_inv t' \<and>
      (\<forall>x. tree_info t' x = (if x = k then Some (v, case tree_info t k of None \<Rightarrow> zero_DomainMetadata | Some (w, m) \<Rightarrow> m)
                       else tree_info t x))"
    by (simp add: tree_inv_def tree_info_def search_map_of map_of_add_list bst_def)
next
  fix t k
  assume inv: "tree_inv t"
  obtain t' where "remove t k = Inr t'" "avl t'" "bst t'" "inorder t' = filter (\<lambda>p. fst p \<noteq> k) (inorder t)"
    using inv by (auto simp: tree_inv_def elim: remove_spec)
  with inv show "\<exists>t'. remove t k = Inr t' \<and> tree_inv t' \<and>
      (\<forall>x. tree_info t' x = (if x = k then None else tree_info t x))"
    by (simp add: tree_inv_def tree_info_def search_map_of map_of_filter_key)
qed (simp_all add: tree_inv_def tree_info_def set_metadata_bst set_metadata_search)

subsection \<open>Properties\<close>

text \<open>A sequence of insertions (\<open>Some\<close>) and removals (\<open>None\<close>), run on the tree.\<close>

fun run_tree :: "(string \<times> Transaction option) list \<Rightarrow> AVLNode \<Rightarrow> panic + AVLNode" where
  "run_tree [] t = Inr t"
| "run_tree ((k, Some v) # ops) t = bindR (add t k v) (run_tree ops)"
| "run_tree ((k, None) # ops) t = bindR (remove t k) (run_tree ops)"

text \<open>The same sequence on a map.\<close>

fun run_map :: "(string \<times> Transaction option) list \<Rightarrow> (string \<rightharpoonup> Transaction) \<Rightarrow> string \<rightharpoonup> Transaction" where
  "run_map [] m = m"
| "run_map ((k, v) # ops) m = run_map ops (m(k := v))"

lemma run_tree_spec:
  assumes "tree_inv t"
  shows "\<exists>t'. run_tree ops t = Inr t' \<and> tree_inv t' \<and>
    (\<lambda>x. map_option fst (tree_info t' x)) = run_map ops (\<lambda>x. map_option fst (tree_info t x))"
  using assms
proof (induction ops t rule: run_tree.induct)
  case (2 k v ops t)
  obtain u where u: "add t k v = Inr u" "tree_inv u" "\<And>x. tree_info u x =
      (if x = k then Some (v, case tree_info t k of None \<Rightarrow> zero_DomainMetadata | Some (w, m) \<Rightarrow> m) else tree_info t x)"
    using tm.ins_ok [OF 2(2), of k v] by blast
  have "(\<lambda>x. map_option fst (tree_info u x)) = (\<lambda>x. map_option fst (tree_info t x))(k := Some v)"
    by (auto simp: u(3))
  with 2(1) [OF u(2)] u(1) show ?case by (simp del: fun_upd_apply)
next
  case (3 k ops t)
  obtain u where u: "remove t k = Inr u" "tree_inv u" "\<And>x. tree_info u x = (if x = k then None else tree_info t x)"
    using tm.del_ok [OF 3(2), of k] by blast
  have "(\<lambda>x. map_option fst (tree_info u x)) = (\<lambda>x. map_option fst (tree_info t x))(k := None)"
    by (auto simp: u(3))
  with 3(1) [OF u(2)] u(1) show ?case by (simp del: fun_upd_apply)
qed simp

text \<open>C15: the AVL tree implements a finite map: any sequence of insertions and removals from the
  empty tree runs without a nil dereference, searching the result finds for every key what the last
  operation on that key left, and the tree stays balanced, so that a search of \<open>n\<close> keys takes at most
  about \<open>2 log\<^sub>2 (n + 1)\<close> steps.\<close>

theorem avl_refines_map:
  "\<exists>t. run_tree ops Nil = Inr t \<and> avl t \<and> bst t \<and>
     (2::nat) ^ (nat (getHeight t) div 2) \<le> length (inorder t) + 1 \<and>
     (\<lambda>x. map_option fst (node_info (search t x))) = run_map ops Map.empty"
proof -
  have nil: "tree_inv Nil" by (simp add: tree_inv_def)
  have empty: "(\<lambda>x. map_option fst (tree_info Nil x)) = Map.empty" by (simp add: tree_info_def)
  from run_tree_spec [OF nil, of ops] show ?thesis
    unfolding empty using avl_height_log by (auto simp: tree_inv_def tree_info_def)
qed

end
