(* ===== verification/Index.thy ===== *)
theory Index
  imports AVL
begin

text \<open>
  \<^verbatim>\<open>internal/index/index_manager.go\<close> and \<^verbatim>\<open>bloom_filter.go\<close>: the domain index, an AVL tree
  keyed by the hash of the domain name behind a Bloom filter, with the expiry and purge
  schedules. The Bloom filter package is a record of its three operations; what the index needs
  of it (\<open>bloom_ok\<close>: no false negatives) is a hypothesis. The interface \<^verbatim>\<open>DomainIndexer\<close> is the
  record of the operations block processing calls.
\<close>

record 'f bloom =
  bloomNew :: 'f
  bloomAdd :: "'f \<Rightarrow> string \<Rightarrow> 'f"
  bloomTest :: "'f \<Rightarrow> string \<Rightarrow> bool"

record 'f BloomFilterManager =
  revocationFilter :: 'f
  validFilter :: 'f

definition HashDomain :: "string \<Rightarrow> string" where
  "HashDomain domain = hex (sha256 (bytes_of_string domain))"

definition InitFilter :: "'f bloom \<Rightarrow> 'f BloomFilterManager" where
  "InitFilter B = \<lparr>revocationFilter = bloomNew B, validFilter = bloomNew B\<rparr>"

definition AddToValidList :: "'f bloom \<Rightarrow> 'f BloomFilterManager \<Rightarrow> string \<Rightarrow> 'f BloomFilterManager" where
  "AddToValidList B bfm validDomain =
     bfm\<lparr>validFilter := bloomAdd B (validFilter bfm) (HashDomain validDomain)\<rparr>"

definition AddToRevocationList :: "'f bloom \<Rightarrow> 'f BloomFilterManager \<Rightarrow> string \<Rightarrow> 'f BloomFilterManager" where
  "AddToRevocationList B bfm revokedDomain =
     bfm\<lparr>revocationFilter := bloomAdd B (revocationFilter bfm) (HashDomain revokedDomain)\<rparr>"

definition IsValid :: "'f bloom \<Rightarrow> 'f BloomFilterManager \<Rightarrow> string \<Rightarrow> bool" where
  "IsValid B bfm domain = bloomTest B (validFilter bfm) (HashDomain domain)"

definition IsRevoked :: "'f bloom \<Rightarrow> 'f BloomFilterManager \<Rightarrow> string \<Rightarrow> bool" where
  "IsRevoked B bfm domain = bloomTest B (revocationFilter bfm) (HashDomain domain)"

record TxLocation =
  tlBlockIndex :: int64
  tlTxIndex :: int

type_synonym schedule = "(int64, Transaction list) fmap"

record 'f IndexManager =
  imTree :: AVLTree
  imFilter :: "'f BloomFilterManager"
  expiryIndex :: schedule
  purgeIndex :: schedule
  txLocations :: "(string, TxLocation) fmap"
  spentTxs :: "int fset"
  currentIndex :: int64

definition NewIndexManager :: "'f bloom \<Rightarrow> 'f IndexManager" where
  "NewIndexManager B = \<lparr>imTree = \<lparr>root = Nil\<rparr>, imFilter = InitFilter B, expiryIndex = fmempty,
     purgeIndex = fmempty, txLocations = fmempty, spentTxs = {||}, currentIndex = 0\<rparr>"

definition GetDomain :: "'f bloom \<Rightarrow> 'f IndexManager \<Rightarrow> string \<Rightarrow> Transaction option" where
  "GetDomain B im domain =
     (if \<not> IsValid B (imFilter im) domain then None
      else case avlSearch (imTree im) (HashDomain domain) of
        Nil \<Rightarrow> None
      | Node k v m h l r \<Rightarrow> Some v)"

text \<open>\<^verbatim>\<open>strings.Join\<close> and the text line of a domain record.\<close>

fun join :: "string \<Rightarrow> string list \<Rightarrow> string" where
  "join sep [] = []"
| "join sep [s] = s"
| "join sep (s # t # ss) = s @ sep @ join sep (t # ss)"

definition record_text :: "Record \<Rightarrow> string" where
  "record_text rec = RType rec @ '':'' @ RValue rec @ '':'' @ show_int (Priority rec)"

definition domain_line :: "DomainRecord \<Rightarrow> string" where
  "domain_line r =
     (let recStr = ''['' @ join ''|'' (map record_text (drRecords r)) @ '']'';
          ownerHex = hex (sl (drOwnerKey r))
      in drDomain r @ '':'' @ show_int (drExpirySlot r) @ '':'' @ recStr @ '':''
         @ show_nat (unat (drListPrice r)) @ '':'' @ ownerHex @ [CHR 0x0A])"

definition records_digest :: "DomainRecord list \<Rightarrow> slice" where
  "records_digest records =
     (if length records = 0 then None
      else Some (sha256 (bytes_of_string (concat (map domain_line (sort_key drDomain records))))))"

definition GetIndexHash :: "'f IndexManager \<Rightarrow> slice" where
  "GetIndexHash im = records_digest (GetAllRecords (imTree im))"

definition push :: "int64 \<Rightarrow> Transaction \<Rightarrow> schedule \<Rightarrow> schedule" where
  "push slot tx m = fmupd slot ((case fmlookup m slot of None \<Rightarrow> [] | Some ts \<Rightarrow> ts) @ [tx]) m"

definition AddToExpiryAndPurgeIndex :: "'f IndexManager \<Rightarrow> Transaction \<Rightarrow> int64 \<Rightarrow> 'f IndexManager" where
  "AddToExpiryAndPurgeIndex im tx slotsPerDay =
     (if ExpirySlot tx > 0 then
        im\<lparr>expiryIndex := push (ExpirySlot tx) tx (expiryIndex im),
           purgeIndex := push (ComputePurgeSlot (ExpirySlot tx) slotsPerDay) tx (purgeIndex im)\<rparr>
      else im)"

definition Add :: "'f bloom \<Rightarrow> 'f IndexManager \<Rightarrow> string \<Rightarrow> Transaction \<Rightarrow> int64 \<Rightarrow> int \<Rightarrow> int64
    \<Rightarrow> panic + 'f IndexManager" where
  "Add B im domain tx blockIndex txIndex slotsPerDay =
     bindR (avlAdd (imTree im) (HashDomain domain) tx) (\<lambda>t.
       let im = im\<lparr>imTree := t\<rparr>;
           im = im\<lparr>imFilter := AddToValidList B (imFilter im) domain\<rparr>;
           im = im\<lparr>txLocations := fmupd (HashDomain domain)
                    \<lparr>tlBlockIndex = blockIndex, tlTxIndex = txIndex\<rparr> (txLocations im)\<rparr>
       in Inr (if ExpirySlot tx > 0 then
                 im\<lparr>expiryIndex := push (ExpirySlot tx) tx (expiryIndex im),
                    purgeIndex := push (ComputePurgeSlot (ExpirySlot tx) slotsPerDay) tx (purgeIndex im)\<rparr>
               else im))"

definition imUpdate :: "'f IndexManager \<Rightarrow> string \<Rightarrow> Transaction \<Rightarrow> panic + 'f IndexManager" where
  "imUpdate im domain tx =
     bindR (avlUpdate (imTree im) (HashDomain domain) tx) (\<lambda>t. Inr (im\<lparr>imTree := t\<rparr>))"

definition imRemove :: "'f bloom \<Rightarrow> 'f IndexManager \<Rightarrow> string \<Rightarrow> panic + 'f IndexManager" where
  "imRemove B im domain =
     bindR (avlRemove (imTree im) (HashDomain domain)) (\<lambda>t.
       Inr (im\<lparr>imTree := t, imFilter := AddToRevocationList B (imFilter im) domain,
               txLocations := fmdrop (HashDomain domain) (txLocations im)\<rparr>))"

definition GetTxLocation :: "'f IndexManager \<Rightarrow> string \<Rightarrow> TxLocation option" where
  "GetTxLocation im domain = fmlookup (txLocations im) (HashDomain domain)"

definition scheduled :: "schedule \<Rightarrow> int64 \<Rightarrow> Transaction list" where
  "scheduled m slot = (case fmlookup m slot of None \<Rightarrow> [] | Some ts \<Rightarrow> ts)"

definition GetExpiredDomains :: "'f IndexManager \<Rightarrow> int64 \<Rightarrow> Transaction list" where
  "GetExpiredDomains im currentSlot = scheduled (expiryIndex im) currentSlot"

definition GetPurgeableDomains :: "'f IndexManager \<Rightarrow> int64 \<Rightarrow> Transaction list" where
  "GetPurgeableDomains im currentSlot = scheduled (purgeIndex im) currentSlot"

text \<open>The loop over one slot: the first entry with this identifier goes, if there is one.\<close>

fun drop_first :: "int \<Rightarrow> Transaction list \<Rightarrow> Transaction list option" where
  "drop_first tid [] = None"
| "drop_first tid (t # ts) = (if TID t = tid then Some ts else map_option (Cons t) (drop_first tid ts))"

definition unschedule :: "int64 \<Rightarrow> int \<Rightarrow> schedule \<Rightarrow> schedule" where
  "unschedule slot tid m =
     (case drop_first tid (scheduled m slot) of None \<Rightarrow> m | Some ts \<Rightarrow> fmupd slot ts m)"

definition RemoveFromExpiryIndex :: "'f IndexManager \<Rightarrow> Transaction \<Rightarrow> int64 \<Rightarrow> 'f IndexManager" where
  "RemoveFromExpiryIndex im tx slotsPerDay =
     (if ExpirySlot tx > 0 then
        im\<lparr>expiryIndex := unschedule (ExpirySlot tx) (TID tx) (expiryIndex im),
           purgeIndex := unschedule (ComputePurgeSlot (ExpirySlot tx) slotsPerDay) (TID tx) (purgeIndex im)\<rparr>
      else im)"

definition IsForSale :: "'f IndexManager \<Rightarrow> string \<Rightarrow> bool" where
  "IsForSale im domain =
     (case avlSearch (imTree im) (HashDomain domain) of
        Nil \<Rightarrow> False | Node k v m h l r \<Rightarrow> mdListPrice m > 0)"

definition GetListPrice :: "'f IndexManager \<Rightarrow> string \<Rightarrow> uint64" where
  "GetListPrice im domain =
     (case avlSearch (imTree im) (HashDomain domain) of
        Nil \<Rightarrow> 0 | Node k v m h l r \<Rightarrow> mdListPrice m)"

definition SetListPrice :: "'f IndexManager \<Rightarrow> string \<Rightarrow> uint64 \<Rightarrow> 'f IndexManager" where
  "SetListPrice im domain price =
     im\<lparr>imTree := (imTree im)\<lparr>root :=
       set_metadata (\<lambda>m. m\<lparr>mdListPrice := price\<rparr>) (root (imTree im)) (HashDomain domain)\<rparr>\<rparr>"

definition SetOwner :: "'f IndexManager \<Rightarrow> string \<Rightarrow> slice \<Rightarrow> 'f IndexManager" where
  "SetOwner im domain ownerKey =
     im\<lparr>imTree := (imTree im)\<lparr>root :=
       set_metadata (\<lambda>m. m\<lparr>mdOwnerKey := ownerKey\<rparr>) (root (imTree im)) (HashDomain domain)\<rparr>\<rparr>"

definition GetOwner :: "'f IndexManager \<Rightarrow> string \<Rightarrow> slice" where
  "GetOwner im domain =
     (case avlSearch (imTree im) (HashDomain domain) of
        Nil \<Rightarrow> None | Node k v m h l r \<Rightarrow> mdOwnerKey m)"

definition GetTxByID :: "'f IndexManager \<Rightarrow> int \<Rightarrow> Transaction option" where
  "GetTxByID im txID =
     (case FindNodeByTxID (imTree im) txID of Nil \<Rightarrow> None | Node k v m h l r \<Rightarrow> Some v)"

definition MarkAsSpent :: "'f IndexManager \<Rightarrow> int \<Rightarrow> 'f IndexManager" where
  "MarkAsSpent im txID = im\<lparr>spentTxs := finsert txID (spentTxs im)\<rparr>"

definition IsSpent :: "'f IndexManager \<Rightarrow> int \<Rightarrow> bool" where
  "IsSpent im txID \<longleftrightarrow> txID |\<in>| spentTxs im"

definition imCommit :: "'f IndexManager \<Rightarrow> panic + 'f IndexManager" where
  "imCommit im = Inr im"

record 's DomainIndexer =
  diGetDomain :: "'s \<Rightarrow> string \<Rightarrow> Transaction option"
  diAdd :: "'s \<Rightarrow> string \<Rightarrow> Transaction \<Rightarrow> int64 \<Rightarrow> int \<Rightarrow> int64 \<Rightarrow> panic + 's"
  diSetOwner :: "'s \<Rightarrow> string \<Rightarrow> slice \<Rightarrow> 's"
  diGetOwner :: "'s \<Rightarrow> string \<Rightarrow> slice"
  diSetListPrice :: "'s \<Rightarrow> string \<Rightarrow> uint64 \<Rightarrow> 's"
  diGetListPrice :: "'s \<Rightarrow> string \<Rightarrow> uint64"
  diIsForSale :: "'s \<Rightarrow> string \<Rightarrow> bool"
  diGetTxByID :: "'s \<Rightarrow> int \<Rightarrow> Transaction option"
  diGetIndexHash :: "'s \<Rightarrow> slice"
  diMarkAsSpent :: "'s \<Rightarrow> int \<Rightarrow> 's"
  diIsSpent :: "'s \<Rightarrow> int \<Rightarrow> bool"
  diCommit :: "'s \<Rightarrow> panic + 's"

definition IndexManagerOps :: "'f bloom \<Rightarrow> 'f IndexManager DomainIndexer" where
  "IndexManagerOps B = \<lparr>diGetDomain = GetDomain B, diAdd = Add B, diSetOwner = SetOwner,
     diGetOwner = GetOwner, diSetListPrice = SetListPrice, diGetListPrice = GetListPrice,
     diIsForSale = IsForSale, diGetTxByID = GetTxByID, diGetIndexHash = GetIndexHash,
     diMarkAsSpent = MarkAsSpent, diIsSpent = IsSpent, diCommit = imCommit\<rparr>"

subsection \<open>The contract of a domain index\<close>

locale domain_indexer =
  fixes inv :: "'s \<Rightarrow> bool"
    and ops :: "'s DomainIndexer"
  assumes add_ok: "inv s \<Longrightarrow> \<exists>s'. diAdd ops s d tx b i spd = Inr s'"
    and add_inv: "inv s \<Longrightarrow> diAdd ops s d tx b i spd = Inr s' \<Longrightarrow> inv s'"
    and domain_add: "inv s \<Longrightarrow> diAdd ops s d tx b i spd = Inr s' \<Longrightarrow> diGetDomain ops s' d = Some tx"
    and domain_add_other: "inv s \<Longrightarrow> diAdd ops s d tx b i spd = Inr s' \<Longrightarrow> HashDomain e \<noteq> HashDomain d \<Longrightarrow>
      diGetDomain ops s' e = diGetDomain ops s e"
    and meta_add: "inv s \<Longrightarrow> diAdd ops s d tx b i spd = Inr s' \<Longrightarrow>
      diGetOwner ops s' e = diGetOwner ops s e \<and> diGetListPrice ops s' e = diGetListPrice ops s e"
    and spent_add: "diAdd ops s d tx b i spd = Inr s' \<Longrightarrow> diIsSpent ops s' j = diIsSpent ops s j"
    and set_owner_inv: "inv s \<Longrightarrow> inv (diSetOwner ops s d k)"
    and domain_set_owner: "inv s \<Longrightarrow> diGetDomain ops (diSetOwner ops s d k) e = diGetDomain ops s e"
    and owner_set_owner: "inv s \<Longrightarrow> diGetDomain ops s d \<noteq> None \<Longrightarrow>
      diGetOwner ops (diSetOwner ops s d (Some pk)) d = Some pk"
    and owner_set_owner_other: "inv s \<Longrightarrow> HashDomain e \<noteq> HashDomain d \<Longrightarrow>
      diGetOwner ops (diSetOwner ops s d k) e = diGetOwner ops s e"
    and price_set_owner: "inv s \<Longrightarrow> diGetListPrice ops (diSetOwner ops s d k) e = diGetListPrice ops s e"
    and spent_set_owner: "diIsSpent ops (diSetOwner ops s d k) j = diIsSpent ops s j"
    and set_price_inv: "inv s \<Longrightarrow> inv (diSetListPrice ops s d p)"
    and domain_set_price: "inv s \<Longrightarrow> diGetDomain ops (diSetListPrice ops s d p) e = diGetDomain ops s e"
    and owner_set_price: "inv s \<Longrightarrow> diGetOwner ops (diSetListPrice ops s d p) e = diGetOwner ops s e"
    and price_set_price: "inv s \<Longrightarrow> diGetDomain ops s d \<noteq> None \<Longrightarrow>
      diGetListPrice ops (diSetListPrice ops s d p) d = p"
    and price_set_price_other: "inv s \<Longrightarrow> HashDomain e \<noteq> HashDomain d \<Longrightarrow>
      diGetListPrice ops (diSetListPrice ops s d p) e = diGetListPrice ops s e"
    and spent_set_price: "diIsSpent ops (diSetListPrice ops s d p) j = diIsSpent ops s j"
    and for_sale: "diIsForSale ops s d \<longleftrightarrow> diGetListPrice ops s d > 0"
    and spent_inv: "inv s \<Longrightarrow> inv (diMarkAsSpent ops s j)"
    and spent_mark: "diIsSpent ops (diMarkAsSpent ops s j) i \<longleftrightarrow> i = j \<or> diIsSpent ops s i"
    and domain_mark: "diGetDomain ops (diMarkAsSpent ops s j) d = diGetDomain ops s d"
    and owner_mark: "diGetOwner ops (diMarkAsSpent ops s j) d = diGetOwner ops s d"
    and price_mark: "diGetListPrice ops (diMarkAsSpent ops s j) d = diGetListPrice ops s d"
begin

lemmas index_laws = domain_set_owner owner_set_owner owner_set_owner_other price_set_owner
  spent_set_owner domain_set_price owner_set_price price_set_price price_set_price_other
  spent_set_price spent_mark domain_mark owner_mark price_mark set_owner_inv set_price_inv spent_inv

text \<open>Registering: the new transaction is found, with its owner; nobody else is touched.\<close>

lemma add_set_owner:
  assumes "inv s"
  obtains s' where "diAdd ops s d tx b i spd = Inr s'" "inv (diSetOwner ops s' d (Some k))"
    "diGetDomain ops (diSetOwner ops s' d (Some k)) d = Some tx"
    "diGetOwner ops (diSetOwner ops s' d (Some k)) d = Some k"
    "\<And>e. HashDomain e \<noteq> HashDomain d \<Longrightarrow>
       diGetDomain ops (diSetOwner ops s' d (Some k)) e = diGetDomain ops s e \<and>
       diGetOwner ops (diSetOwner ops s' d (Some k)) e = diGetOwner ops s e \<and>
       diGetListPrice ops (diSetOwner ops s' d (Some k)) e = diGetListPrice ops s e"
    "\<And>j. diIsSpent ops (diSetOwner ops s' d (Some k)) j = diIsSpent ops s j"
proof -
  obtain s' where s': "diAdd ops s d tx b i spd = Inr s'" using add_ok [OF assms] by blast
  note inv' = add_inv [OF assms s'] and dom = domain_add [OF assms s']
  show thesis
    using inv' dom domain_add_other [OF assms s'] meta_add [OF assms s'] spent_add [OF s']
    by (intro that [OF s']) (simp_all add: index_laws)
qed

text \<open>A sale or a transfer: the owner changes, the price is reset, the transaction stays.\<close>

lemma hand_over:
  fixes k :: bytes
  assumes "inv s" "diGetDomain ops s d = Some tx"
  defines "s' \<equiv> diSetListPrice ops (diSetOwner ops s d (Some k)) d 0"
  shows "inv s'" "diGetDomain ops s' e = diGetDomain ops s e" "diGetOwner ops s' d = Some k"
    "diGetListPrice ops s' d = 0" "\<not> diIsForSale ops s' d" "diIsSpent ops s' j = diIsSpent ops s j"
    "HashDomain e \<noteq> HashDomain d \<Longrightarrow> diGetOwner ops s' e = diGetOwner ops s e"
  using assms by (simp_all add: index_laws for_sale)

end

subsection \<open>The index manager fulfils it\<close>

definition bloom_ok :: "'f bloom \<Rightarrow> bool" where
  "bloom_ok B \<longleftrightarrow> (\<forall>f s. bloomTest B (bloomAdd B f s) s) \<and>
     (\<forall>f s t. bloomTest B f s \<longrightarrow> bloomTest B (bloomAdd B f t) s)"

abbreviation im_info :: "'f IndexManager \<Rightarrow> string \<Rightarrow> (Transaction \<times> DomainMetadata) option" where
  "im_info im k \<equiv> tree_info (root (imTree im)) k"

definition im_inv :: "'f bloom \<Rightarrow> 'f IndexManager \<Rightarrow> bool" where
  "im_inv B im \<longleftrightarrow> bloom_ok B \<and> tree_inv (root (imTree im)) \<and>
     (\<forall>k. im_info im k \<noteq> None \<longrightarrow> bloomTest B (validFilter (imFilter im)) k)"

lemma im_inv_New: "bloom_ok B \<Longrightarrow> im_inv B (NewIndexManager B)"
  by (simp add: im_inv_def NewIndexManager_def tree_inv_def tree_info_def)

lemma GetDomain_info: "im_inv B im \<Longrightarrow> GetDomain B im d = map_option fst (im_info im (HashDomain d))"
  by (cases "avlSearch (imTree im) (HashDomain d)")
    (auto simp: GetDomain_def im_inv_def IsValid_def tree_info_def avlSearch_def)

lemma GetOwner_info:
  "GetOwner im d = (case im_info im (HashDomain d) of None \<Rightarrow> None | Some (v, m) \<Rightarrow> mdOwnerKey m)"
  by (simp add: GetOwner_def tree_info_def avlSearch_def split: AVLNode.splits)

lemma GetListPrice_info:
  "GetListPrice im d = (case im_info im (HashDomain d) of None \<Rightarrow> 0 | Some (v, m) \<Rightarrow> mdListPrice m)"
  by (simp add: GetListPrice_def tree_info_def avlSearch_def split: AVLNode.splits)

lemma IsForSale_price: "IsForSale im d \<longleftrightarrow> GetListPrice im d > 0"
  by (simp add: IsForSale_def GetListPrice_def split: AVLNode.splits)

lemma Add_spec:
  assumes inv: "im_inv B im"
  obtains im' where "Add B im d tx b i spd = Inr im'" "im_inv B im'"
    "\<And>k. im_info im' k = (if k = HashDomain d
        then Some (tx, case im_info im k of None \<Rightarrow> zero_DomainMetadata | Some (w, m) \<Rightarrow> m) else im_info im k)"
    "spentTxs im' = spentTxs im"
proof -
  obtain t where t: "add (root (imTree im)) (HashDomain d) tx = Inr t" "tree_inv t"
    "\<And>k. tree_info t k = (if k = HashDomain d
        then Some (tx, case im_info im (HashDomain d) of None \<Rightarrow> zero_DomainMetadata | Some (w, m) \<Rightarrow> m)
        else im_info im k)"
    using inv tm.ins_ok [of "root (imTree im)" "HashDomain d" tx] by (auto simp: im_inv_def)
  then obtain im' where im': "Add B im d tx b i spd = Inr im'" "root (imTree im') = t"
    "imFilter im' = AddToValidList B (imFilter im) d" "spentTxs im' = spentTxs im"
    by (cases "ExpirySlot tx > 0") (auto simp: Add_def avlAdd_def Let_def)
  moreover from this t inv have "im_inv B im'"
    by (auto simp: im_inv_def AddToValidList_def bloom_ok_def)
  ultimately show thesis using that t by simp
qed

lemma set_meta_inv:
  assumes "im_inv B im" "imFilter im' = imFilter im"
    "root (imTree im') = set_metadata f (root (imTree im)) k"
  shows "im_inv B im'"
    and "im_info im' x = (case im_info im x of None \<Rightarrow> None | Some (v, m) \<Rightarrow> Some (v, if x = k then f m else m))"
proof -
  have "tree_inv (root (imTree im))" using assms(1) by (simp add: im_inv_def)
  note upd = tm.upd_inv [OF this, of f k] tm.upd_info [OF this, of f k]
  show info: "im_info im' x = (case im_info im x of None \<Rightarrow> None | Some (v, m) \<Rightarrow> Some (v, if x = k then f m else m))" for x
    using upd assms(3) by simp
  have "im_info im' x \<noteq> None \<Longrightarrow> im_info im x \<noteq> None" for x
    using info [of x] by (simp split: option.splits)
  then show "im_inv B im'"
    using assms upd(1) unfolding im_inv_def by metis
qed

lemma SetOwner_info:
  assumes "im_inv B im"
  shows "im_inv B (SetOwner im d key)"
    and "im_info (SetOwner im d key) x = (case im_info im x of None \<Rightarrow> None
      | Some (v, m) \<Rightarrow> Some (v, if x = HashDomain d then m\<lparr>mdOwnerKey := key\<rparr> else m))"
  using set_meta_inv [OF assms, of "SetOwner im d key" "\<lambda>m. m\<lparr>mdOwnerKey := key\<rparr>" "HashDomain d"]
  by (simp_all add: SetOwner_def)

lemma SetListPrice_info:
  assumes "im_inv B im"
  shows "im_inv B (SetListPrice im d p)"
    and "im_info (SetListPrice im d p) x = (case im_info im x of None \<Rightarrow> None
      | Some (v, m) \<Rightarrow> Some (v, if x = HashDomain d then m\<lparr>mdListPrice := p\<rparr> else m))"
  using set_meta_inv [OF assms, of "SetListPrice im d p" "\<lambda>m. m\<lparr>mdListPrice := p\<rparr>" "HashDomain d"]
  by (simp_all add: SetListPrice_def)

lemma MarkAsSpent_info [simp]:
  "im_inv B (MarkAsSpent im j) = im_inv B im" "GetDomain B (MarkAsSpent im j) d = GetDomain B im d"
  "GetOwner (MarkAsSpent im j) d = GetOwner im d" "GetListPrice (MarkAsSpent im j) d = GetListPrice im d"
  "IsSpent (MarkAsSpent im j) i \<longleftrightarrow> i = j \<or> IsSpent im i"
  by (simp_all add: MarkAsSpent_def im_inv_def GetDomain_def GetOwner_def GetListPrice_def IsSpent_def)

lemma spent_set_meta [simp]:
  "IsSpent (SetOwner im d k) j = IsSpent im j" "IsSpent (SetListPrice im d p) j = IsSpent im j"
  by (simp_all add: SetOwner_def SetListPrice_def IsSpent_def)

lemmas im_views = GetDomain_info GetOwner_info GetListPrice_info SetOwner_info SetListPrice_info

lemma SetOwner_views:
  assumes "im_inv B im"
  shows "GetDomain B (SetOwner im d k) e = GetDomain B im e"
    "GetListPrice (SetOwner im d k) e = GetListPrice im e"
    "GetDomain B im d \<noteq> None \<Longrightarrow> GetOwner (SetOwner im d k) d = k"
    "HashDomain e \<noteq> HashDomain d \<Longrightarrow> GetOwner (SetOwner im d k) e = GetOwner im e"
  using assms by (auto simp: im_views split: option.splits)

lemma SetListPrice_views:
  assumes "im_inv B im"
  shows "GetDomain B (SetListPrice im d p) e = GetDomain B im e"
    "GetOwner (SetListPrice im d p) e = GetOwner im e"
    "GetDomain B im d \<noteq> None \<Longrightarrow> GetListPrice (SetListPrice im d p) d = p"
    "HashDomain e \<noteq> HashDomain d \<Longrightarrow> GetListPrice (SetListPrice im d p) e = GetListPrice im e"
  using assms by (auto simp: im_views split: option.splits)

lemma Add_views:
  assumes "im_inv B im" "Add B im d tx b i spd = Inr im'"
  shows "im_inv B im'" "GetDomain B im' d = Some tx"
    "HashDomain e \<noteq> HashDomain d \<Longrightarrow> GetDomain B im' e = GetDomain B im e"
    "GetOwner im' e = GetOwner im e" "GetListPrice im' e = GetListPrice im e"
proof -
  have inv': "im_inv B im'" and info: "\<And>k. im_info im' k = (if k = HashDomain d
      then Some (tx, case im_info im k of None \<Rightarrow> zero_DomainMetadata | Some (w, m) \<Rightarrow> m) else im_info im k)"
    using assms(2) by (auto intro: Add_spec [OF assms(1), of d tx b i spd])
  show "im_inv B im'" by (rule inv')
  show "GetDomain B im' d = Some tx"
    "HashDomain e \<noteq> HashDomain d \<Longrightarrow> GetDomain B im' e = GetDomain B im e"
    using inv' assms(1) by (simp_all add: GetDomain_info info)
  show "GetOwner im' e = GetOwner im e" "GetListPrice im' e = GetListPrice im e"
    by (simp_all add: GetOwner_info GetListPrice_info info zero_DomainMetadata_def split: option.splits)
qed

lemma Add_spent: "Add B im d tx b i spd = Inr im' \<Longrightarrow> IsSpent im' j = IsSpent im j"
  by (auto simp: Add_def bindR_eq_Inr Let_def IsSpent_def split: if_splits)

interpretation imx: domain_indexer "im_inv B" "IndexManagerOps B" for B
proof
  fix s d tx b i spd
  assume "im_inv B s"
  then show "\<exists>s'. diAdd (IndexManagerOps B) s d tx b i spd = Inr s'"
    by (auto simp: IndexManagerOps_def elim: Add_spec)
qed (simp_all add: IndexManagerOps_def Add_views Add_spent SetOwner_info SetListPrice_info SetOwner_views
    SetListPrice_views IsForSale_price)

text \<open>An exact set is a Bloom filter, for the examples.\<close>

definition sample_bloom :: "string fset bloom" where
  "sample_bloom = \<lparr>bloomNew = {||}, bloomAdd = (\<lambda>f s. finsert s f), bloomTest = (\<lambda>f s. s |\<in>| f)\<rparr>"

lemma sample_bloom_ok: "bloom_ok sample_bloom"
  by (simp add: bloom_ok_def sample_bloom_def)

end
