(* ===== verification/Overlay.thy ===== *)
theory Overlay
  imports Index
begin

text \<open>
  \<^verbatim>\<open>internal/index/index_overlay.go\<close>: the journal of index changes a block makes, read through to
  the real index and flushed by \<^verbatim>\<open>Commit\<close>. The journal is a Go map; the order in which a loop
  visits it is the argument \<open>ord\<close>, of which only \<open>enumerates\<close> may be assumed.
\<close>

record overlayEntry =
  oeTx :: "Transaction option"
  oeOwnerKey :: slice
  oeListPrice :: uint64
  oeAdded :: bool
  oeOwnerSet :: bool
  oeListPriceSet :: bool
  oeBlockIndex :: int64
  oeTxIndex :: int

definition zero_overlayEntry :: overlayEntry where
  "zero_overlayEntry = \<lparr>oeTx = None, oeOwnerKey = None, oeListPrice = 0, oeAdded = False,
     oeOwnerSet = False, oeListPriceSet = False, oeBlockIndex = 0, oeTxIndex = 0\<rparr>"

type_synonym journal = "(string, overlayEntry) fmap"

record 'f IndexOverlay =
  real :: "'f IndexManager"
  journal :: journal
  pendingSpent :: "int fset"
  ovSlotsPerDay :: int64

definition NewIndexOverlay :: "'f IndexManager \<Rightarrow> 'f IndexOverlay" where
  "NewIndexOverlay r = \<lparr>real = r, journal = fmempty, pendingSpent = {||}, ovSlotsPerDay = 0\<rparr>"

definition GetDomainO :: "'f bloom \<Rightarrow> 'f IndexOverlay \<Rightarrow> string \<Rightarrow> Transaction option" where
  "GetDomainO B ov domain =
     (case fmlookup (journal ov) domain of Some entry \<Rightarrow> oeTx entry | None \<Rightarrow> GetDomain B (real ov) domain)"

definition AddO :: "'f IndexOverlay \<Rightarrow> string \<Rightarrow> Transaction \<Rightarrow> int64 \<Rightarrow> int \<Rightarrow> int64
    \<Rightarrow> panic + 'f IndexOverlay" where
  "AddO ov domain tx blockIndex txIndex slotsPerDay =
     (let ov = ov\<lparr>ovSlotsPerDay := slotsPerDay\<rparr>;
          entry = (case fmlookup (journal ov) domain of None \<Rightarrow> zero_overlayEntry | Some e \<Rightarrow> e);
          entry = entry\<lparr>oeTx := Some tx, oeAdded := True, oeBlockIndex := blockIndex, oeTxIndex := txIndex\<rparr>
      in Inr (ov\<lparr>journal := fmupd domain entry (journal ov)\<rparr>))"

text \<open>The entry of a domain, created with the transaction of the real index if there is none.\<close>

definition entry_for :: "'f bloom \<Rightarrow> 'f IndexOverlay \<Rightarrow> string \<Rightarrow> overlayEntry" where
  "entry_for B ov domain =
     (case fmlookup (journal ov) domain of
        Some e \<Rightarrow> e
      | None \<Rightarrow> zero_overlayEntry\<lparr>oeTx := GetDomain B (real ov) domain\<rparr>)"

definition SetOwnerO :: "'f bloom \<Rightarrow> 'f IndexOverlay \<Rightarrow> string \<Rightarrow> slice \<Rightarrow> 'f IndexOverlay" where
  "SetOwnerO B ov domain ownerKey =
     (let entry = (entry_for B ov domain)\<lparr>oeOwnerKey := Some (sl ownerKey), oeOwnerSet := True\<rparr>
      in ov\<lparr>journal := fmupd domain entry (journal ov)\<rparr>)"

definition GetOwnerO :: "'f IndexOverlay \<Rightarrow> string \<Rightarrow> slice" where
  "GetOwnerO ov domain =
     (case fmlookup (journal ov) domain of
        Some entry \<Rightarrow> if oeOwnerSet entry then oeOwnerKey entry else GetOwner (real ov) domain
      | None \<Rightarrow> GetOwner (real ov) domain)"

definition SetListPriceO :: "'f bloom \<Rightarrow> 'f IndexOverlay \<Rightarrow> string \<Rightarrow> uint64 \<Rightarrow> 'f IndexOverlay" where
  "SetListPriceO B ov domain price =
     (let entry = (entry_for B ov domain)\<lparr>oeListPrice := price, oeListPriceSet := True\<rparr>
      in ov\<lparr>journal := fmupd domain entry (journal ov)\<rparr>)"

definition GetListPriceO :: "'f IndexOverlay \<Rightarrow> string \<Rightarrow> uint64" where
  "GetListPriceO ov domain =
     (case fmlookup (journal ov) domain of
        Some entry \<Rightarrow> if oeListPriceSet entry then oeListPrice entry else GetListPrice (real ov) domain
      | None \<Rightarrow> GetListPrice (real ov) domain)"

definition IsForSaleO :: "'f IndexOverlay \<Rightarrow> string \<Rightarrow> bool" where
  "IsForSaleO ov domain =
     (case fmlookup (journal ov) domain of
        Some entry \<Rightarrow> if oeListPriceSet entry then oeListPrice entry > 0 else IsForSale (real ov) domain
      | None \<Rightarrow> IsForSale (real ov) domain)"

fun first_tx :: "int \<Rightarrow> Transaction option list \<Rightarrow> Transaction option" where
  "first_tx txID [] = None"
| "first_tx txID (None # ts) = first_tx txID ts"
| "first_tx txID (Some t # ts) = (if TID t = txID then Some t else first_tx txID ts)"

definition entry_at :: "journal \<Rightarrow> string \<Rightarrow> overlayEntry" where
  "entry_at j d = the (fmlookup j d)"

definition GetTxByIDO :: "(journal \<Rightarrow> string list) \<Rightarrow> 'f IndexOverlay \<Rightarrow> int \<Rightarrow> Transaction option" where
  "GetTxByIDO ord ov txID =
     (case first_tx txID (map (\<lambda>d. oeTx (entry_at (journal ov) d)) (ord (journal ov))) of
        Some t \<Rightarrow> Some t
      | None \<Rightarrow> GetTxByID (real ov) txID)"

definition MarkAsSpentO :: "'f IndexOverlay \<Rightarrow> int \<Rightarrow> 'f IndexOverlay" where
  "MarkAsSpentO ov txID = ov\<lparr>pendingSpent := finsert txID (pendingSpent ov)\<rparr>"

definition IsSpentO :: "'f IndexOverlay \<Rightarrow> int \<Rightarrow> bool" where
  "IsSpentO ov txID \<longleftrightarrow> (if txID |\<in>| pendingSpent ov then True else IsSpent (real ov) txID)"

definition merge_entry ::
    "(string, DomainRecord) fmap \<Rightarrow> string \<Rightarrow> overlayEntry \<Rightarrow> (string, DomainRecord) fmap" where
  "merge_entry m domain entry =
     (let hashed = HashDomain domain in
      case (oeAdded entry, oeTx entry) of
        (True, Some tx) \<Rightarrow>
          fmupd hashed \<lparr>drDomain = hashed, drRecords = Records tx, drExpirySlot = ExpirySlot tx,
            drListPrice = (if oeListPriceSet entry then oeListPrice entry else 0),
            drOwnerKey = (if oeOwnerSet entry then oeOwnerKey entry else None)\<rparr> m
      | _ \<Rightarrow>
          (case fmlookup m hashed of
             None \<Rightarrow> m
           | Some existing \<Rightarrow>
               (let existing = (if oeOwnerSet entry then existing\<lparr>drOwnerKey := oeOwnerKey entry\<rparr> else existing);
                    existing = (if oeListPriceSet entry then existing\<lparr>drListPrice := oeListPrice entry\<rparr> else existing)
                in fmupd hashed existing m)))"

text \<open>
  The map keeps every record under its own \<^verbatim>\<open>Domain\<close>, so collecting its values in any order and
  sorting them by that field lists them by sorted key.
\<close>

definition GetIndexHashO :: "(journal \<Rightarrow> string list) \<Rightarrow> 'f IndexOverlay \<Rightarrow> slice" where
  "GetIndexHashO ord ov =
     (let m = foldl (\<lambda>m r. fmupd (drDomain r) r m) fmempty (GetAllRecords (imTree (real ov)));
          m = foldl (\<lambda>m d. merge_entry m d (entry_at (journal ov) d)) m (ord (journal ov))
      in records_digest (map (\<lambda>k. the (fmlookup m k)) (sorted_keys m)))"

definition commit_entry ::
    "'f bloom \<Rightarrow> int64 \<Rightarrow> 'f IndexManager \<Rightarrow> string \<Rightarrow> overlayEntry \<Rightarrow> panic + 'f IndexManager" where
  "commit_entry B slotsPerDay im domain entry =
     bindR (case (oeAdded entry, oeTx entry) of
              (True, Some tx) \<Rightarrow> Add B im domain tx (oeBlockIndex entry) (oeTxIndex entry) slotsPerDay
            | _ \<Rightarrow> Inr im) (\<lambda>im.
       let im = (if oeOwnerSet entry then SetOwner im domain (oeOwnerKey entry) else im)
       in Inr (if oeListPriceSet entry then SetListPrice im domain (oeListPrice entry) else im))"

fun commit_loop :: "'f bloom \<Rightarrow> int64 \<Rightarrow> journal \<Rightarrow> string list \<Rightarrow> 'f IndexManager \<Rightarrow> panic + 'f IndexManager" where
  "commit_loop B slotsPerDay j [] im = Inr im"
| "commit_loop B slotsPerDay j (d # ds) im =
     bindR (commit_entry B slotsPerDay im d (entry_at j d)) (commit_loop B slotsPerDay j ds)"

definition CommitOv :: "'f bloom \<Rightarrow> (journal \<Rightarrow> string list) \<Rightarrow> 'f IndexOverlay \<Rightarrow> panic + 'f IndexOverlay" where
  "CommitOv B ord ov =
     bindR (commit_loop B (ovSlotsPerDay ov) (journal ov) (ord (journal ov)) (real ov)) (\<lambda>im.
       Inr (ov\<lparr>real := foldl MarkAsSpent im (sorted_list_of_fset (pendingSpent ov))\<rparr>))"

definition IndexOverlayOps :: "'f bloom \<Rightarrow> (journal \<Rightarrow> string list) \<Rightarrow> 'f IndexOverlay DomainIndexer" where
  "IndexOverlayOps B ord = \<lparr>diGetDomain = GetDomainO B, diAdd = AddO, diSetOwner = SetOwnerO B,
     diGetOwner = GetOwnerO, diSetListPrice = SetListPriceO B, diGetListPrice = GetListPriceO,
     diIsForSale = IsForSaleO, diGetTxByID = GetTxByIDO ord, diGetIndexHash = GetIndexHashO ord,
     diMarkAsSpent = MarkAsSpentO, diIsSpent = IsSpentO, diCommit = CommitOv B ord\<rparr>"

subsection \<open>The overlay is a domain index\<close>

definition enumerates :: "(journal \<Rightarrow> string list) \<Rightarrow> bool" where
  "enumerates ord \<longleftrightarrow> (\<forall>j. set (ord j) = fset (fmdom j) \<and> distinct (ord j))"

lemma enumerates_sorted_keys: "enumerates sorted_keys"
  by (simp add: enumerates_def)

definition entry_ok :: "'f bloom \<Rightarrow> 'f IndexManager \<Rightarrow> string \<Rightarrow> overlayEntry \<Rightarrow> bool" where
  "entry_ok B im d e \<longleftrightarrow> (if oeAdded e then oeTx e \<noteq> None else oeTx e = GetDomain B im d)"

definition ov_inv :: "'f bloom \<Rightarrow> 'f IndexOverlay \<Rightarrow> bool" where
  "ov_inv B ov \<longleftrightarrow> im_inv B (real ov) \<and>
     (\<forall>d e. fmlookup (journal ov) d = Some e \<longrightarrow> entry_ok B (real ov) d e)"

lemma ov_inv_New: "im_inv B im \<Longrightarrow> ov_inv B (NewIndexOverlay im)"
  by (simp add: ov_inv_def NewIndexOverlay_def)

lemma ov_inv_upd:
  "ov_inv B ov \<Longrightarrow> entry_ok B (real ov) d e \<Longrightarrow> real ov' = real ov \<Longrightarrow>
   journal ov' = fmupd d e (journal ov) \<Longrightarrow> ov_inv B ov'"
  by (simp add: ov_inv_def)

lemma entry_for_ok: "ov_inv B ov \<Longrightarrow> entry_ok B (real ov) d (entry_for B ov d)"
  by (cases "fmlookup (journal ov) d")
    (simp_all add: ov_inv_def entry_for_def, simp add: entry_ok_def zero_overlayEntry_def)

lemma entry_ok_meta [simp]:
  "entry_ok B im d (e\<lparr>oeOwnerKey := k, oeOwnerSet := s\<rparr>) = entry_ok B im d e"
  "entry_ok B im d (e\<lparr>oeListPrice := p, oeListPriceSet := s\<rparr>) = entry_ok B im d e"
  by (simp_all add: entry_ok_def)

lemma AddO_views:
  assumes "AddO ov d tx b i spd = Inr ov'"
  shows "ov_inv B ov \<Longrightarrow> ov_inv B ov'" "GetDomainO B ov' d = Some tx"
    "e \<noteq> d \<Longrightarrow> GetDomainO B ov' e = GetDomainO B ov e"
    "GetOwnerO ov' e = GetOwnerO ov e" "GetListPriceO ov' e = GetListPriceO ov e"
    "IsSpentO ov' j = IsSpentO ov j"
proof -
  let ?e = "(case fmlookup (journal ov) d of None \<Rightarrow> zero_overlayEntry | Some e \<Rightarrow> e)
    \<lparr>oeTx := Some tx, oeAdded := True, oeBlockIndex := b, oeTxIndex := i\<rparr>"
  have ov': "ov' = ov\<lparr>ovSlotsPerDay := spd, journal := fmupd d ?e (journal ov)\<rparr>"
    using assms by (simp add: AddO_def Let_def)
  show "ov_inv B ov \<Longrightarrow> ov_inv B ov'"
    by (rule ov_inv_upd [of B ov d ?e]) (simp_all add: ov' entry_ok_def)
  show "GetDomainO B ov' d = Some tx" "e \<noteq> d \<Longrightarrow> GetDomainO B ov' e = GetDomainO B ov e"
    "GetOwnerO ov' e = GetOwnerO ov e" "GetListPriceO ov' e = GetListPriceO ov e"
    "IsSpentO ov' j = IsSpentO ov j"
    by (auto simp: ov' GetDomainO_def GetOwnerO_def GetListPriceO_def IsSpentO_def zero_overlayEntry_def
        split: option.splits)
qed

lemma SetOwnerO_views:
  "ov_inv B ov \<Longrightarrow> ov_inv B (SetOwnerO B ov d k)"
  "GetDomainO B (SetOwnerO B ov d k) e = GetDomainO B ov e"
  "GetOwnerO (SetOwnerO B ov d k) e = (if e = d then Some (sl k) else GetOwnerO ov e)"
  "GetListPriceO (SetOwnerO B ov d k) e = GetListPriceO ov e"
  "IsSpentO (SetOwnerO B ov d k) j = IsSpentO ov j"
proof -
  show "ov_inv B ov \<Longrightarrow> ov_inv B (SetOwnerO B ov d k)"
    by (rule ov_inv_upd [of B ov d "(entry_for B ov d)\<lparr>oeOwnerKey := Some (sl k), oeOwnerSet := True\<rparr>"])
      (simp_all add: SetOwnerO_def Let_def entry_for_ok)
qed (auto simp: SetOwnerO_def Let_def GetDomainO_def GetOwnerO_def GetListPriceO_def IsSpentO_def
      entry_for_def zero_overlayEntry_def split: option.splits)

lemma SetListPriceO_views:
  "ov_inv B ov \<Longrightarrow> ov_inv B (SetListPriceO B ov d p)"
  "GetDomainO B (SetListPriceO B ov d p) e = GetDomainO B ov e"
  "GetOwnerO (SetListPriceO B ov d p) e = GetOwnerO ov e"
  "GetListPriceO (SetListPriceO B ov d p) e = (if e = d then p else GetListPriceO ov e)"
  "IsSpentO (SetListPriceO B ov d p) j = IsSpentO ov j"
proof -
  show "ov_inv B ov \<Longrightarrow> ov_inv B (SetListPriceO B ov d p)"
    by (rule ov_inv_upd [of B ov d "(entry_for B ov d)\<lparr>oeListPrice := p, oeListPriceSet := True\<rparr>"])
      (simp_all add: SetListPriceO_def Let_def entry_for_ok)
qed (auto simp: SetListPriceO_def Let_def GetDomainO_def GetOwnerO_def GetListPriceO_def IsSpentO_def
      entry_for_def zero_overlayEntry_def split: option.splits)

lemma MarkAsSpentO_views:
  "ov_inv B (MarkAsSpentO ov j) = ov_inv B ov" "GetDomainO B (MarkAsSpentO ov j) d = GetDomainO B ov d"
  "GetOwnerO (MarkAsSpentO ov j) d = GetOwnerO ov d" "GetListPriceO (MarkAsSpentO ov j) d = GetListPriceO ov d"
  "IsSpentO (MarkAsSpentO ov j) i \<longleftrightarrow> i = j \<or> IsSpentO ov i"
  by (simp_all add: MarkAsSpentO_def ov_inv_def GetDomainO_def GetOwnerO_def GetListPriceO_def IsSpentO_def
      split: option.splits)

lemma IsForSaleO_price: "IsForSaleO ov d \<longleftrightarrow> GetListPriceO ov d > 0"
  by (simp add: IsForSaleO_def GetListPriceO_def IsForSale_price split: option.splits)

lemma HashDomain_neq: "HashDomain e \<noteq> HashDomain d \<Longrightarrow> e \<noteq> d"
  by blast

interpretation ovx: domain_indexer "ov_inv B" "IndexOverlayOps B ord" for B ord
  by unfold_locales
    (auto simp: IndexOverlayOps_def AddO_views SetOwnerO_views SetListPriceO_views MarkAsSpentO_views
      IsForSaleO_price dest!: HashDomain_neq, simp add: AddO_def Let_def)

subsection \<open>Committing installs what the overlay showed\<close>

text \<open>
  What one journal entry does to the real index: it decides the views of its own domain and
  leaves the domains with another hash alone.
\<close>

lemma commit_entry_spec:
  assumes inv: "im_inv B im" and ok: "entry_ok B im d e"
  obtains im' where "commit_entry B spd im d e = Inr im'" "im_inv B im'"
    "GetDomain B im' d = oeTx e"
    "oeTx e \<noteq> None \<Longrightarrow> GetOwner im' d = (if oeOwnerSet e then oeOwnerKey e else GetOwner im d)"
    "oeTx e \<noteq> None \<Longrightarrow> GetListPrice im' d = (if oeListPriceSet e then oeListPrice e else GetListPrice im d)"
    "\<And>c. HashDomain c \<noteq> HashDomain d \<Longrightarrow> GetDomain B im' c = GetDomain B im c \<and>
      GetOwner im' c = GetOwner im c \<and> GetListPrice im' c = GetListPrice im c"
    "\<And>j. IsSpent im' j = IsSpent im j"
proof -
  have "\<exists>im1. (case (oeAdded e, oeTx e) of
        (True, Some tx) \<Rightarrow> Add B im d tx (oeBlockIndex e) (oeTxIndex e) spd | _ \<Rightarrow> Inr im) = Inr im1 \<and>
      im_inv B im1 \<and> GetDomain B im1 d = oeTx e \<and> GetOwner im1 d = GetOwner im d \<and>
      GetListPrice im1 d = GetListPrice im d \<and>
      (\<forall>c. HashDomain c \<noteq> HashDomain d \<longrightarrow> GetDomain B im1 c = GetDomain B im c \<and>
        GetOwner im1 c = GetOwner im c \<and> GetListPrice im1 c = GetListPrice im c) \<and>
      (\<forall>j. IsSpent im1 j = IsSpent im j)"
  proof (cases "oeAdded e")
    case False
    with inv ok show ?thesis by (simp add: entry_ok_def)
  next
    case True
    with ok obtain tx where tx: "oeTx e = Some tx" by (auto simp: entry_ok_def)
    obtain im1 where im1: "Add B im d tx (oeBlockIndex e) (oeTxIndex e) spd = Inr im1"
      by (rule Add_spec [OF inv])
    with True tx Add_views [OF inv im1] Add_spent [OF im1] show ?thesis by auto
  qed
  then obtain im1 where im1: "(case (oeAdded e, oeTx e) of
        (True, Some tx) \<Rightarrow> Add B im d tx (oeBlockIndex e) (oeTxIndex e) spd | _ \<Rightarrow> Inr im) = Inr im1"
    "im_inv B im1" "GetDomain B im1 d = oeTx e" "GetOwner im1 d = GetOwner im d"
    "GetListPrice im1 d = GetListPrice im d"
    "\<And>c. HashDomain c \<noteq> HashDomain d \<Longrightarrow> GetDomain B im1 c = GetDomain B im c \<and>
        GetOwner im1 c = GetOwner im c \<and> GetListPrice im1 c = GetListPrice im c"
    "\<And>j. IsSpent im1 j = IsSpent im j" by blast
  define im2 where "im2 = (if oeOwnerSet e then SetOwner im1 d (oeOwnerKey e) else im1)"
  define im3 where "im3 = (if oeListPriceSet e then SetListPrice im2 d (oeListPrice e) else im2)"
  have im2: "im_inv B im2" using im1(2) by (simp add: im2_def SetOwner_info)
  show thesis
  proof (rule that [of im3])
    show "commit_entry B spd im d e = Inr im3"
      using im1(1) by (simp add: commit_entry_def im2_def im3_def Let_def)
  qed (use im1(2-) im2 in \<open>auto simp: im3_def im2_def SetListPrice_info SetOwner_views SetListPrice_views\<close>)
qed

definition same_views :: "'f bloom \<Rightarrow> 'f IndexManager \<Rightarrow> 'f IndexManager \<Rightarrow> string \<Rightarrow> bool" where
  "same_views B im im' c \<longleftrightarrow> GetDomain B im' c = GetDomain B im c \<and>
     GetOwner im' c = GetOwner im c \<and> GetListPrice im' c = GetListPrice im c"

definition entry_views :: "'f bloom \<Rightarrow> 'f IndexManager \<Rightarrow> 'f IndexManager \<Rightarrow> string \<Rightarrow> overlayEntry \<Rightarrow> bool" where
  "entry_views B im im' d e \<longleftrightarrow> GetDomain B im' d = oeTx e \<and> (oeTx e \<noteq> None \<longrightarrow>
     GetOwner im' d = (if oeOwnerSet e then oeOwnerKey e else GetOwner im d) \<and>
     GetListPrice im' d = (if oeListPriceSet e then oeListPrice e else GetListPrice im d))"

lemma entry_ok_same: "same_views B im im' d \<Longrightarrow> entry_ok B im' d e = entry_ok B im d e"
  by (simp add: same_views_def entry_ok_def)

lemma commit_loop_spec:
  assumes "im_inv B im" "distinct ds" "inj_on HashDomain (set ds)"
    "\<forall>d \<in> set ds. entry_ok B im d (entry_at j d)"
  shows "\<exists>im'. commit_loop B spd j ds im = Inr im' \<and> im_inv B im' \<and>
    (\<forall>d \<in> set ds. entry_views B im im' d (entry_at j d)) \<and>
    (\<forall>c. HashDomain c \<notin> HashDomain ` set ds \<longrightarrow> same_views B im im' c) \<and>
    (\<forall>i. IsSpent im' i = IsSpent im i)"
  using assms
proof (induction ds arbitrary: im)
  case Nil
  then show ?case by (simp add: same_views_def)
next
  case (Cons d ds)
  have ok: "entry_ok B im d (entry_at j d)" using Cons.prems(4) by simp
  obtain im1 where im1: "commit_entry B spd im d (entry_at j d) = Inr im1" "im_inv B im1"
    "entry_views B im im1 d (entry_at j d)"
    "\<And>c. HashDomain c \<noteq> HashDomain d \<Longrightarrow> same_views B im im1 c" "\<And>i. IsSpent im1 i = IsSpent im i"
    by (rule commit_entry_spec [OF Cons.prems(1) ok, of spd]) (simp add: same_views_def entry_views_def)
  have neq: "HashDomain c \<noteq> HashDomain d" if "c \<in> set ds" for c
    using that Cons.prems(2) inj_onD [OF Cons.prems(3), of c d] by auto
  have "\<forall>c \<in> set ds. entry_ok B im1 c (entry_at j c)"
    using Cons.prems(4) entry_ok_same [OF im1(4) [OF neq]] by simp
  then obtain im' where im': "commit_loop B spd j ds im1 = Inr im'" "im_inv B im'"
    "\<And>c. c \<in> set ds \<Longrightarrow> entry_views B im1 im' c (entry_at j c)"
    "\<And>c. HashDomain c \<notin> HashDomain ` set ds \<Longrightarrow> same_views B im1 im' c"
    "\<And>i. IsSpent im' i = IsSpent im1 i"
    using Cons.IH [OF im1(2)] Cons.prems(2,3) by (auto intro: inj_on_subset)
  have "HashDomain d \<notin> HashDomain ` set ds" using neq by (metis imageE)
  then have "same_views B im1 im' d" by (rule im'(4))
  then have "entry_views B im im' d (entry_at j d)"
    using im1(3) by (simp add: entry_views_def same_views_def)
  moreover have "entry_views B im im' c (entry_at j c)" if "c \<in> set ds" for c
    using im'(3) [OF that] im1(4) [OF neq [OF that]] by (simp add: entry_views_def same_views_def)
  moreover have "same_views B im im' c" if "HashDomain c \<notin> HashDomain ` set (d # ds)" for c
    using that im'(4) [of c] im1(4) [of c] by (simp add: same_views_def)
  ultimately show ?case using im1(1,5) im'(1,2,5) by simp
qed

lemma foldl_MarkAsSpent:
  "im_inv B (foldl MarkAsSpent im is) = im_inv B im"
  "GetDomain B (foldl MarkAsSpent im is) d = GetDomain B im d"
  "GetOwner (foldl MarkAsSpent im is) d = GetOwner im d"
  "GetListPrice (foldl MarkAsSpent im is) d = GetListPrice im d"
  "IsSpent (foldl MarkAsSpent im is) i \<longleftrightarrow> i \<in> set is \<or> IsSpent im i"
  by (induction "is" arbitrary: im) auto

lemma CommitOv_spec:
  assumes inv: "ov_inv B ov" and ord: "enumerates ord"
    and inj: "inj_on HashDomain (insert d (fset (fmdom (journal ov))))"
  shows "\<exists>ov'. CommitOv B ord ov = Inr ov' \<and> im_inv B (real ov') \<and>
    GetDomain B (real ov') d = GetDomainO B ov d \<and>
    (GetDomainO B ov d \<noteq> None \<longrightarrow> GetOwner (real ov') d = GetOwnerO ov d \<and>
       GetListPrice (real ov') d = GetListPriceO ov d) \<and>
    IsSpent (real ov') i = IsSpentO ov i"
proof -
  let ?ds = "ord (journal ov)"
  have ds: "set ?ds = fset (fmdom (journal ov))" "distinct ?ds" using ord by (auto simp: enumerates_def)
  have at: "fmlookup (journal ov) c = Some (entry_at (journal ov) c)" if "c \<in> set ?ds" for c
    using that ds by (auto simp: entry_at_def fmlookup_dom_iff)
  then have "\<forall>c \<in> set ?ds. entry_ok B (real ov) c (entry_at (journal ov) c)"
    using inv by (auto simp: ov_inv_def)
  moreover have "im_inv B (real ov)" "inj_on HashDomain (set ?ds)"
    using inv inj ds by (auto simp: ov_inv_def)
  ultimately obtain im' where im': "commit_loop B (ovSlotsPerDay ov) (journal ov) ?ds (real ov) = Inr im'"
    "im_inv B im'" "\<And>c. c \<in> set ?ds \<Longrightarrow> entry_views B (real ov) im' c (entry_at (journal ov) c)"
    "\<And>c. HashDomain c \<notin> HashDomain ` set ?ds \<Longrightarrow> same_views B (real ov) im' c"
    "\<And>i. IsSpent im' i = IsSpent (real ov) i"
    using commit_loop_spec [of B "real ov" ?ds "journal ov" "ovSlotsPerDay ov"] ds(2) by blast
  have "GetDomain B im' d = GetDomainO B ov d \<and> (GetDomainO B ov d \<noteq> None \<longrightarrow>
      GetOwner im' d = GetOwnerO ov d \<and> GetListPrice im' d = GetListPriceO ov d)"
  proof (cases "d \<in> set ?ds")
    case True
    with im'(3) [OF True] at [OF True] show ?thesis
      by (simp add: entry_views_def GetDomainO_def GetOwnerO_def GetListPriceO_def)
  next
    case False
    then have "fmlookup (journal ov) d = None" using ds by (simp add: fmdom_notD)
    moreover have "HashDomain d \<notin> HashDomain ` set ?ds" using False inj ds by (auto dest: inj_onD)
    ultimately show ?thesis
      using im'(4) [of d] by (simp add: same_views_def GetDomainO_def GetOwnerO_def GetListPriceO_def)
  qed
  then show ?thesis
    using im'(1,2,5) by (simp add: CommitOv_def foldl_MarkAsSpent IsSpentO_def)
qed

subsection \<open>The overlay digest\<close>

definition merge_record :: "string \<Rightarrow> overlayEntry \<Rightarrow> DomainRecord option \<Rightarrow> DomainRecord option" where
  "merge_record domain entry old = fmlookup (merge_entry
     (case old of None \<Rightarrow> fmempty | Some r \<Rightarrow> fmupd (HashDomain domain) r fmempty) domain entry) (HashDomain domain)"

lemma lookup_merge_entry:
  "fmlookup (merge_entry m d e) k =
   (if k = HashDomain d then merge_record d e (fmlookup m k) else fmlookup m k)"
  by (auto simp: merge_entry_def merge_record_def Let_def split: option.splits bool.splits)

lemma lookup_merge_other:
  "k \<notin> HashDomain ` set ds \<Longrightarrow>
   fmlookup (foldl (\<lambda>m d. merge_entry m d (entry_at j d)) m ds) k = fmlookup m k"
  by (induction ds arbitrary: m) (auto simp: lookup_merge_entry)

lemma lookup_merge_all:
  assumes "distinct ds" "inj_on HashDomain (set ds)" "d \<in> set ds"
  shows "fmlookup (foldl (\<lambda>m d. merge_entry m d (entry_at j d)) m ds) (HashDomain d) =
    merge_record d (entry_at j d) (fmlookup m (HashDomain d))"
  using assms
proof (induction ds arbitrary: m)
  case (Cons c ds)
  then have neq: "HashDomain c \<notin> HashDomain ` set ds" by auto
  show ?case
  proof (cases "d = c")
    case True
    then show ?thesis using neq by (simp add: lookup_merge_entry lookup_merge_other)
  next
    case False
    then have "d \<in> set ds" using Cons.prems(3) by simp
    moreover from this have "HashDomain d \<noteq> HashDomain c" using neq by (metis imageI)
    ultimately show ?thesis using Cons by (simp add: lookup_merge_entry)
  qed
qed simp

lemma GetIndexHashO_order:
  assumes "enumerates ord" "enumerates ord'" "inj_on HashDomain (fset (fmdom (journal ov)))"
  shows "GetIndexHashO ord ov = GetIndexHashO ord' ov"
proof -
  let ?j = "journal ov"
  have o: "set (ord ?j) = fset (fmdom ?j)" "distinct (ord ?j)" "set (ord' ?j) = fset (fmdom ?j)" "distinct (ord' ?j)"
    using assms by (auto simp: enumerates_def)
  have "foldl (\<lambda>m d. merge_entry m d (entry_at ?j d)) m (ord ?j) =
      foldl (\<lambda>m d. merge_entry m d (entry_at ?j d)) m (ord' ?j)" for m
  proof (rule fmap_ext)
    fix k
    show "fmlookup (foldl (\<lambda>m d. merge_entry m d (entry_at ?j d)) m (ord ?j)) k =
      fmlookup (foldl (\<lambda>m d. merge_entry m d (entry_at ?j d)) m (ord' ?j)) k"
      using o assms(3) by (cases "k \<in> HashDomain ` fset (fmdom ?j)") (auto simp: lookup_merge_all lookup_merge_other)
  qed
  then show ?thesis by (simp add: GetIndexHashO_def)
qed

text \<open>
  The snapshot is keyed by domain name and the journal by the hash of the name, so a change of
  owner or price of a domain that is only in the snapshot finds no record to change.
\<close>

lemma lookup_snapshot:
  "k \<notin> drDomain ` set rs \<Longrightarrow> fmlookup (foldl (\<lambda>m r. fmupd (drDomain r) r m) m rs) k = fmlookup m k"
  by (induction rs arbitrary: m) auto

lemma ord_singleton:
  assumes "enumerates ord"
  shows "ord (fmupd d e fmempty) = [d]"
proof -
  have s: "set (ord (fmupd d e fmempty)) = {d}" "distinct (ord (fmupd d e fmempty))"
    using assms by (auto simp: enumerates_def)
  then have "length (ord (fmupd d e fmempty)) = 1" by (metis card.empty card_insert_disjoint distinct_card empty_iff finite.emptyI One_nat_def)
  with s(1) show ?thesis by (cases "ord (fmupd d e fmempty)") auto
qed

lemma ord_empty: "enumerates ord \<Longrightarrow> ord fmempty = []"
  unfolding enumerates_def by (metis fmdom_empty bot_fset.rep_eq set_empty)

lemma market_change_invisible:
  assumes "enumerates ord" "journal ov = fmempty"
    "HashDomain d \<notin> drDomain ` set (GetAllRecords (imTree (real ov)))"
  shows "GetIndexHashO ord (SetOwnerO B ov d k) = GetIndexHashO ord ov"
    and "GetIndexHashO ord (SetListPriceO B ov d p) = GetIndexHashO ord ov"
  using assms lookup_snapshot [OF assms(3), of fmempty]
  by (simp_all add: GetIndexHashO_def SetOwnerO_def SetListPriceO_def Let_def ord_singleton ord_empty
      entry_at_def merge_entry_def entry_for_def zero_overlayEntry_def)

subsection \<open>Properties\<close>

text \<open>An overlay over an empty index that has registered one domain.\<close>

definition sample_overlay :: "Transaction \<Rightarrow> bytes \<Rightarrow> uint64 \<Rightarrow> string fset IndexOverlay" where
  "sample_overlay tx owner price = \<lparr>real = NewIndexManager sample_bloom,
     journal = fmupd (DomainName tx) \<lparr>oeTx = Some tx, oeOwnerKey = Some owner, oeListPrice = price,
       oeAdded = True, oeOwnerSet = True, oeListPriceSet = True, oeBlockIndex = 1, oeTxIndex = 0\<rparr> fmempty,
     pendingSpent = {||}, ovSlotsPerDay = 10\<rparr>"

lemma sample_overlay_inv: "ov_inv sample_bloom (sample_overlay tx owner price)"
  by (auto simp: ov_inv_def sample_overlay_def entry_ok_def im_inv_New sample_bloom_ok split: if_split_asm)

lemma sample_overlay_views [simp]:
  "GetDomainO sample_bloom (sample_overlay tx owner price) (DomainName tx) = Some tx"
  "GetOwnerO (sample_overlay tx owner price) (DomainName tx) = Some owner"
  "GetListPriceO (sample_overlay tx owner price) (DomainName tx) = price"
  "IsForSaleO (sample_overlay tx owner price) (DomainName tx) \<longleftrightarrow> price > 0"
  by (simp_all add: sample_overlay_def GetDomainO_def GetOwnerO_def GetListPriceO_def IsForSaleO_def)

text \<open>C14: \<open>Commit\<close> of the index overlay installs what the overlay showed: whatever order the journal is
  visited in, it does not panic, keeps the invariant of the index, and afterwards the real index
  answers every lookup of a domain and of a spent transaction as the overlay did, and every lookup of
  the owner and the price of a domain that exists, provided no two of the domains concerned have the
  same hash.\<close>

theorem overlay_commit_refines:
  assumes "ov_inv B ov" and "enumerates ord" and "inj_on HashDomain (insert d (fset (fmdom (journal ov))))"
  shows "\<exists>ov'. CommitOv B ord ov = Inr ov' \<and> im_inv B (real ov') \<and>
    GetDomain B (real ov') d = GetDomainO B ov d \<and>
    (GetDomainO B ov d \<noteq> None \<longrightarrow> GetOwner (real ov') d = GetOwnerO ov d \<and>
       GetListPrice (real ov') d = GetListPriceO ov d) \<and>
    IsSpent (real ov') i = IsSpentO ov i"
  using assms by (rule CommitOv_spec)

theorem overlay_commit_refines_witness:
  "let tx = zero_Transaction\<lparr>DomainName := ''a.com'', TID := 4\<rparr> in
   \<exists>ov'. CommitOv sample_bloom sorted_keys (sample_overlay tx [1, 2] 30) = Inr ov' \<and>
     GetDomain sample_bloom (real ov') ''a.com'' = Some tx \<and> GetOwner (real ov') ''a.com'' = Some [1, 2] \<and>
     GetListPrice (real ov') ''a.com'' = 30"
proof -
  define tx where "tx = zero_Transaction\<lparr>DomainName := ''a.com'', TID := 4\<rparr>"
  have d: "DomainName tx = ''a.com''" by (simp add: tx_def)
  have "inj_on HashDomain (insert ''a.com'' (fset (fmdom (journal (sample_overlay tx [1, 2] 30)))))"
    by (simp add: sample_overlay_def d)
  from overlay_commit_refines [OF sample_overlay_inv enumerates_sorted_keys this]
  show ?thesis
    using sample_overlay_views [of tx "[1, 2]" 30] unfolding d by (auto simp: Let_def tx_def)
qed

text \<open>The state digest of the overlay does not depend on the order in which Go visits the journal
  map, so that every validator computes the same \<^verbatim>\<open>IndexHash\<close> for the same changes.\<close>

theorem index_digest_deterministic:
  assumes "enumerates ord" "enumerates ord'" "inj_on HashDomain (fset (fmdom (journal ov)))"
  shows "GetIndexHashO ord ov = GetIndexHashO ord' ov"
  using assms by (rule GetIndexHashO_order)

theorem index_digest_deterministic_witness:
  "GetIndexHashO sorted_keys (sample_overlay zero_Transaction [1] 2) =
   GetIndexHashO (\<lambda>j. rev (sorted_keys j)) (sample_overlay zero_Transaction [1] 2)"
proof -
  have "enumerates (\<lambda>j. rev (sorted_keys j))" by (simp add: enumerates_def)
  with enumerates_sorted_keys show ?thesis
    by (rule index_digest_deterministic) (simp add: sample_overlay_def)
qed

text \<open>C38: the state digest does not cover the market: on a fresh overlay, changing the owner or the list
  price of a domain that an earlier block registered leaves \<^verbatim>\<open>IndexHash\<close> as it was, because the
  snapshot is keyed by the records' own domain field and the journal by the hash of the name.\<close>

theorem market_changes_not_hashed:
  assumes "enumerates ord" "journal ov = fmempty"
    "HashDomain d \<notin> drDomain ` set (GetAllRecords (imTree (real ov)))"
  shows "GetIndexHashO ord (SetOwnerO B ov d k) = GetIndexHashO ord ov \<and>
    GetIndexHashO ord (SetListPriceO B ov d p) = GetIndexHashO ord ov"
  using market_change_invisible [OF assms] by simp

theorem market_changes_not_hashed_witness:
  "let tx = zero_Transaction\<lparr>DomainName := ''a.com''\<rparr>;
       ov = NewIndexOverlay (NewIndexManager sample_bloom
         \<lparr>imTree := \<lparr>root = Node (HashDomain ''a.com'') tx zero_DomainMetadata 1 Nil Nil\<rparr>\<rparr>)
   in GetIndexHashO sorted_keys (SetOwnerO sample_bloom ov ''a.com'' (Some [9])) = GetIndexHashO sorted_keys ov"
proof -
  define tx where "tx = zero_Transaction\<lparr>DomainName := ''a.com''\<rparr>"
  define ov where "ov = NewIndexOverlay (NewIndexManager sample_bloom
    \<lparr>imTree := \<lparr>root = Node (HashDomain ''a.com'') tx zero_DomainMetadata 1 Nil Nil\<rparr>\<rparr>)"
  have "length (HashDomain ''a.com'') = 64" by (simp add: HashDomain_def)
  then have "HashDomain ''a.com'' \<noteq> ''a.com''" by auto
  then have "HashDomain ''a.com'' \<notin> drDomain ` set (GetAllRecords (imTree (real ov)))"
    by (simp add: ov_def NewIndexOverlay_def GetAllRecords_def tx_def inOrderTraversal_inorder domain_record_def)
  from market_changes_not_hashed [OF enumerates_sorted_keys _ this, of sample_bloom] show ?thesis
    unfolding tx_def [symmetric] ov_def [symmetric] Let_def by (simp add: ov_def NewIndexOverlay_def)
qed

end
