(* ===== verification/Block.thy ===== *)
theory Block
  imports Overlay
begin

text \<open>
  \<^verbatim>\<open>internal/blockchain/block.go\<close> (blocks, signing, hashing, genesis, Merkle proofs) and
  \<^verbatim>\<open>merkle_tree.go\<close>. The gob encoders and decoders of the platform are the fields of a record
  \<open>codec\<close>; a decoding error is the \<^verbatim>\<open>log.Panic\<close> of the sources.
\<close>

record Block =
  BIndex :: int64
  BTimestamp :: int64
  SlotNumber :: int64
  SlotLeader :: bytes
  BSignature :: bytes
  IndexHash :: bytes
  BalanceLedgerHash :: bytes
  MerkleRootHash :: bytes
  StakeData :: "(string, uint64) fmap"
  Transactions :: "Transaction list"
  PrevHash :: bytes
  BHash :: bytes
  CommitStoreHash :: bytes
  StakeMapHash :: bytes
  UnstakeQueueHash :: bytes
  DRGSeed :: uint64

record codec =
  gobTx :: "Transaction \<Rightarrow> bytes"
  gobTxDec :: "bytes \<Rightarrow> Transaction option"
  gobBlock :: "Block \<Rightarrow> bytes"
  gobBlockDec :: "bytes \<Rightarrow> Block option"

definition DeserializeTx :: "codec \<Rightarrow> bytes \<Rightarrow> panic + Transaction" where
  "DeserializeTx cd d = (case gobTxDec cd d of None \<Rightarrow> Inl LogPanic | Some tx \<Rightarrow> Inr tx)"

definition DeserializeBlock :: "codec \<Rightarrow> bytes \<Rightarrow> panic + Block" where
  "DeserializeBlock cd d = (case gobBlockDec cd d of None \<Rightarrow> Inl LogPanic | Some b \<Rightarrow> Inr b)"

subsection \<open>Merkle tree\<close>

text \<open>A node has either no children or two.\<close>

datatype MerkleNode = MLeaf (Data: bytes) | MInner MerkleNode MerkleNode (Data: bytes)

definition NewMerkleLeaf :: "bytes \<Rightarrow> MerkleNode" where
  "NewMerkleLeaf data = MLeaf (sha256 data)"

definition NewMerkleInner :: "MerkleNode \<Rightarrow> MerkleNode \<Rightarrow> MerkleNode" where
  "NewMerkleInner left right = MInner left right (sha256 (Data left @ Data right))"

fun newLevel :: "MerkleNode list \<Rightarrow> MerkleNode list" where
  "newLevel (a # b # nodes) = NewMerkleInner a b # newLevel nodes"
| "newLevel _ = []"

lemma length_newLevel [simp]: "length (newLevel nodes) = length nodes div 2"
  by (induction nodes rule: newLevel.induct) auto

function merkle_levels :: "MerkleNode list \<Rightarrow> MerkleNode list" where
  "merkle_levels nodes = (if length nodes > 1 then merkle_levels (newLevel nodes) else nodes)"
  by auto
termination
  by (relation "measure length") auto

declare merkle_levels.simps [simp del]

text \<open>The nil pointer for no data, else the root node.\<close>

definition NewMerkleTree :: "bytes list \<Rightarrow> MerkleNode option" where
  "NewMerkleTree data =
     (if length data = 0 then None
      else
        (let data = (if length data mod 2 \<noteq> 0 then data @ [last data] else data);
             nodes = map NewMerkleLeaf data
         in Some (merkle_levels nodes ! 0)))"

definition SetupMerkleTree :: "codec \<Rightarrow> Block \<Rightarrow> panic + bytes" where
  "SetupMerkleTree cd b =
     (case NewMerkleTree (map (gobTx cd) (Transactions b)) of
        None \<Rightarrow> Inl NilDereference
      | Some rootNode \<Rightarrow> Inr (Data rootNode))"

record MerkleProof =
  mpTxHash :: bytes
  ProofPath :: "bytes list"
  Directions :: "bool list"
  mpMerkleRoot :: bytes

definition pad_level :: "bytes list \<Rightarrow> bytes list" where
  "pad_level level = (if length level mod 2 \<noteq> 0 then level @ [last level] else level)"

fun nextLevel :: "bytes list \<Rightarrow> bytes list" where
  "nextLevel (a # b # level) = sha256 (a @ b) # nextLevel level"
| "nextLevel _ = []"

lemma length_nextLevel [simp]: "length (nextLevel level) = length level div 2"
  by (induction level rule: nextLevel.induct) auto

lemma length_pad_level: "length (pad_level level) = length level + length level mod 2"
  by (auto simp: pad_level_def mod_2_eq_odd)

text \<open>The proof path, the directions and the last level.\<close>

function proof_loop :: "bytes list \<Rightarrow> nat \<Rightarrow> bytes list \<Rightarrow> bool list \<Rightarrow> bytes list \<times> bool list \<times> bytes list" where
  "proof_loop level index proofPath directions =
     (if length level > 1 then
        (let level = pad_level level;
             (proofPath, directions) =
               (if index mod 2 = 0 then (proofPath @ [level ! (index + 1)], directions @ [True])
                else (proofPath @ [level ! (index - 1)], directions @ [False]))
         in proof_loop (nextLevel level) (index div 2) proofPath directions)
      else (proofPath, directions, level))"
  by auto
termination
  by (relation "measure (\<lambda>(level, _). length level)")
    (auto simp: length_pad_level mod_2_eq_odd elim: oddE)

declare proof_loop.simps [simp del]

definition GenerateMerkleProof :: "codec \<Rightarrow> Block \<Rightarrow> int \<Rightarrow> MerkleProof option" where
  "GenerateMerkleProof cd b txIndex =
     (if txIndex < 0 \<or> txIndex \<ge> int (length (Transactions b)) then None
      else
        (let leaves = map (\<lambda>tx. sha256 (gobTx cd tx)) (Transactions b);
             (proofPath, directions, level) = proof_loop leaves (nat txIndex) [] []
         in Some \<lparr>mpTxHash = leaves ! nat txIndex, ProofPath = proofPath, Directions = directions,
                  mpMerkleRoot = level ! 0\<rparr>))"

fun verify_loop :: "bytes \<Rightarrow> bytes list \<Rightarrow> bool list \<Rightarrow> panic + bytes" where
  "verify_loop currentHash [] directions = Inr currentHash"
| "verify_loop currentHash (sibling # path) [] = Inl IndexOutOfRange"
| "verify_loop currentHash (sibling # path) (right # directions) =
     verify_loop (sha256 (if right then currentHash @ sibling else sibling @ currentHash)) path directions"

definition VerifyMerkleProof :: "MerkleProof option \<Rightarrow> panic + bool" where
  "VerifyMerkleProof p =
     (case p of
        None \<Rightarrow> Inr False
      | Some prf \<Rightarrow>
          bindR (verify_loop (mpTxHash prf) (ProofPath prf) (Directions prf))
            (\<lambda>currentHash. Inr (currentHash = mpMerkleRoot prf)))"

subsection \<open>Blocks\<close>

definition BlockSerializeForSigning :: "Block \<Rightarrow> bytes" where
  "BlockSerializeForSigning b =
     sha256 (concat [IntToByteArr (BIndex b), IntToByteArr (BTimestamp b), IntToByteArr (SlotNumber b),
       SlotLeader b, IndexHash b, MerkleRootHash b, StakeMapHash b, UnstakeQueueHash b, PrevHash b])"

definition ComputeHash :: "Block \<Rightarrow> bytes" where
  "ComputeHash b =
     sha256 (concat [IntToByteArr (BIndex b), IntToByteArr (BTimestamp b), IntToByteArr (SlotNumber b),
       SlotLeader b, BSignature b, IndexHash b, BalanceLedgerHash b, CommitStoreHash b,
       MerkleRootHash b, StakeMapHash b, UnstakeQueueHash b, PrevHash b])"

definition SignBlock :: "crypto \<Rightarrow> PrivateKey \<Rightarrow> Block \<Rightarrow> panic + bytes" where
  "SignBlock cr privateKey b =
     (let hash = sha256 (BlockSerializeForSigning b) in
      case ecdsa_Sign cr privateKey hash of
        None \<Rightarrow> Inl LogPanic
      | Some (r, s) \<Rightarrow>
          bindR (pad32 (bytes_of_nat r)) (\<lambda>rPadded.
          bindR (pad32 (bytes_of_nat s)) (\<lambda>sPadded. Inr (rPadded @ sPadded))))"

definition VerifyBlock :: "crypto \<Rightarrow> bytes \<Rightarrow> Block \<Rightarrow> bool" where
  "VerifyBlock cr publicKeyBytes b =
     (case BytesToPublicKey cr publicKeyBytes of
        None \<Rightarrow> False
      | Some publicKey \<Rightarrow>
          (let hash = sha256 (BlockSerializeForSigning b) in
           if length (BSignature b) \<noteq> 64 then False
           else
             (let r = nat_of_bytes (take 32 (BSignature b));
                  s = nat_of_bytes (drop 32 (BSignature b))
              in ecdsa_Verify cr publicKey hash r s)))"

definition zero_Block :: Block where
  "zero_Block = \<lparr>BIndex = 0, BTimestamp = 0, SlotNumber = 0, SlotLeader = [], BSignature = [],
     IndexHash = [], BalanceLedgerHash = [], MerkleRootHash = [], StakeData = fmempty,
     Transactions = [], PrevHash = [], BHash = [], CommitStoreHash = [], StakeMapHash = [],
     UnstakeQueueHash = [], DRGSeed = 0\<rparr>"

definition NewBlock ::
    "crypto \<Rightarrow> codec \<Rightarrow> int64 \<Rightarrow> int64 \<Rightarrow> int64 \<Rightarrow> bytes \<Rightarrow> bytes \<Rightarrow> bytes \<Rightarrow> bytes \<Rightarrow> Transaction list \<Rightarrow> bytes
     \<Rightarrow> bytes \<Rightarrow> bytes \<Rightarrow> (string, uint64) fmap \<Rightarrow> PrivateKey \<Rightarrow> panic + Block" where
  "NewBlock cr cd now index slotNumber slotLeader indexHash balanceLedgerHash commitStoreHash
     transactions prevHash stakeMapHash unstakeQueueHash stakeData privateKey =
     (let block = zero_Block\<lparr>BIndex := index, BTimestamp := now, SlotNumber := slotNumber,
            SlotLeader := slotLeader, IndexHash := indexHash, BalanceLedgerHash := balanceLedgerHash,
            CommitStoreHash := commitStoreHash, Transactions := transactions, PrevHash := prevHash,
            StakeMapHash := stakeMapHash, UnstakeQueueHash := unstakeQueueHash, StakeData := stakeData\<rparr>
      in
      bindR (SetupMerkleTree cd block) (\<lambda>mroot.
        let block = block\<lparr>MerkleRootHash := mroot\<rparr> in
        bindR (SignBlock cr privateKey block) (\<lambda>sig.
          let block = block\<lparr>BSignature := sig\<rparr> in
          Inr (block\<lparr>BHash := ComputeHash block\<rparr>))))"

definition GetStakeSnapshot :: "StakeMap \<Rightarrow> (string, uint64) fmap" where
  "GetStakeSnapshot sm = GetAll sm"

definition NewGenesisBlock ::
    "crypto \<Rightarrow> int64 \<Rightarrow> bytes \<Rightarrow> PrivateKey \<Rightarrow> bytes list \<Rightarrow> bytes \<Rightarrow> panic + Block" where
  "NewGenesisBlock cr now slotLeader privateKey registryKeys randomness =
     (if length registryKeys = 0 then Inl LogPanic
      else
        (let stakeData = foldl (\<lambda>m key. fmupd (hex key) 0 m) fmempty registryKeys;
             genesisBlock = zero_Block\<lparr>BIndex := 0, BTimestamp := now, SlotNumber := 0,
               SlotLeader := slotLeader, StakeData := stakeData, PrevHash := randomness,
               StakeMapHash := StakeMapDigest NewStakeMap,
               UnstakeQueueHash := UnstakeQueueDigest NewUnstakeQueue\<rparr>
         in
         bindR (SignBlock cr privateKey genesisBlock) (\<lambda>sig.
           let genesisBlock = genesisBlock\<lparr>BSignature := sig\<rparr> in
           Inr (genesisBlock\<lparr>BHash := ComputeHash genesisBlock\<rparr>))))"

definition ValidateGenesisBlock :: "crypto \<Rightarrow> Block \<Rightarrow> bytes list \<Rightarrow> bytes \<Rightarrow> bool" where
  "ValidateGenesisBlock cr block registryKeys slotLeaderKey =
     (if BIndex block \<noteq> 0 then False
      else if SlotLeader block \<noteq> slotLeaderKey then False
      else if \<not> VerifyBlock cr slotLeaderKey block then False
      else if length (sorted_keys (StakeData block)) \<noteq> length registryKeys then False
      else if \<not> list_all (\<lambda>key. (case fmlookup (StakeData block) (hex key) of None \<Rightarrow> 0 | Some v \<Rightarrow> v) = 0) registryKeys
        then False
      else if length (Transactions block) \<noteq> 0 then False
      else if BHash block \<noteq> ComputeHash block then False
      else True)"

record BlockHeader =
  bhIndex :: int64
  bhSlotNumber :: int64
  bhHash :: bytes
  bhPrevHash :: bytes
  bhMerkleRoot :: bytes
  bhIndexHash :: bytes

definition State :: "Block \<Rightarrow> bytes" where
  "State b = PrevHash b"

definition Header :: "Block \<Rightarrow> BlockHeader" where
  "Header b = \<lparr>bhIndex = BIndex b, bhSlotNumber = SlotNumber b, bhHash = BHash b,
     bhPrevHash = PrevHash b, bhMerkleRoot = MerkleRootHash b, bhIndexHash = IndexHash b\<rparr>"

definition NewEquivocationProofTransaction ::
    "crypto \<Rightarrow> codec \<Rightarrow> int64 \<Rightarrow> uint64 list \<Rightarrow> Block \<Rightarrow> Block \<Rightarrow> slice \<Rightarrow> PrivateKey
     \<Rightarrow> uint64 \<Rightarrow> uint64 \<Rightarrow> txpool \<Rightarrow> (panic + Transaction) option" where
  "NewEquivocationProofTransaction cr cd now draws blockA blockB ownerKey privateKey fee nonce txPool =
     map_option (\<lambda>tid.
       signed cr privateKey (zero_Transaction\<lparr>TID := tid, TxType := EQUIVOCATION_PROOF,
         TxTimestamp := now, DomainName := [], OwnerKey := ownerKey, Fee := fee, TxNonce := nonce,
         EquivBlockA := gobBlock cd blockA, EquivBlockB := gobBlock cd blockB\<rparr>))
       (GenerateRandomTxID draws txPool)"

subsection \<open>Merkle proofs\<close>

lemma nth_nextLevel:
  "2 * i + 1 < length level \<Longrightarrow> nextLevel level ! i = sha256 (level ! (2 * i) @ level ! (2 * i + 1))"
proof (induction level arbitrary: i rule: nextLevel.induct)
  case (1 a b level)
  then show ?case by (cases i) simp_all
qed simp_all

lemma nth_pad_level: "i < length level \<Longrightarrow> pad_level level ! i = level ! i"
  by (simp add: pad_level_def nth_append)

lemma even_pad_level: "even (length (pad_level level))"
  by (simp add: length_pad_level mod_2_eq_odd)

text \<open>The root the proof generator arrives at, whatever the leaf.\<close>

function level_root :: "bytes list \<Rightarrow> bytes" where
  "level_root level = (if length level > 1 then level_root (nextLevel (pad_level level)) else level ! 0)"
  by auto
termination
  by (relation "measure length") (auto simp: length_pad_level mod_2_eq_odd elim: oddE)

declare level_root.simps [simp del]

lemma proof_loop_spec:
  "index < length level \<Longrightarrow>
   \<exists>p d. proof_loop level index path dirs = (path @ p, dirs @ d, [level_root level]) \<and>
     verify_loop (level ! index) p d = Inr (level_root level)"
proof (induction level index path dirs rule: proof_loop.induct)
  case (1 level index path dirs)
  show ?case
  proof (cases "length level > 1")
    case False
    then have "level = [level ! 0]" "index = 0" using 1(2) by (cases level; auto)+
    then show ?thesis
      using False by (intro exI [of _ "[]"]) (simp add: proof_loop.simps [of level] level_root.simps [of level])
  next
    case True
    let ?l = "pad_level level"
    have len: "index < length ?l" using 1(2) by (simp add: length_pad_level)
    have half: "2 * (index div 2) + 1 < length ?l"
      using len even_pad_level [of level] by presburger
    then have next_len: "index div 2 < length (nextLevel ?l)" by simp
    note nth = nth_nextLevel [OF half] and pad = nth_pad_level [OF 1(2)]
    show ?thesis
    proof (cases "index mod 2 = 0")
      case even: True
      then have "2 * (index div 2) = index" by auto
      with 1 True even next_len nth pad show ?thesis
        by (force simp: proof_loop.simps [of level] level_root.simps [of level] Let_def)
    next
      case odd: False
      then have "2 * (index div 2) = index - 1" "2 * (index div 2) + 1 = index" by presburger+
      with 1 True odd next_len nth pad show ?thesis
        by (force simp: proof_loop.simps [of level] level_root.simps [of level] Let_def)
    qed
  qed
qed

text \<open>The root of the tree, as a fold over the leaf hashes; an odd node above the leaves is dropped.\<close>

function tree_root :: "bytes list \<Rightarrow> bytes" where
  "tree_root level = (if length level > 1 then tree_root (nextLevel level) else level ! 0)"
  by auto
termination
  by (relation "measure length") auto

declare tree_root.simps [simp del]

lemma Data_newLevel: "map Data (newLevel nodes) = nextLevel (map Data nodes)"
  by (induction nodes rule: newLevel.induct) (simp_all add: NewMerkleInner_def)

lemma Data_merkle_levels: "nodes \<noteq> [] \<Longrightarrow> Data (merkle_levels nodes ! 0) = tree_root (map Data nodes)"
proof (induction nodes rule: merkle_levels.induct)
  case (1 nodes)
  show ?case
  proof (cases "length nodes > 1")
    case True
    then have "newLevel nodes \<noteq> []" by (cases nodes rule: newLevel.cases) auto
    with 1 True show ?thesis
      by (simp add: merkle_levels.simps [of nodes] tree_root.simps [of "map Data nodes"] Data_newLevel)
  next
    case False
    with 1(2) show ?thesis
      by (simp add: merkle_levels.simps [of nodes] tree_root.simps [of "map Data nodes"])
  qed
qed

abbreviation tx_leaves :: "codec \<Rightarrow> Transaction list \<Rightarrow> bytes list" where
  "tx_leaves cd txs \<equiv> map (\<lambda>tx. sha256 (gobTx cd tx)) txs"

lemma SetupMerkleTree_root:
  "SetupMerkleTree cd b =
   (if Transactions b = [] then Inl NilDereference else Inr (tree_root (pad_level (tx_leaves cd (Transactions b)))))"
  by (simp add: SetupMerkleTree_def NewMerkleTree_def Data_merkle_levels pad_level_def NewMerkleLeaf_def
      comp_def last_map Let_def mod_2_eq_odd)

lemma GenerateMerkleProof_spec:
  assumes "i < length (Transactions b)"
  obtains p where "GenerateMerkleProof cd b (int i) = Some p"
    "mpTxHash p = sha256 (gobTx cd (Transactions b ! i))"
    "mpMerkleRoot p = level_root (tx_leaves cd (Transactions b))"
    "VerifyMerkleProof (Some p) = Inr True"
proof -
  have "i < length (tx_leaves cd (Transactions b))" using assms by simp
  then obtain path d where
    "proof_loop (tx_leaves cd (Transactions b)) i [] [] = ([] @ path, [] @ d, [level_root (tx_leaves cd (Transactions b))])"
    "verify_loop (tx_leaves cd (Transactions b) ! i) path d = Inr (level_root (tx_leaves cd (Transactions b)))"
    using proof_loop_spec by blast
  with assms that show thesis
    by (simp add: GenerateMerkleProof_def VerifyMerkleProof_def)
qed

lemma one_less_two_power [simp]: "Suc 0 < 2 * 2 ^ k"
  by (induction k) auto

lemma level_root_power: "length level = 2 ^ k \<Longrightarrow> level_root level = tree_root level"
proof (induction k arbitrary: level)
  case 0
  then show ?case by (simp add: level_root.simps [of level] tree_root.simps [of level])
next
  case (Suc k)
  then have "pad_level level = level" "length (nextLevel level) = 2 ^ k" "length level > 1"
    by (simp_all add: pad_level_def)
  with Suc.IH show ?case by (simp add: level_root.simps [of level] tree_root.simps [of level])
qed

lemma proof_root_is_block_root:
  assumes "length txs > 1" "length txs = 2 ^ k \<or> length txs + 1 = 2 ^ k"
  shows "level_root (tx_leaves cd txs) = tree_root (pad_level (tx_leaves cd txs))"
proof (cases "length txs = 2 ^ k")
  case True
  with assms(1) have "k \<noteq> 0" by (cases k) auto
  with True have "even (length txs)" by simp
  with True show ?thesis using level_root_power [of "tx_leaves cd txs" k] by (simp add: pad_level_def)
next
  case False
  with assms obtain j where k: "k = Suc j" by (cases k) auto
  with assms(2) False have len: "length (pad_level (tx_leaves cd txs)) = 2 ^ k"
    by (simp add: length_pad_level) presburger
  have "level_root (tx_leaves cd txs) = level_root (nextLevel (pad_level (tx_leaves cd txs)))"
    using assms(1) by (simp add: level_root.simps [of "tx_leaves cd txs"])
  also have "\<dots> = tree_root (nextLevel (pad_level (tx_leaves cd txs)))"
    using len k by (intro level_root_power [of _ j]) simp
  also have "\<dots> = tree_root (pad_level (tx_leaves cd txs))"
    using len k by (simp add: tree_root.simps [of "pad_level (tx_leaves cd txs)"])
  finally show ?thesis .
qed

text \<open>Six leaves make three nodes, of which the third is dropped.\<close>

lemma tree_root_six: "tree_root [a, b, c, d, e, f] = tree_root [a, b, c, d]"
  by (simp add: tree_root.simps)

lemma tree_root_pair: "tree_root [a, b] = sha256 (a @ b)"
  by (simp add: tree_root.simps)

subsection \<open>Block signatures and genesis\<close>

lemma BlockSerialize_signature [simp]:
  "BlockSerializeForSigning (b\<lparr>BSignature := s\<rparr>) = BlockSerializeForSigning b"
  "BlockSerializeForSigning (b\<lparr>BHash := h\<rparr>) = BlockSerializeForSigning b"
  by (simp_all add: BlockSerializeForSigning_def)

lemma VerifyBlock_hash [simp]: "VerifyBlock cr pub (b\<lparr>BHash := h\<rparr>) = VerifyBlock cr pub b"
  by (simp add: VerifyBlock_def Let_def split: option.splits)

lemma ComputeHash_hash [simp]: "ComputeHash (b\<lparr>BHash := h\<rparr>) = ComputeHash b"
  by (simp add: ComputeHash_def)

lemma SignBlock_ok:
  assumes "key_pair_ok cr priv pub"
  obtains sig where "SignBlock cr priv b = Inr sig" "length sig = 64"
    "VerifyBlock cr pub (b\<lparr>BSignature := sig\<rparr>)"
proof -
  let ?h = "sha256 (BlockSerializeForSigning b)"
  obtain pk r s where pk: "ParsePKIXPublicKey cr pub = Some (ECDSAKey pk)"
    and sgn: "ecdsa_Sign cr priv ?h = Some (r, s)" and rs: "r < 256 ^ 32" "s < 256 ^ 32"
    and ver: "ecdsa_Verify cr pk ?h r s"
    using assms unfolding key_pair_ok_def by blast
  obtain a c where "pad32 (bytes_of_nat r) = Inr a" "length a = 32" "nat_of_bytes a = r"
    "pad32 (bytes_of_nat s) = Inr c" "length c = 32" "nat_of_bytes c = s"
    using pad32_ok [OF rs(1)] pad32_ok [OF rs(2)] by metis
  with sgn pk ver show thesis
    by (intro that [of "a @ c"]) (simp_all add: SignBlock_def VerifyBlock_def BytesToPublicKey_def)
qed

lemma lookup_genesis_stake:
  "fmlookup (foldl (\<lambda>m key. fmupd (hex key) (0 :: uint64) m) m ks) v =
   (if v \<in> hex ` set ks then Some 0 else fmlookup m v)"
  by (induction ks arbitrary: m) auto

lemma genesis_stake_count:
  assumes "distinct ks"
  shows "length (sorted_keys (foldl (\<lambda>m key. fmupd (hex key) (0 :: uint64) m) fmempty ks)) = length ks"
proof -
  let ?m = "foldl (\<lambda>m key. fmupd (hex key) (0 :: uint64) m) fmempty ks"
  have "fset (fmdom ?m) = hex ` set ks"
    using lookup_genesis_stake [of fmempty ks] by (auto simp: fmlookup_dom_iff split: if_splits)
  then have "length (sorted_keys ?m) = card (hex ` set ks)"
    by (metis distinct_card distinct_sorted_keys set_sorted_keys)
  also have "\<dots> = length ks"
    using assms by (subst card_image) (auto simp: inj_on_def distinct_card)
  finally show ?thesis .
qed

lemma NewGenesisBlock_valid:
  assumes "key_pair_ok cr priv pub" "distinct ks" "ks \<noteq> []"
  shows "\<exists>b. NewGenesisBlock cr now pub priv ks rnd = Inr b \<and> ValidateGenesisBlock cr b ks pub"
proof -
  define m where "m = foldl (\<lambda>m key. fmupd (hex key) (0 :: uint64) m) fmempty ks"
  define g where "g = zero_Block\<lparr>BIndex := 0, BTimestamp := now, SlotNumber := 0, SlotLeader := pub, StakeData := m,
    PrevHash := rnd, StakeMapHash := StakeMapDigest NewStakeMap, UnstakeQueueHash := UnstakeQueueDigest NewUnstakeQueue\<rparr>"
  have g: "BIndex g = 0" "SlotLeader g = pub" "StakeData g = m" "Transactions g = []"
    by (simp_all add: g_def zero_Block_def)
  have m: "length (sorted_keys m) = length ks" "\<And>k. k \<in> set ks \<Longrightarrow> fmlookup m (hex k) = Some 0"
    using genesis_stake_count [OF assms(2)] by (simp_all add: m_def lookup_genesis_stake)
  obtain sig where sig: "SignBlock cr priv g = Inr sig" "VerifyBlock cr pub (g\<lparr>BSignature := sig\<rparr>)"
    by (rule SignBlock_ok [OF assms(1)])
  let ?b = "g\<lparr>BSignature := sig, BHash := ComputeHash (g\<lparr>BSignature := sig\<rparr>)\<rparr>"
  have "NewGenesisBlock cr now pub priv ks rnd = Inr ?b"
    using assms(3) sig(1) by (simp add: NewGenesisBlock_def Let_def g_def m_def)
  moreover have "ValidateGenesisBlock cr ?b ks pub"
    using sig(2) m g by (simp add: ValidateGenesisBlock_def list_all_iff)
  ultimately show ?thesis by blast
qed

subsection \<open>Properties\<close>

text \<open>A codec for the examples: transactions only, with the signing bytes as their encoding.\<close>

definition sample_codec :: codec where
  "sample_codec = \<lparr>gobTx = SerializeForSigning, gobTxDec = (\<lambda>_. None), gobBlock = (\<lambda>_. []), gobBlockDec = (\<lambda>_. None)\<rparr>"

lemma SetupMerkleTree_fields [simp]:
  "SetupMerkleTree cd (b\<lparr>MerkleRootHash := r\<rparr>) = SetupMerkleTree cd b"
  "SetupMerkleTree cd (b\<lparr>BSignature := s\<rparr>) = SetupMerkleTree cd b"
  "SetupMerkleTree cd (b\<lparr>BHash := h\<rparr>) = SetupMerkleTree cd b"
  by (simp_all add: SetupMerkleTree_def)

text \<open>C33: the Merkle proof of every transaction of a block verifies: for an index in range
  \<open>GenerateMerkleProof\<close> gives a proof for the hash of that transaction which \<open>VerifyMerkleProof\<close>
  accepts without panicking, and for any other index it gives none.\<close>

theorem merkle_proof_roundtrip:
  "if 0 \<le> i \<and> i < int (length (Transactions b))
   then \<exists>p. GenerateMerkleProof cd b i = Some p \<and> mpTxHash p = sha256 (gobTx cd (Transactions b ! nat i)) \<and>
          VerifyMerkleProof (Some p) = Inr True
   else GenerateMerkleProof cd b i = None"
proof (cases "0 \<le> i \<and> i < int (length (Transactions b))")
  case True
  then have "nat i < length (Transactions b)" "int (nat i) = i" by auto
  with True GenerateMerkleProof_spec [of "nat i" b cd] show ?thesis by metis
next
  case False
  then show ?thesis by (auto simp: GenerateMerkleProof_def)
qed

text \<open>The root of a generated proof is the root in the block header when the block has \<open>2\<^sup>k\<close> or
  \<open>2\<^sup>k - 1\<close> transactions, more than one.\<close>

theorem merkle_proof_header_root:
  assumes "i < length (Transactions b)" "length (Transactions b) > 1"
    "length (Transactions b) = 2 ^ k \<or> length (Transactions b) + 1 = 2 ^ k"
  shows "\<exists>p. GenerateMerkleProof cd b (int i) = Some p \<and> SetupMerkleTree cd b = Inr (mpMerkleRoot p)"
proof -
  obtain p where p: "GenerateMerkleProof cd b (int i) = Some p"
    "mpMerkleRoot p = level_root (tx_leaves cd (Transactions b))"
    by (rule GenerateMerkleProof_spec [OF assms(1), of cd])
  with proof_root_is_block_root [OF assms(2,3), of cd] assms(1) show ?thesis
    by (auto simp: SetupMerkleTree_root)
qed

theorem merkle_proof_header_root_witness:
  "let b = zero_Block\<lparr>Transactions := map (\<lambda>i. zero_Transaction\<lparr>TID := i\<rparr>) [3, 4, 5]\<rparr> in
   \<exists>p. GenerateMerkleProof sample_codec b 2 = Some p \<and> SetupMerkleTree sample_codec b = Inr (mpMerkleRoot p)"
  using merkle_proof_header_root [of 2 "zero_Block\<lparr>Transactions := map (\<lambda>i. zero_Transaction\<lparr>TID := i\<rparr>) [3, 4, 5]\<rparr>" 2 sample_codec]
  by simp

text \<open>C39: above the leaves the header's tree drops an odd last node: a block of six transactions has
  the root of its first four, so that the last two are not covered by the header at all.\<close>

theorem merkle_root_drops_transactions:
  "SetupMerkleTree cd (b\<lparr>Transactions := [t1, t2, t3, t4, t5, t6]\<rparr>) =
   SetupMerkleTree cd (b\<lparr>Transactions := [t1, t2, t3, t4]\<rparr>)"
  by (simp add: SetupMerkleTree_root pad_level_def tree_root_six)

text \<open>The genesis block that a registry builds is accepted by \<open>ValidateGenesisBlock\<close> at every node
  that knows the same registry keys, when these are distinct and there is at least one.\<close>

theorem genesis_roundtrip:
  assumes "key_pair_ok cr priv pub" "distinct ks" "ks \<noteq> []"
  shows "\<exists>b. NewGenesisBlock cr now pub priv ks rnd = Inr b \<and> ValidateGenesisBlock cr b ks pub"
  using assms by (rule NewGenesisBlock_valid)

theorem genesis_roundtrip_witness:
  "\<exists>b. NewGenesisBlock sample_crypto 5 [1] 7 [[1], [2]] [9] = Inr b \<and>
     ValidateGenesisBlock sample_crypto b [[1], [2]] [1]"
  by (rule genesis_roundtrip [OF sample_key_ok]) simp_all

end
