(* ===== verification/Apply.thy ===== *)
theory Apply
  imports Block
begin

text \<open>
  \<^verbatim>\<open>internal/blockchain/apply.go\<close>: the effect of one transaction on the balance ledger, the
  stake state and the domain state. The domain state is reached through the operations of the
  two interfaces; an absent commit store is \<open>None\<close>. A log or error message that slices the hex
  key (\<^verbatim>\<open>pubKeyHex[:8]\<close>) panics on a shorter key and is a branch of the definitions.
\<close>

definition ApplyLedgerMutations :: "Transaction \<Rightarrow> BalanceLedger \<Rightarrow> panic + BalanceLedger" where
  "ApplyLedgerMutations tx ledger =
     (if length (sl (OwnerKey tx)) = 0 then Inr ledger
      else
        (let pubKeyHex = hex (sl (OwnerKey tx));
             ledger = IncrementNonce ledger pubKeyHex
         in
         bindR (if Fee tx > 0 then
                  (case Debit ledger pubKeyHex (Fee tx) of
                     None \<Rightarrow> sliced 8 pubKeyHex (Inr ledger)
                   | Some l \<Rightarrow> Inr l)
                else Inr ledger) (\<lambda>ledger.
         bindR (if TxType tx = FUND \<and> length (sl (Recipient tx)) > 0 \<and> ListPrice tx > 0 then
                  (let recipientHex = hex (sl (Recipient tx)) in
                   case Debit ledger pubKeyHex (ListPrice tx) of
                     None \<Rightarrow> sliced 8 pubKeyHex (Inr ledger)
                   | Some l \<Rightarrow> Inr (Credit l recipientHex (ListPrice tx)))
                else Inr ledger) (\<lambda>ledger.
         if TxType tx = STAKE \<and> StakeAmount tx > 0 then
           (case Debit ledger pubKeyHex (StakeAmount tx) of
              None \<Rightarrow> sliced 8 pubKeyHex (Inr ledger)
            | Some l \<Rightarrow> Inr l)
         else Inr ledger))))"

record StakeState =
  ssMap :: StakeMap
  ssQueue :: UnstakeQueue
  ssSlashed :: "string fset"

definition offenseKey :: "Block \<Rightarrow> string" where
  "offenseKey b = show_int (BIndex b) @ '':'' @ hex (SlotLeader b)"

text \<open>The slashing of the offender, the last part of the EQUIVOCATION\_PROOF case.\<close>

definition slash :: "StakeState \<Rightarrow> string \<Rightarrow> StakeState" where
  "slash st offenderHex =
     (let totalSlashable = GetStake (ssMap st) offenderHex + GetPendingStake (ssQueue st) offenderHex;
          slashAmount = ComputeSlashAmount totalSlashable SlashingPercent;
          stakedNow = GetStake (ssMap st) offenderHex
      in
      if slashAmount \<le> stakedNow then st\<lparr>ssMap := ReduceStake (ssMap st) offenderHex slashAmount\<rparr>
      else st\<lparr>ssMap := ReduceStake (ssMap st) offenderHex stakedNow,
              ssQueue := fst (BurnPending (ssQueue st) offenderHex (slashAmount - stakedNow))\<rparr>)"

definition ApplyStakeMutations :: "codec \<Rightarrow> Transaction \<Rightarrow> StakeState \<Rightarrow> int64 \<Rightarrow> panic + StakeState" where
  "ApplyStakeMutations cd tx st currentSlot =
     (if length (sl (OwnerKey tx)) = 0 then Inr st
      else
        (let pubKeyHex = hex (sl (OwnerKey tx)) in
         case TxType tx of
           STAKE \<Rightarrow> Inr (st\<lparr>ssMap := AddStake (ssMap st) pubKeyHex (StakeAmount tx)\<rparr>)
         | UNSTAKE \<Rightarrow>
             (let st = st\<lparr>ssMap := ReduceStake (ssMap st) pubKeyHex (StakeAmount tx)\<rparr>;
                  matureSlot = word_of_int currentSlot + UnstakeDelaySlots
              in Inr (st\<lparr>ssQueue := Enqueue (ssQueue st) pubKeyHex (StakeAmount tx) matureSlot\<rparr>))
         | EQUIVOCATION_PROOF \<Rightarrow>
             if length (EquivBlockA tx) = 0 then Inr st
             else
               bindR (DeserializeBlock cd (EquivBlockA tx)) (\<lambda>blockA.
                 let offenderHex = hex (SlotLeader blockA) in
                 if offenseKey blockA |\<in>| ssSlashed st then Inr st
                 else
                   (let st = slash st offenderHex
                    in Inr (st\<lparr>ssSlashed := finsert (offenseKey blockA) (ssSlashed st)\<rparr>)))
         | _ \<Rightarrow> Inr st))"

datatype apply_error =
  WrongPhase | BadRedeem | NoCommit | NotOwner | NotFound | NotForSale | SelfBuy | PriceTooLow | CannotPay

record ('s, 'c) DomainState =
  dsLedger :: BalanceLedger
  dsIndex :: 's
  dsCommits :: "'c option"

type_synonym ('s, 'c) applied = "panic + ('s, 'c) DomainState \<times> apply_error option"

definition failed :: "('s, 'c) DomainState \<Rightarrow> apply_error \<Rightarrow> ('s, 'c) applied" where
  "failed ds e = Inr (ds, Some e)"

definition done_with :: "('s, 'c) DomainState \<Rightarrow> ('s, 'c) applied" where
  "done_with ds = Inr (ds, None)"

definition applyUpdateOrRenew ::
    "'s DomainIndexer \<Rightarrow> Transaction \<Rightarrow> ('s, 'c) DomainState \<Rightarrow> int64 \<Rightarrow> int \<Rightarrow> int64 \<Rightarrow> bool
     \<Rightarrow> ('s, 'c) applied" where
  "applyUpdateOrRenew I tx ds currentSlot txIndex slotsPerDay isRenew =
     (if RedeemsTxID tx = 0 then failed ds BadRedeem
      else
        (let im = dsIndex ds in
         case diGetTxByID I im (RedeemsTxID tx) of
           None \<Rightarrow> failed ds BadRedeem
         | Some redeemsTx \<Rightarrow>
             if DomainName redeemsTx \<noteq> DomainName tx then failed ds BadRedeem
             else
               (let im = diMarkAsSpent I im (RedeemsTxID tx);
                    existingListPrice = diGetListPrice I im (DomainName tx);
                    existingOwner = diGetOwner I im (DomainName tx);
                    storeTx =
                      (if isRenew then
                         (case diGetDomain I im (DomainName tx) of
                            None \<Rightarrow> tx
                          | Some currentDomainTx \<Rightarrow>
                              if length (Records currentDomainTx) > 0
                              then tx\<lparr>Records := Records currentDomainTx\<rparr> else tx)
                       else tx)
                in
                bindR (diAdd I im (DomainName tx) storeTx currentSlot txIndex slotsPerDay) (\<lambda>im.
                  let im = (if existingListPrice > 0 then diSetListPrice I im (DomainName tx) existingListPrice else im);
                      im = (case existingOwner of None \<Rightarrow> im | Some k \<Rightarrow> diSetOwner I im (DomainName tx) (Some k))
                  in done_with (ds\<lparr>dsIndex := im\<rparr>)))))"

definition applyBuyDomain ::
    "'s DomainIndexer \<Rightarrow> Transaction \<Rightarrow> ('s, 'c) DomainState \<Rightarrow> string \<Rightarrow> int64 \<Rightarrow> int64 \<Rightarrow> ('s, 'c) applied" where
  "applyBuyDomain I tx ds buyerKeyHex currentSlot slotsPerDay =
     (let im = dsIndex ds in
      case diGetDomain I im (DomainName tx) of
        None \<Rightarrow> Inl NilDereference
      | Some domTx \<Rightarrow>
          if GetDomainPhase currentSlot (ExpirySlot domTx) slotsPerDay \<noteq> ''active'' then failed ds WrongPhase
          else if \<not> diIsForSale I im (DomainName tx) then failed ds NotForSale
          else
            (let sellerKeyHex = hex (sl (diGetOwner I im (DomainName tx))) in
             if buyerKeyHex = sellerKeyHex then sliced 8 buyerKeyHex (failed ds SelfBuy)
             else
               (let listPrice = diGetListPrice I im (DomainName tx) in
                if ListPrice tx < listPrice then failed ds PriceTooLow
                else
                  (case Debit (dsLedger ds) buyerKeyHex listPrice of
                     None \<Rightarrow> sliced 8 buyerKeyHex (failed ds CannotPay)
                   | Some l \<Rightarrow>
                       (let l = Credit l sellerKeyHex listPrice;
                            im = diSetOwner I im (DomainName tx) (OwnerKey tx);
                            im = diSetListPrice I im (DomainName tx) 0
                        in done_with (ds\<lparr>dsLedger := l, dsIndex := im\<rparr>))))))"

definition applyTransferDomain ::
    "'s DomainIndexer \<Rightarrow> Transaction \<Rightarrow> ('s, 'c) DomainState \<Rightarrow> string \<Rightarrow> int64 \<Rightarrow> int64 \<Rightarrow> ('s, 'c) applied" where
  "applyTransferDomain I tx ds ownerKeyHex currentSlot slotsPerDay =
     (let im = dsIndex ds in
      case diGetDomain I im (DomainName tx) of
        None \<Rightarrow> Inl NilDereference
      | Some domTx \<Rightarrow>
          if GetDomainPhase currentSlot (ExpirySlot domTx) slotsPerDay \<noteq> ''active'' then failed ds WrongPhase
          else
            (case diGetOwner I im (DomainName tx) of
               None \<Rightarrow> failed ds NotFound
             | Some currentOwner \<Rightarrow>
                 if hex currentOwner \<noteq> ownerKeyHex then sliced 8 ownerKeyHex (failed ds NotOwner)
                 else
                   (let im = diSetOwner I im (DomainName tx) (Recipient tx);
                        im = diSetListPrice I im (DomainName tx) 0
                    in done_with (ds\<lparr>dsIndex := im\<rparr>))))"

definition applyRegister ::
    "'s DomainIndexer \<Rightarrow> Transaction \<Rightarrow> ('s, 'c) DomainState \<Rightarrow> int64 \<Rightarrow> int \<Rightarrow> int64 \<Rightarrow> ('s, 'c) applied" where
  "applyRegister I tx ds currentSlot txIndex slotsPerDay =
     (let im = dsIndex ds in
      if (case diGetDomain I im (DomainName tx) of
            None \<Rightarrow> False
          | Some existingTx \<Rightarrow> GetDomainPhase currentSlot (ExpirySlot existingTx) slotsPerDay \<noteq> ''purged'')
        then failed ds WrongPhase
      else if RedeemsTxID tx \<noteq> 0 then failed ds BadRedeem
      else
        bindR (diAdd I im (DomainName tx) tx currentSlot txIndex slotsPerDay) (\<lambda>im.
          done_with (ds\<lparr>dsIndex := diSetOwner I im (DomainName tx) (OwnerKey tx)\<rparr>)))"

definition applyCommit ::
    "'c CommitStorer \<Rightarrow> Transaction \<Rightarrow> ('s, 'c) DomainState \<Rightarrow> int64 \<Rightarrow> int64 \<Rightarrow> ('s, 'c) applied" where
  "applyCommit C tx ds currentSlot blockIndex =
     (case dsCommits ds of
        None \<Rightarrow> done_with ds
      | Some cs \<Rightarrow>
          (let commitHex = hex (CommitHash tx);
               cs = csAddCommit C cs
                 \<lparr>cmHash = CommitHash tx, CommitterPK = sl (OwnerKey tx), CommitBlock = blockIndex,
                  CommitSlot = currentSlot, CommitTID = TID tx,
                  ExpiryBlock = i64 (blockIndex + CommitMaxWindow)\<rparr>
           in sliced 16 commitHex (done_with (ds\<lparr>dsCommits := Some cs\<rparr>))))"

definition reveal_key :: "Transaction \<Rightarrow> string" where
  "reveal_key tx = hex (sha256 (commit_preimage (DomainName tx) (Salt tx) (sl (OwnerKey tx))))"

definition applyReveal ::
    "'s DomainIndexer \<Rightarrow> 'c CommitStorer \<Rightarrow> Transaction \<Rightarrow> ('s, 'c) DomainState \<Rightarrow> int64 \<Rightarrow> int \<Rightarrow> int64
     \<Rightarrow> ('s, 'c) applied" where
  "applyReveal I C tx ds currentSlot txIndex slotsPerDay =
     (case dsCommits ds of
        None \<Rightarrow> done_with ds
      | Some cs \<Rightarrow>
          (let commitHex = reveal_key tx; im = dsIndex ds in
           case csGetCommit C cs commitHex of
             None \<Rightarrow> sliced 16 commitHex (failed ds NoCommit)
           | Some commitRecord \<Rightarrow>
               if (case diGetDomain I im (DomainName tx) of
                     None \<Rightarrow> False
                   | Some existingTx \<Rightarrow>
                       GetDomainPhase currentSlot (ExpirySlot existingTx) slotsPerDay \<noteq> ''purged'')
                 then failed ds WrongPhase
               else
                 bindR (diAdd I im (DomainName tx) tx currentSlot txIndex slotsPerDay) (\<lambda>im.
                   let im = diSetOwner I im (DomainName tx) (Recipient tx);
                       im = diMarkAsSpent I im (RedeemsTxID tx);
                       cs = csConsumeCommit C cs commitHex
                   in sliced 16 commitHex (done_with (ds\<lparr>dsIndex := im, dsCommits := Some cs\<rparr>)))))"

definition applyRevoke ::
    "'s DomainIndexer \<Rightarrow> Transaction \<Rightarrow> ('s, 'c) DomainState \<Rightarrow> int64 \<Rightarrow> int \<Rightarrow> int64 \<Rightarrow> ('s, 'c) applied" where
  "applyRevoke I tx ds currentSlot txIndex slotsPerDay =
     (let im = dsIndex ds; pubKeyHex = hex (sl (OwnerKey tx)) in
      if length (sl (OwnerKey tx)) > 0 \<and>
         (case diGetOwner I im (DomainName tx) of None \<Rightarrow> True | Some currentOwner \<Rightarrow> hex currentOwner \<noteq> pubKeyHex)
        then sliced 8 pubKeyHex (failed ds NotOwner)
      else if RedeemsTxID tx \<noteq> 0 \<and>
         (case diGetTxByID I im (RedeemsTxID tx) of
            None \<Rightarrow> True | Some redeemsTx \<Rightarrow> DomainName redeemsTx \<noteq> DomainName tx)
        then failed ds BadRedeem
      else if length (sl (OwnerKey tx)) = 0 \<and> diGetDomain I im (DomainName tx) = None
        then failed ds NotFound
      else if length (sl (OwnerKey tx)) = 0 \<and>
         (case diGetDomain I im (DomainName tx) of
            None \<Rightarrow> False
          | Some existingTx \<Rightarrow> GetDomainPhase currentSlot (ExpirySlot existingTx) slotsPerDay = ''active'')
        then failed ds WrongPhase
      else
        (let existingOwner = diGetOwner I im (DomainName tx);
             im = (if RedeemsTxID tx \<noteq> 0 then diMarkAsSpent I im (RedeemsTxID tx) else im)
         in
         bindR (diAdd I im (DomainName tx) tx currentSlot txIndex slotsPerDay) (\<lambda>im.
           let im = (case existingOwner of None \<Rightarrow> im | Some k \<Rightarrow> diSetOwner I im (DomainName tx) (Some k))
           in done_with (ds\<lparr>dsIndex := im\<rparr>))))"

definition applyUpdate ::
    "'s DomainIndexer \<Rightarrow> Transaction \<Rightarrow> ('s, 'c) DomainState \<Rightarrow> int64 \<Rightarrow> int \<Rightarrow> int64 \<Rightarrow> ('s, 'c) applied" where
  "applyUpdate I tx ds currentSlot txIndex slotsPerDay =
     (let im = dsIndex ds; pubKeyHex = hex (sl (OwnerKey tx)) in
      if (case diGetOwner I im (DomainName tx) of None \<Rightarrow> True | Some currentOwner \<Rightarrow> hex currentOwner \<noteq> pubKeyHex)
        then sliced 8 pubKeyHex (failed ds NotOwner)
      else if (case diGetDomain I im (DomainName tx) of
            None \<Rightarrow> False
          | Some existingTx \<Rightarrow> GetDomainPhase currentSlot (ExpirySlot existingTx) slotsPerDay \<noteq> ''active'')
        then failed ds WrongPhase
      else applyUpdateOrRenew I tx ds currentSlot txIndex slotsPerDay False)"

definition applyRenew ::
    "'s DomainIndexer \<Rightarrow> Transaction \<Rightarrow> ('s, 'c) DomainState \<Rightarrow> int64 \<Rightarrow> int \<Rightarrow> int64 \<Rightarrow> ('s, 'c) applied" where
  "applyRenew I tx ds currentSlot txIndex slotsPerDay =
     (if (case diGetDomain I (dsIndex ds) (DomainName tx) of
            None \<Rightarrow> False
          | Some existingTx \<Rightarrow> GetDomainPhase currentSlot (ExpirySlot existingTx) slotsPerDay = ''purged'')
        then failed ds WrongPhase
      else applyUpdateOrRenew I tx ds currentSlot txIndex slotsPerDay True)"

definition applyList ::
    "'s DomainIndexer \<Rightarrow> Transaction \<Rightarrow> ('s, 'c) DomainState \<Rightarrow> int64 \<Rightarrow> int64 \<Rightarrow> ('s, 'c) applied" where
  "applyList I tx ds currentSlot slotsPerDay =
     (let im = dsIndex ds; pubKeyHex = hex (sl (OwnerKey tx)) in
      case diGetDomain I im (DomainName tx) of
        None \<Rightarrow> Inl NilDereference
      | Some domTx \<Rightarrow>
          if GetDomainPhase currentSlot (ExpirySlot domTx) slotsPerDay \<noteq> ''active'' then failed ds WrongPhase
          else
            (case diGetOwner I im (DomainName tx) of
               None \<Rightarrow> failed ds NotFound
             | Some currentOwner \<Rightarrow>
                 if hex currentOwner \<noteq> pubKeyHex then sliced 8 pubKeyHex (failed ds NotOwner)
                 else done_with (ds\<lparr>dsIndex := diSetListPrice I im (DomainName tx) (ListPrice tx)\<rparr>)))"

definition applyDelist ::
    "'s DomainIndexer \<Rightarrow> Transaction \<Rightarrow> ('s, 'c) DomainState \<Rightarrow> int64 \<Rightarrow> int64 \<Rightarrow> ('s, 'c) applied" where
  "applyDelist I tx ds currentSlot slotsPerDay =
     (let im = dsIndex ds; pubKeyHex = hex (sl (OwnerKey tx)) in
      case diGetDomain I im (DomainName tx) of
        None \<Rightarrow> Inl NilDereference
      | Some domTx \<Rightarrow>
          if GetDomainPhase currentSlot (ExpirySlot domTx) slotsPerDay \<noteq> ''active'' then failed ds WrongPhase
          else
            (case diGetOwner I im (DomainName tx) of
               None \<Rightarrow> failed ds NotForSale
             | Some currentOwner \<Rightarrow>
                 if \<not> diIsForSale I im (DomainName tx) then failed ds NotForSale
                 else if hex currentOwner \<noteq> pubKeyHex then sliced 8 pubKeyHex (failed ds NotOwner)
                 else done_with (ds\<lparr>dsIndex := diSetListPrice I im (DomainName tx) 0\<rparr>)))"

definition ApplyDomainMutations ::
    "'s DomainIndexer \<Rightarrow> 'c CommitStorer \<Rightarrow> Transaction \<Rightarrow> ('s, 'c) DomainState
     \<Rightarrow> int64 \<Rightarrow> int64 \<Rightarrow> int \<Rightarrow> int64 \<Rightarrow> ('s, 'c) applied" where
  "ApplyDomainMutations I C tx ds currentSlot blockIndex txIndex slotsPerDay =
     (case TxType tx of
        REGISTER \<Rightarrow> applyRegister I tx ds currentSlot txIndex slotsPerDay
      | COMMIT \<Rightarrow> applyCommit C tx ds currentSlot blockIndex
      | REVEAL \<Rightarrow> applyReveal I C tx ds currentSlot txIndex slotsPerDay
      | REVOKE \<Rightarrow> applyRevoke I tx ds currentSlot txIndex slotsPerDay
      | UPDATE \<Rightarrow> applyUpdate I tx ds currentSlot txIndex slotsPerDay
      | RENEW \<Rightarrow> applyRenew I tx ds currentSlot txIndex slotsPerDay
      | LIST \<Rightarrow> applyList I tx ds currentSlot slotsPerDay
      | BUY \<Rightarrow> applyBuyDomain I tx ds (hex (sl (OwnerKey tx))) currentSlot slotsPerDay
      | TRANSFER \<Rightarrow> applyTransferDomain I tx ds (hex (sl (OwnerKey tx))) currentSlot slotsPerDay
      | DELIST \<Rightarrow> applyDelist I tx ds currentSlot slotsPerDay
      | _ \<Rightarrow> done_with ds)"

lemmas apply_defs = ApplyDomainMutations_def applyRegister_def applyCommit_def applyReveal_def
  applyRevoke_def applyUpdate_def applyRenew_def applyUpdateOrRenew_def applyList_def
  applyDelist_def applyBuyDomain_def applyTransferDomain_def

lemmas result_defs = failed_def done_with_def sliced_def

subsection \<open>Ledger effects\<close>

lemma sliced_eq_Inr [simp]: "sliced n s x = Inr y \<longleftrightarrow> n \<le> length s \<and> x = Inr y"
  by (auto simp: sliced_def)

text \<open>What a transaction takes out of its sender's account at this stage.\<close>

definition outlay :: "Transaction \<Rightarrow> nat" where
  "outlay tx = unat (Fee tx)
     + (if TxType tx = FUND \<and> length (sl (Recipient tx)) > 0 then unat (ListPrice tx) else 0)
     + (if TxType tx = STAKE then unat (StakeAmount tx) else 0)"

definition staked_by :: "Transaction \<Rightarrow> nat" where
  "staked_by tx = (if TxType tx = STAKE \<and> length (sl (OwnerKey tx)) > 0 then unat (StakeAmount tx) else 0)"

lemma word_pos_iff: "(w :: uint64) > 0 \<longleftrightarrow> unat w > 0"
  by (simp add: word_gt_0 unat_gt_0)

lemma stage_nonce:
  "(if c then (case Debit l k a of None \<Rightarrow> sliced 8 k (Inr l) | Some m \<Rightarrow> Inr (f m)) else Inr l) = Inr l' \<Longrightarrow>
   (\<And>m. GetNonce (f m) j = GetNonce m j) \<Longrightarrow> GetNonce l' j = GetNonce l j"
  by (auto simp: Debit_SomeD split: if_split_asm option.split_asm)

text \<open>The three stages of a keyed transaction: fee, funding, stake.\<close>

lemma ApplyLedgerMutations_stages:
  assumes "ApplyLedgerMutations tx l = Inr l'" "length (sl (OwnerKey tx)) \<noteq> 0"
  defines "k \<equiv> hex (sl (OwnerKey tx))"
  obtains l1 l2 where
    "(if Fee tx > 0 then (case Debit (IncrementNonce l k) k (Fee tx) of None \<Rightarrow> sliced 8 k (Inr (IncrementNonce l k)) | Some m \<Rightarrow> Inr m)
      else Inr (IncrementNonce l k)) = Inr l1"
    "(if TxType tx = FUND \<and> length (sl (Recipient tx)) > 0 \<and> ListPrice tx > 0
      then (case Debit l1 k (ListPrice tx) of None \<Rightarrow> sliced 8 k (Inr l1)
        | Some m \<Rightarrow> Inr (Credit m (hex (sl (Recipient tx))) (ListPrice tx))) else Inr l1) = Inr l2"
    "(if TxType tx = STAKE \<and> StakeAmount tx > 0
      then (case Debit l2 k (StakeAmount tx) of None \<Rightarrow> sliced 8 k (Inr l2) | Some m \<Rightarrow> Inr m) else Inr l2) = Inr l'"
  using assms(1,2) unfolding ApplyLedgerMutations_def Let_def k_def by (simp only: if_False bindR_eq_Inr) blast

lemma ApplyLedgerMutations_nonce:
  assumes "ApplyLedgerMutations tx l = Inr l'"
  shows "GetNonce l' k = GetNonce l k + (if length (sl (OwnerKey tx)) > 0 \<and> k = hex (sl (OwnerKey tx)) then 1 else 0)"
proof (cases "length (sl (OwnerKey tx)) = 0")
  case True
  with assms show ?thesis by (simp add: ApplyLedgerMutations_def)
next
  case False
  with assms have "GetNonce l' k = GetNonce (IncrementNonce l (hex (sl (OwnerKey tx)))) k"
    by (rule ApplyLedgerMutations_stages) (drule stage_nonce [where j = k]; auto simp: ledger_simps)+
  with False show ?thesis by (simp add: ledger_simps)
qed

lemma debit_stage:
  assumes "c \<Longrightarrow> unat a \<le> unat (GetBalance l k)"
  obtains l' where "(if c \<and> a > 0 then (case Debit l k a of None \<Rightarrow> x | Some m \<Rightarrow> Inr m) else Inr l) = Inr l'"
    "ledger_supply l' + (if c then unat a else 0) = ledger_supply l"
    "unat (GetBalance l' k) + (if c then unat a else 0) = unat (GetBalance l k)"
    "\<And>j. j \<noteq> k \<Longrightarrow> GetBalance l' j = GetBalance l j"
proof (cases "c \<and> a > 0")
  case True
  then have le: "a \<le> GetBalance l k" using assms by (simp add: word_le_nat_alt)
  then obtain l' where l': "Debit l k a = Some l'" using bl.debit_succeeds by blast
  show thesis
    using True l' le bl.debit_supply [OF l'] bl.debit_bal [OF l']
    by (intro that [of l']) (simp_all add: unat_diff_le word_le_nat_alt)
next
  case False
  then show thesis by (intro that [of l]) (auto simp: word_pos_iff)
qed

lemma fund_stage:
  assumes "c \<Longrightarrow> unat a \<le> unat (GetBalance l k)" "ledger_supply l < 2 ^ 64"
  obtains l' where
    "(if c \<and> a > 0 then (case Debit l k a of None \<Rightarrow> x | Some m \<Rightarrow> Inr (Credit m r a)) else Inr l) = Inr l'"
    "ledger_supply l' = ledger_supply l"
    "unat (GetBalance l' k) + (if c then unat a else 0) \<ge> unat (GetBalance l k)"
    "\<And>j. j \<noteq> k \<Longrightarrow> unat (GetBalance l' j) \<ge> unat (GetBalance l j)"
proof (cases "c \<and> a > 0")
  case True
  then have le: "a \<le> GetBalance l k" using assms(1) by (simp add: word_le_nat_alt)
  then obtain m where m: "Debit l k a = Some m" using bl.debit_succeeds by blast
  have "ledger_supply m + unat a < 2 ^ 64" using bl.debit_supply [OF m] assms(2) by simp
  note up = bl.credit_no_wrap [OF this, of _ r]
  show thesis
  proof (rule that [of "Credit m r a"])
    show "unat (GetBalance (Credit m r a) k) + (if c then unat a else 0) \<ge> unat (GetBalance l k)"
      using True up [of k] bl.debit_bal [OF m, of k] unat_diff_le [OF le] by simp
    show "unat (GetBalance (Credit m r a) j) \<ge> unat (GetBalance l j)" if "j \<noteq> k" for j
      using that up [of j] bl.debit_bal [OF m, of j] by simp
  qed (use True m bl.payment_supply [OF m assms(2)] in simp_all)
next
  case False
  then show thesis by (intro that [of l]) (auto simp: word_pos_iff)
qed

text \<open>A sender who can cover the outlay pays it, and no coin appears or disappears elsewhere.\<close>

lemma ApplyLedgerMutations_pays:
  assumes own: "length (sl (OwnerKey tx)) > 0" and cap: "ledger_supply l < 2 ^ 64"
    and funds: "outlay tx \<le> unat (GetBalance l (hex (sl (OwnerKey tx))))"
  obtains l' where "ApplyLedgerMutations tx l = Inr l'"
    "ledger_supply l' + unat (Fee tx) + staked_by tx = ledger_supply l"
    "unat (GetBalance l' (hex (sl (OwnerKey tx)))) + outlay tx \<ge> unat (GetBalance l (hex (sl (OwnerKey tx))))"
    "\<And>j. j \<noteq> hex (sl (OwnerKey tx)) \<Longrightarrow> unat (GetBalance l' j) \<ge> unat (GetBalance l j)"
proof -
  let ?k = "hex (sl (OwnerKey tx))"
  let ?f = "TxType tx = FUND \<and> length (sl (Recipient tx)) > 0" and ?s = "TxType tx = STAKE"
  define l0 where "l0 = IncrementNonce l ?k"
  have l0: "ledger_supply l0 = ledger_supply l" "\<And>j. GetBalance l0 j = GetBalance l j"
    by (simp_all add: l0_def ledger_simps)
  obtain l1 where l1:
    "(if True \<and> Fee tx > 0 then (case Debit l0 ?k (Fee tx) of None \<Rightarrow> sliced 8 ?k (Inr l0) | Some m \<Rightarrow> Inr m) else Inr l0) = Inr l1"
    "ledger_supply l1 + (if True then unat (Fee tx) else 0) = ledger_supply l0"
    "unat (GetBalance l1 ?k) + (if True then unat (Fee tx) else 0) = unat (GetBalance l0 ?k)"
    "\<And>j. j \<noteq> ?k \<Longrightarrow> GetBalance l1 j = GetBalance l0 j"
    by (rule debit_stage [of True "Fee tx" l0 ?k "sliced 8 ?k (Inr l0)"]) (use funds l0 in \<open>auto simp: outlay_def\<close>)
  have bal1: "unat (GetBalance l1 ?k) + unat (Fee tx) = unat (GetBalance l ?k)" using l1(3) l0 by simp
  obtain l2 where l2:
    "(if ?f \<and> ListPrice tx > 0 then (case Debit l1 ?k (ListPrice tx) of None \<Rightarrow> sliced 8 ?k (Inr l1)
       | Some m \<Rightarrow> Inr (Credit m (hex (sl (Recipient tx))) (ListPrice tx))) else Inr l1) = Inr l2"
    "ledger_supply l2 = ledger_supply l1"
    "unat (GetBalance l2 ?k) + (if ?f then unat (ListPrice tx) else 0) \<ge> unat (GetBalance l1 ?k)"
    "\<And>j. j \<noteq> ?k \<Longrightarrow> unat (GetBalance l2 j) \<ge> unat (GetBalance l1 j)"
    by (rule fund_stage [of ?f "ListPrice tx" l1 ?k "sliced 8 ?k (Inr l1)" "hex (sl (Recipient tx))"])
      (use funds bal1 l0 l1(2) cap in \<open>auto simp: outlay_def\<close>)
  obtain l3 where l3:
    "(if ?s \<and> StakeAmount tx > 0 then (case Debit l2 ?k (StakeAmount tx) of None \<Rightarrow> sliced 8 ?k (Inr l2) | Some m \<Rightarrow> Inr m) else Inr l2) = Inr l3"
    "ledger_supply l3 + (if ?s then unat (StakeAmount tx) else 0) = ledger_supply l2"
    "unat (GetBalance l3 ?k) + (if ?s then unat (StakeAmount tx) else 0) = unat (GetBalance l2 ?k)"
    "\<And>j. j \<noteq> ?k \<Longrightarrow> GetBalance l3 j = GetBalance l2 j"
    by (rule debit_stage [of ?s "StakeAmount tx" l2 ?k "sliced 8 ?k (Inr l2)"])
      (use funds bal1 l2(3) in \<open>auto simp: outlay_def split: if_splits\<close>)
  show thesis
  proof (rule that [of l3])
    show "ApplyLedgerMutations tx l = Inr l3"
      using own l1(1) l2(1) l3(1) unfolding ApplyLedgerMutations_def Let_def l0_def [symmetric]
      by (simp only: simp_thms conj_assoc bindR_simps length_greater_0_conv length_0_conv if_False)
    show "ledger_supply l3 + unat (Fee tx) + staked_by tx = ledger_supply l"
      using own l0 l1(2) l2(2) l3(2) by (simp add: staked_by_def)
    show "unat (GetBalance l3 ?k) + outlay tx \<ge> unat (GetBalance l ?k)"
      using bal1 l2(3) l3(3) by (simp add: outlay_def)
    show "unat (GetBalance l3 j) \<ge> unat (GetBalance l j)" if "j \<noteq> ?k" for j
      using that l0(2) l1(4) l2(4) l3(4) by metis
  qed
qed

subsection \<open>Stake effects\<close>

definition stake_coins :: "StakeState \<Rightarrow> nat" where
  "stake_coins st = stake_supply (ssMap st) + queue_supply (ssQueue st)"

text \<open>A slashed validator keeps nothing, staked or pending; nobody else loses anything.\<close>

lemma slash_spec:
  assumes cap: "stake_coins st < 2 ^ 64"
  shows "GetStake (ssMap (slash st v)) v = 0" "pending_of v (pending (ssQueue (slash st v))) = 0"
    "stake_coins (slash st v) + unat (GetStake (ssMap st) v) + pending_of v (pending (ssQueue st)) = stake_coins st"
    "w \<noteq> v \<Longrightarrow> GetStake (ssMap (slash st v)) w = GetStake (ssMap st) w"
    "ssSlashed (slash st v) = ssSlashed st"
proof -
  let ?s = "GetStake (ssMap st) v" and ?p = "pending_of v (pending (ssQueue st))"
  have s: "unat ?s \<le> stake_supply (ssMap st)" by (rule stake_le_supply)
  have p: "?p \<le> queue_supply (ssQueue st)" using pending_of_le by (simp add: queue_supply_def)
  have pend: "unat (GetPendingStake (ssQueue st) v) = ?p"
    using p cap by (intro GetPendingStake_exact) (simp add: stake_coins_def)
  have tot: "unat (?s + GetPendingStake (ssQueue st) v) = unat ?s + ?p"
    using s p cap pend by (subst unat_add_small) (simp_all add: stake_coins_def)
  have amount: "ComputeSlashAmount (?s + GetPendingStake (ssQueue st) v) SlashingPercent = ?s + GetPendingStake (ssQueue st) v"
    by (simp add: ComputeSlashAmount_total)
  have reduce: "stake_supply (ReduceStake (ssMap st) v ?s) + unat ?s = stake_supply (ssMap st)"
    "GetStake (ReduceStake (ssMap st) v ?s) v = 0"
    using stk.reduce_exact [of ?s "ssMap st" v] stk.reduce_all [of "ssMap st" v ?s] by simp_all
  have burn: "pending_of v (pending q) = 0 \<and> queue_supply q + ?p = queue_supply (ssQueue st)"
    if "BurnPending (ssQueue st) v (GetPendingStake (ssQueue st) v) = (q, b)" for q b
    using BurnPending_spec(1,2) [OF that] queue_supply_BurnPending [OF that] pend by simp
  have "slash st v = st\<lparr>ssMap := ReduceStake (ssMap st) v ?s\<rparr> \<and> ?p = 0 \<or>
      (\<exists>q b. slash st v = st\<lparr>ssMap := ReduceStake (ssMap st) v ?s, ssQueue := q\<rparr> \<and>
        BurnPending (ssQueue st) v (GetPendingStake (ssQueue st) v) = (q, b))"
  proof (cases "?p = 0")
    case True
    with pend have "GetPendingStake (ssQueue st) v = 0" by (simp add: unat_eq_0)
    with True amount show ?thesis by (simp add: slash_def Let_def)
  next
    case False
    with tot have "\<not> ?s + GetPendingStake (ssQueue st) v \<le> ?s" by (simp add: word_le_nat_alt)
    with amount show ?thesis
      by (cases "BurnPending (ssQueue st) v (GetPendingStake (ssQueue st) v)") (simp add: slash_def Let_def)
  qed
  then show "GetStake (ssMap (slash st v)) v = 0" "pending_of v (pending (ssQueue (slash st v))) = 0"
    "stake_coins (slash st v) + unat ?s + ?p = stake_coins st"
    "w \<noteq> v \<Longrightarrow> GetStake (ssMap (slash st v)) w = GetStake (ssMap st) w"
    "ssSlashed (slash st v) = ssSlashed st"
    using reduce burn by (auto simp: stake_coins_def stake_simps)
qed

text \<open>What a transaction brings into or burns from the stake state.\<close>

definition slashed_by :: "codec \<Rightarrow> Transaction \<Rightarrow> StakeState \<Rightarrow> nat" where
  "slashed_by cd tx st =
     (if length (sl (OwnerKey tx)) > 0 \<and> TxType tx = EQUIVOCATION_PROOF \<and> length (EquivBlockA tx) > 0 then
        (case DeserializeBlock cd (EquivBlockA tx) of
           Inl p \<Rightarrow> 0
         | Inr b \<Rightarrow>
             if offenseKey b |\<in>| ssSlashed st then 0
             else unat (GetStake (ssMap st) (hex (SlotLeader b)))
                  + pending_of (hex (SlotLeader b)) (pending (ssQueue st)))
      else 0)"

lemma ApplyStakeMutations_coins:
  assumes app: "ApplyStakeMutations cd tx st slot = Inr st'"
    and cap: "stake_coins st + staked_by tx < 2 ^ 64"
    and unst: "TxType tx = UNSTAKE \<Longrightarrow> StakeAmount tx \<le> GetStake (ssMap st) (hex (sl (OwnerKey tx)))"
  shows "stake_coins st' + slashed_by cd tx st = stake_coins st + staked_by tx"
proof (cases "length (sl (OwnerKey tx)) = 0")
  case True
  with app show ?thesis by (simp add: ApplyStakeMutations_def slashed_by_def staked_by_def)
next
  case own: False
  show ?thesis
  proof (cases "TxType tx")
    case STAKE
    with own app cap stake_supply_AddStake [of "ssMap st" "StakeAmount tx" "hex (sl (OwnerKey tx))"] show ?thesis
      by (auto simp: ApplyStakeMutations_def slashed_by_def staked_by_def stake_coins_def Let_def)
  next
    case UNSTAKE
    with own app stk.reduce_exact [OF unst [OF UNSTAKE]] show ?thesis
      by (auto simp: ApplyStakeMutations_def slashed_by_def staked_by_def stake_coins_def Let_def stake_simps)
  next
    case EQUIVOCATION_PROOF
    have "stake_coins st < 2 ^ 64" using cap by simp
    note sl = slash_spec(3) [OF this]
    show ?thesis
    proof (cases "length (EquivBlockA tx) = 0")
      case True
      with EQUIVOCATION_PROOF own app show ?thesis
        by (simp add: ApplyStakeMutations_def slashed_by_def staked_by_def Let_def)
    next
      case False
      with EQUIVOCATION_PROOF own app obtain b where b: "DeserializeBlock cd (EquivBlockA tx) = Inr b"
        by (auto simp: ApplyStakeMutations_def Let_def bindR_eq_Inr)
      show ?thesis
        using EQUIVOCATION_PROOF own app False b sl [of "hex (SlotLeader b)"]
        by (cases "offenseKey b |\<in>| ssSlashed st")
          (auto simp: ApplyStakeMutations_def slashed_by_def staked_by_def Let_def stake_coins_def)
    qed
  qed (use own app in \<open>auto simp: ApplyStakeMutations_def slashed_by_def staked_by_def Let_def\<close>)
qed

subsection \<open>Domain effects\<close>

text \<open>An operation that reports an error has changed nothing.\<close>

lemma apply_error_atomic:
  "ApplyDomainMutations I C tx ds slot bi i spd = Inr (ds', Some e) \<Longrightarrow> ds' = ds"
  by (cases "TxType tx")
    (auto simp: apply_defs result_defs Let_def bindR_eq_Inr split: if_splits option.splits)

text \<open>The only coins that move here are the price of a sale.\<close>

lemma apply_ledger:
  assumes "ApplyDomainMutations I C tx ds slot bi i spd = Inr (ds', r)"
  shows "dsLedger ds' = dsLedger ds \<or>
    (\<exists>l. TxType tx = BUY \<and>
      Debit (dsLedger ds) (hex (sl (OwnerKey tx))) (diGetListPrice I (dsIndex ds) (DomainName tx)) = Some l \<and>
      dsLedger ds' = Credit l (hex (sl (diGetOwner I (dsIndex ds) (DomainName tx))))
        (diGetListPrice I (dsIndex ds) (DomainName tx)))"
  using assms by (cases "TxType tx")
    (auto simp: apply_defs result_defs Let_def bindR_eq_Inr split: if_splits option.splits)

lemma apply_supply:
  assumes "ApplyDomainMutations I C tx ds slot bi i spd = Inr (ds', r)" "ledger_supply (dsLedger ds) < 2 ^ 64"
  shows "ledger_supply (dsLedger ds') = ledger_supply (dsLedger ds)"
  using apply_ledger [OF assms(1)] bl.payment_supply [OF _ assms(2)] by auto

context domain_indexer
begin

text \<open>Storing a new transaction for a domain and writing its owner back.\<close>

lemma restore_owner:
  assumes "inv s" "diAdd ops s d tx b i spd = Inr s1"
  defines "s2 \<equiv> (case diGetOwner ops s d of None \<Rightarrow> s1 | Some k \<Rightarrow> diSetOwner ops s1 d (Some k))"
  shows "inv s2" "diGetDomain ops s2 d = Some tx" "diGetListPrice ops s2 e = diGetListPrice ops s e"
    "e = d \<or> HashDomain e \<noteq> HashDomain d \<Longrightarrow> diGetOwner ops s2 e = diGetOwner ops s e"
    "HashDomain e \<noteq> HashDomain d \<Longrightarrow> diGetDomain ops s2 e = diGetDomain ops s e"
  using add_inv [OF assms(1,2)] domain_add [OF assms(1,2)] domain_add_other [OF assms(1,2)] meta_add [OF assms(1,2)]
  by (auto simp: s2_def index_laws split: option.splits)

lemma update_or_renew_spec:
  assumes "inv (dsIndex ds)" "applyUpdateOrRenew ops tx ds slot i spd b = Inr (ds', None)"
  shows "inv (dsIndex ds')" "dsLedger ds' = dsLedger ds" "dsCommits ds' = dsCommits ds"
    "diIsSpent ops (dsIndex ds') (RedeemsTxID tx)"
    "\<exists>t. diGetDomain ops (dsIndex ds') (DomainName tx) = Some t \<and> (t = tx \<or> b \<and> (\<exists>rs. t = tx\<lparr>Records := rs\<rparr>))"
    "e = DomainName tx \<or> HashDomain e \<noteq> HashDomain (DomainName tx) \<Longrightarrow>
       diGetOwner ops (dsIndex ds') e = diGetOwner ops (dsIndex ds) e \<and>
       diGetListPrice ops (dsIndex ds') e = diGetListPrice ops (dsIndex ds) e"
proof -
  let ?d = "DomainName tx" and ?s = "diMarkAsSpent ops (dsIndex ds) (RedeemsTxID tx)"
  define st where "st = (if b then (case diGetDomain ops ?s ?d of None \<Rightarrow> tx
      | Some c \<Rightarrow> if length (Records c) > 0 then tx\<lparr>Records := Records c\<rparr> else tx) else tx)"
  have inv: "inv ?s" using assms(1) by (rule spent_inv)
  obtain s1 where s1: "diAdd ops ?s ?d st slot i spd = Inr s1"
    and ds': "ds' = ds\<lparr>dsIndex := (case diGetOwner ops ?s ?d of
        None \<Rightarrow> (if diGetListPrice ops ?s ?d > 0 then diSetListPrice ops s1 ?d (diGetListPrice ops ?s ?d) else s1)
      | Some k \<Rightarrow> diSetOwner ops (if diGetListPrice ops ?s ?d > 0 then diSetListPrice ops s1 ?d (diGetListPrice ops ?s ?d) else s1) ?d (Some k))\<rparr>"
    using assms(2) by (auto simp: applyUpdateOrRenew_def result_defs Let_def bindR_eq_Inr st_def split: if_splits option.splits)
  have rs: "st = tx \<or> b \<and> (\<exists>rs. st = tx\<lparr>Records := rs\<rparr>)"
    by (auto simp: st_def split: option.splits)
  note laws = add_inv [OF inv s1] domain_add [OF inv s1] meta_add [OF inv s1] spent_add [OF s1]
  show "inv (dsIndex ds')" "dsLedger ds' = dsLedger ds" "dsCommits ds' = dsCommits ds"
    "diIsSpent ops (dsIndex ds') (RedeemsTxID tx)"
    using laws by (auto simp: ds' index_laws split: option.splits)
  show "\<exists>t. diGetDomain ops (dsIndex ds') (DomainName tx) = Some t \<and> (t = tx \<or> b \<and> (\<exists>rs. t = tx\<lparr>Records := rs\<rparr>))"
    using laws rs by (auto simp: ds' index_laws split: option.splits)
  show "e = DomainName tx \<or> HashDomain e \<noteq> HashDomain (DomainName tx) \<Longrightarrow>
       diGetOwner ops (dsIndex ds') e = diGetOwner ops (dsIndex ds) e \<and>
       diGetListPrice ops (dsIndex ds') e = diGetListPrice ops (dsIndex ds) e"
    using laws inv by (auto simp: ds' index_laws split: option.splits)
qed

lemma reveal_spec:
  assumes "inv (dsIndex ds)" "applyReveal ops C tx ds slot i spd = Inr (ds', None)" "dsCommits ds = Some cs"
    "Recipient tx = Some k"
  shows "inv (dsIndex ds')" "dsLedger ds' = dsLedger ds"
    "csGetCommit C cs (reveal_key tx) \<noteq> None" "dsCommits ds' = Some (csConsumeCommit C cs (reveal_key tx))"
    "case diGetDomain ops (dsIndex ds) (DomainName tx) of None \<Rightarrow> True
     | Some old \<Rightarrow> GetDomainPhase slot (ExpirySlot old) spd = ''purged''"
    "diGetDomain ops (dsIndex ds') (DomainName tx) = Some tx" "diGetOwner ops (dsIndex ds') (DomainName tx) = Some k"
    "diIsSpent ops (dsIndex ds') (RedeemsTxID tx)"
proof -
  obtain s1 where s1: "diAdd ops (dsIndex ds) (DomainName tx) tx slot i spd = Inr s1"
    and ds': "ds' = ds\<lparr>dsIndex := diMarkAsSpent ops (diSetOwner ops s1 (DomainName tx) (Some k)) (RedeemsTxID tx),
      dsCommits := Some (csConsumeCommit C cs (reveal_key tx))\<rparr>"
    and com: "csGetCommit C cs (reveal_key tx) \<noteq> None"
    and phase: "case diGetDomain ops (dsIndex ds) (DomainName tx) of None \<Rightarrow> True
     | Some old \<Rightarrow> GetDomainPhase slot (ExpirySlot old) spd = ''purged''"
    using assms(2-) by (auto simp: applyReveal_def result_defs Let_def bindR_eq_Inr split: if_splits option.splits)
  note laws = add_inv [OF assms(1) s1] domain_add [OF assms(1) s1]
  show "inv (dsIndex ds')" "dsLedger ds' = dsLedger ds" "csGetCommit C cs (reveal_key tx) \<noteq> None"
    "dsCommits ds' = Some (csConsumeCommit C cs (reveal_key tx))"
    "case diGetDomain ops (dsIndex ds) (DomainName tx) of None \<Rightarrow> True
     | Some old \<Rightarrow> GetDomainPhase slot (ExpirySlot old) spd = ''purged''"
    "diGetDomain ops (dsIndex ds') (DomainName tx) = Some tx" "diGetOwner ops (dsIndex ds') (DomainName tx) = Some k"
    "diIsSpent ops (dsIndex ds') (RedeemsTxID tx)"
    using laws com phase by (simp_all add: ds' index_laws)
qed

lemma buy_spec:
  assumes "inv (dsIndex ds)" "OwnerKey tx = Some k"
    "applyBuyDomain ops tx ds (hex k) slot spd = Inr (ds', None)"
  defines "price \<equiv> diGetListPrice ops (dsIndex ds) (DomainName tx)"
    and "seller \<equiv> hex (sl (diGetOwner ops (dsIndex ds) (DomainName tx)))"
  shows "inv (dsIndex ds')" "0 < price" "price \<le> ListPrice tx" "seller \<noteq> hex k"
    "\<exists>l. Debit (dsLedger ds) (hex k) price = Some l \<and> dsLedger ds' = Credit l seller price"
    "diGetOwner ops (dsIndex ds') (DomainName tx) = Some k" "\<not> diIsForSale ops (dsIndex ds') (DomainName tx)"
    "diGetDomain ops (dsIndex ds') e = diGetDomain ops (dsIndex ds) e" "dsCommits ds' = dsCommits ds"
proof -
  obtain dom l where dom: "diGetDomain ops (dsIndex ds) (DomainName tx) = Some dom"
    and sale: "diIsForSale ops (dsIndex ds) (DomainName tx)" and le: "price \<le> ListPrice tx" and ne: "seller \<noteq> hex k"
    and l: "Debit (dsLedger ds) (hex k) price = Some l"
    and ds': "ds' = ds\<lparr>dsLedger := Credit l seller price,
      dsIndex := diSetListPrice ops (diSetOwner ops (dsIndex ds) (DomainName tx) (Some k)) (DomainName tx) 0\<rparr>"
    using assms(2,3) unfolding price_def seller_def
    by (auto simp: applyBuyDomain_def result_defs Let_def split: if_splits option.splits)
  note h = hand_over [OF assms(1) dom]
  show "inv (dsIndex ds')" "0 < price" "price \<le> ListPrice tx" "seller \<noteq> hex k"
    "diGetOwner ops (dsIndex ds') (DomainName tx) = Some k" "\<not> diIsForSale ops (dsIndex ds') (DomainName tx)"
    "diGetDomain ops (dsIndex ds') e = diGetDomain ops (dsIndex ds) e" "dsCommits ds' = dsCommits ds"
    using h sale le ne by (simp_all add: ds' for_sale price_def)
  show "\<exists>l. Debit (dsLedger ds) (hex k) price = Some l \<and> dsLedger ds' = Credit l seller price"
    using l by (simp add: ds')
qed

text \<open>Every transaction keeps the index in order.\<close>

lemma register_inv:
  "inv (dsIndex ds) \<Longrightarrow> applyRegister ops tx ds slot i spd = Inr (ds', r) \<Longrightarrow> inv (dsIndex ds')"
  by (auto simp: applyRegister_def result_defs Let_def bindR_eq_Inr index_laws dest: add_inv split: if_splits option.splits)

lemma reveal_inv:
  "inv (dsIndex ds) \<Longrightarrow> applyReveal ops C tx ds slot i spd = Inr (ds', r) \<Longrightarrow> inv (dsIndex ds')"
  by (auto simp: applyReveal_def result_defs Let_def bindR_eq_Inr index_laws dest: add_inv split: if_splits option.splits)

lemma revoke_cases:
  assumes "inv (dsIndex ds)" "applyRevoke ops tx ds slot i spd = Inr (ds', r)"
  shows "inv (dsIndex ds')"
    "e = DomainName tx \<or> HashDomain e \<noteq> HashDomain (DomainName tx) \<Longrightarrow>
     diGetOwner ops (dsIndex ds') e = diGetOwner ops (dsIndex ds) e"
proof -
  define s where "s = (if RedeemsTxID tx \<noteq> 0 then diMarkAsSpent ops (dsIndex ds) (RedeemsTxID tx) else dsIndex ds)"
  have inv: "inv s" and own: "diGetOwner ops s c = diGetOwner ops (dsIndex ds) c" for c
    using assms(1) by (simp_all add: s_def index_laws)
  have "ds' = ds \<or> (\<exists>s1. diAdd ops s (DomainName tx) tx slot i spd = Inr s1 \<and>
      dsIndex ds' = (case diGetOwner ops s (DomainName tx) of None \<Rightarrow> s1 | Some k \<Rightarrow> diSetOwner ops s1 (DomainName tx) (Some k)))"
    using assms(2) unfolding own applyRevoke_def Let_def s_def [symmetric]
    by (simp only: result_defs bindR_eq_Inr sum.inject prod.inject split: if_split_asm) auto
  then show "inv (dsIndex ds')" "e = DomainName tx \<or> HashDomain e \<noteq> HashDomain (DomainName tx) \<Longrightarrow>
     diGetOwner ops (dsIndex ds') e = diGetOwner ops (dsIndex ds) e"
    using assms(1) restore_owner(1,4) [OF inv] own by auto
qed

lemma market_inv:
  assumes "inv (dsIndex ds)"
  shows "applyList ops tx ds slot spd = Inr (ds', r) \<Longrightarrow> inv (dsIndex ds')"
    "applyDelist ops tx ds slot spd = Inr (ds', r) \<Longrightarrow> inv (dsIndex ds')"
    "applyBuyDomain ops tx ds k slot spd = Inr (ds', r) \<Longrightarrow> inv (dsIndex ds')"
    "applyTransferDomain ops tx ds k slot spd = Inr (ds', r) \<Longrightarrow> inv (dsIndex ds')"
  using assms
  by (auto simp: applyList_def applyDelist_def applyBuyDomain_def applyTransferDomain_def result_defs Let_def
      index_laws split: if_split_asm option.split_asm)

lemma update_or_renew_error:
  "applyUpdateOrRenew ops tx ds slot i spd b = Inr (ds', Some x) \<Longrightarrow> ds' = ds"
  by (auto simp: applyUpdateOrRenew_def result_defs Let_def bindR_eq_Inr split: if_split_asm option.split_asm)

lemma update_or_renew_keeps:
  assumes "inv (dsIndex ds)" "applyUpdateOrRenew ops tx ds slot i spd b = Inr (ds', r)"
  shows "inv (dsIndex ds')" "e = DomainName tx \<or> HashDomain e \<noteq> HashDomain (DomainName tx) \<Longrightarrow>
    diGetOwner ops (dsIndex ds') e = diGetOwner ops (dsIndex ds) e"
proof -
  have "inv (dsIndex ds') \<and> (e = DomainName tx \<or> HashDomain e \<noteq> HashDomain (DomainName tx) \<longrightarrow>
    diGetOwner ops (dsIndex ds') e = diGetOwner ops (dsIndex ds) e)"
  proof (cases r)
    case None
    then show ?thesis using assms update_or_renew_spec(1,6) by blast
  next
    case (Some x)
    then have "ds' = ds" using assms(2) update_or_renew_error by blast
    then show ?thesis using assms(1) by simp
  qed
  then show "inv (dsIndex ds')" "e = DomainName tx \<or> HashDomain e \<noteq> HashDomain (DomainName tx) \<Longrightarrow>
    diGetOwner ops (dsIndex ds') e = diGetOwner ops (dsIndex ds) e" by simp_all
qed

lemma apply_inv:
  assumes "inv (dsIndex ds)" "ApplyDomainMutations ops C tx ds slot bi i spd = Inr (ds', r)"
  shows "inv (dsIndex ds')"
  using assms
  by (cases "TxType tx")
    (auto simp: ApplyDomainMutations_def applyUpdate_def applyRenew_def applyCommit_def result_defs Let_def
      intro: register_inv reveal_inv revoke_cases(1) market_inv update_or_renew_keeps(1)
      split: if_split_asm option.split_asm)

lemma owner_after_add:
  assumes "inv s" "diAdd ops s d tx b i spd = Inr s1" "HashDomain e \<noteq> HashDomain d"
  shows "diGetOwner ops (diSetOwner ops s1 d k) e = diGetOwner ops s e"
  using assms owner_set_owner_other [OF add_inv [OF assms(1,2)]] meta_add [OF assms(1,2)] by simp

text \<open>The owner of a domain changes in four ways only.\<close>

lemma owner_change:
  assumes inv: "inv (dsIndex ds)" and app: "ApplyDomainMutations ops C tx ds slot bi i spd = Inr (ds', r)"
    and e: "e = DomainName tx \<or> HashDomain e \<noteq> HashDomain (DomainName tx)"
    and ne: "diGetOwner ops (dsIndex ds') e \<noteq> diGetOwner ops (dsIndex ds) e"
  shows "e = DomainName tx \<and>
    ((TxType tx = REGISTER \<or> TxType tx = REVEAL) \<and>
       (\<forall>old. diGetDomain ops (dsIndex ds) e = Some old \<longrightarrow> GetDomainPhase slot (ExpirySlot old) spd = ''purged'') \<or>
     TxType tx = BUY \<and> diIsForSale ops (dsIndex ds) e \<and> diGetListPrice ops (dsIndex ds) e \<le> ListPrice tx \<or>
     TxType tx = TRANSFER \<and> (\<exists>k. diGetOwner ops (dsIndex ds) e = Some k \<and> k = sl (OwnerKey tx)))"
proof (cases "TxType tx")
  case REGISTER
  then show ?thesis
    using app e ne owner_after_add [OF inv]
    by (fastforce simp: ApplyDomainMutations_def applyRegister_def result_defs Let_def bindR_eq_Inr
        split: if_split_asm option.split_asm)
next
  case REVEAL
  then show ?thesis
    using app e ne owner_after_add [OF inv]
    by (fastforce simp: ApplyDomainMutations_def applyReveal_def result_defs Let_def bindR_eq_Inr owner_mark
        split: if_split_asm option.split_asm)
next
  case BUY
  then show ?thesis
    using inv app e ne
    by (auto simp: ApplyDomainMutations_def applyBuyDomain_def result_defs Let_def index_laws
        split: if_split_asm option.split_asm)
next
  case TRANSFER
  then show ?thesis
    using inv app e ne
    by (auto simp: ApplyDomainMutations_def applyTransferDomain_def result_defs Let_def index_laws
        split: if_split_asm option.split_asm)
next
  case REVOKE
  then show ?thesis using revoke_cases(2) [OF inv] app e ne by (auto simp: ApplyDomainMutations_def)
next
  case UPDATE
  then show ?thesis
    using update_or_renew_keeps(2) [OF inv] app e ne
    by (auto simp: ApplyDomainMutations_def applyUpdate_def result_defs Let_def split: if_split_asm)
next
  case RENEW
  then show ?thesis
    using update_or_renew_keeps(2) [OF inv] app e ne
    by (auto simp: ApplyDomainMutations_def applyRenew_def result_defs Let_def split: if_split_asm)
next
  case LIST
  then show ?thesis
    using inv app ne by (auto simp: ApplyDomainMutations_def applyList_def result_defs Let_def index_laws
        split: if_split_asm option.split_asm)
next
  case DELIST
  then show ?thesis
    using inv app ne by (auto simp: ApplyDomainMutations_def applyDelist_def result_defs Let_def index_laws
        split: if_split_asm option.split_asm)
next
  case COMMIT
  then show ?thesis
    using app ne by (auto simp: ApplyDomainMutations_def applyCommit_def result_defs Let_def
        split: if_split_asm option.split_asm)
qed (use app ne in \<open>auto simp: ApplyDomainMutations_def result_defs\<close>)

end

subsection \<open>Properties\<close>

text \<open>A transaction whose domain effects fail leaves balances, index and commits untouched, for
  every transaction type and whatever indexer and commit store the block is applied to.\<close>

theorem apply_error_leaves_state:
  assumes "ApplyDomainMutations I C tx ds slot bi i spd = Inr (ds', Some e)"
  shows "ds' = ds"
  using assms by (rule apply_error_atomic)

definition sample_domain :: Transaction where
  "sample_domain = zero_Transaction\<lparr>TID := 4, DomainName := ''a.com'', ExpirySlot := 100\<rparr>"

definition sample_state :: "(string fset IndexOverlay, CommitOverlay) DomainState" where
  "sample_state = \<lparr>dsLedger = Seed NewBalanceLedger (hex [5, 6, 7, 8]) 90,
     dsIndex = sample_overlay sample_domain [1, 2, 3, 4] 30, dsCommits = None\<rparr>"

lemma sample_state_views:
  "GetDomainO sample_bloom (dsIndex sample_state) ''a.com'' = Some sample_domain"
  "GetOwnerO (dsIndex sample_state) ''a.com'' = Some [1, 2, 3, 4]"
  "GetListPriceO (dsIndex sample_state) ''a.com'' = 30"
  "IsForSaleO (dsIndex sample_state) ''a.com''"
  "ov_inv sample_bloom (dsIndex sample_state)"
proof -
  have "DomainName sample_domain = ''a.com''" by (simp add: sample_domain_def)
  note views = sample_overlay_views [of sample_domain "[1, 2, 3, 4]" 30, unfolded this]
  show "GetDomainO sample_bloom (dsIndex sample_state) ''a.com'' = Some sample_domain"
    "GetOwnerO (dsIndex sample_state) ''a.com'' = Some [1, 2, 3, 4]"
    "GetListPriceO (dsIndex sample_state) ''a.com'' = 30"
    "IsForSaleO (dsIndex sample_state) ''a.com''"
    "ov_inv sample_bloom (dsIndex sample_state)"
    by (simp_all add: sample_state_def views sample_overlay_inv)
qed

lemma sample_state_ledger:
  "GetBalance (dsLedger sample_state) k = (if k = hex [5, 6, 7, 8] then 90 else 0)"
  by (simp add: sample_state_def ledger_simps del: hex.simps)

lemmas sample_eval = ApplyDomainMutations_def IndexOverlayOps_def sample_state_views SetOwnerO_views
  SetListPriceO_views result_defs

abbreviation sample_market :: "TransactionType \<Rightarrow> bytes \<Rightarrow> Transaction" where
  "sample_market t key \<equiv> zero_Transaction\<lparr>TxType := t, DomainName := ''a.com'', OwnerKey := Some key,
     ListPrice := 40, Recipient := Some [9, 9, 9, 9]\<rparr>"

theorem apply_error_leaves_state_witness:
  "\<exists>ds'. ApplyDomainMutations (IndexOverlayOps sample_bloom sorted_keys) CommitOverlayOps
     (sample_market TRANSFER [5, 6, 7, 8]) sample_state 10 1 0 10 = Inr (ds', Some NotOwner) \<and> ds' = sample_state"
proof -
  have "ApplyDomainMutations (IndexOverlayOps sample_bloom sorted_keys) CommitOverlayOps
     (sample_market TRANSFER [5, 6, 7, 8]) sample_state 10 1 0 10 = Inr (sample_state, Some NotOwner)"
    by (simp add: sample_eval applyTransferDomain_def Let_def sample_domain_def del: hex.simps)
  with apply_error_leaves_state [OF this] show ?thesis by blast
qed

text \<open>C12: a domain changes hands only in the ways the protocol has: by a REGISTER or REVEAL of a name
  that is free or purged, by a BUY of a domain that is for sale at no more than the buyer's limit, or
  by a TRANSFER its owner asked for; no transaction changes the owner of another name (two names with
  the same hash apart).\<close>

theorem ownership_change_justified:
  assumes "ov_inv B (dsIndex ds)"
    and "ApplyDomainMutations (IndexOverlayOps B ord) C tx ds slot bi i spd = Inr (ds', r)"
    and "e = DomainName tx \<or> HashDomain e \<noteq> HashDomain (DomainName tx)"
    and "GetOwnerO (dsIndex ds') e \<noteq> GetOwnerO (dsIndex ds) e"
  shows "e = DomainName tx \<and>
    ((TxType tx = REGISTER \<or> TxType tx = REVEAL) \<and>
       pred_option (\<lambda>old. GetDomainPhase slot (ExpirySlot old) spd = ''purged'') (GetDomainO B (dsIndex ds) e) \<or>
     TxType tx = BUY \<and> IsForSaleO (dsIndex ds) e \<and> GetListPriceO (dsIndex ds) e \<le> ListPrice tx \<or>
     TxType tx = TRANSFER \<and> GetOwnerO (dsIndex ds) e = Some (sl (OwnerKey tx)))"
  using ovx.owner_change [OF assms(1-3)] assms(4)
  by (cases "GetDomainO B (dsIndex ds) e") (auto simp: IndexOverlayOps_def)

theorem ownership_change_justified_witness:
  "\<exists>ds'. ApplyDomainMutations (IndexOverlayOps sample_bloom sorted_keys) CommitOverlayOps
       (sample_market TRANSFER [1, 2, 3, 4]) sample_state 10 1 0 10 = Inr (ds', None) \<and>
     GetOwnerO (dsIndex ds') ''a.com'' = Some [9, 9, 9, 9] \<and>
     GetOwnerO (dsIndex sample_state) ''a.com'' = Some (sl (OwnerKey (sample_market TRANSFER [1, 2, 3, 4])))"
proof -
  let ?ds = "sample_state\<lparr>dsIndex := SetListPriceO sample_bloom (SetOwnerO sample_bloom (dsIndex sample_state)
    ''a.com'' (Some [9, 9, 9, 9])) ''a.com'' 0\<rparr>"
  have app: "ApplyDomainMutations (IndexOverlayOps sample_bloom sorted_keys) CommitOverlayOps
     (sample_market TRANSFER [1, 2, 3, 4]) sample_state 10 1 0 10 = Inr (?ds, None)"
    by (simp add: sample_eval applyTransferDomain_def Let_def sample_domain_def del: hex.simps)
  have own: "GetOwnerO (dsIndex ?ds) ''a.com'' = Some [9, 9, 9, 9]" by (simp add: sample_eval)
  from ownership_change_justified [OF sample_state_views(5) app, of "''a.com''"] own
  have "GetOwnerO (dsIndex sample_state) ''a.com'' = Some (sl (OwnerKey (sample_market TRANSFER [1, 2, 3, 4])))"
    by (auto simp: sample_state_views)
  with app own show ?thesis by blast
qed

text \<open>A BUY that succeeds is a fair exchange: the seller, who is not the buyer, receives exactly
  the listed price, which the buyer had and had offered at least; the buyer owns the domain, which is
  no longer for sale; no coin is made or lost; and the registered records stay.\<close>

theorem buy_exchanges:
  assumes "ov_inv B (dsIndex ds)" "OwnerKey tx = Some k" "ledger_supply (dsLedger ds) < 2 ^ 64"
    and "applyBuyDomain (IndexOverlayOps B ord) tx ds (hex k) slot spd = Inr (ds', None)"
  defines "price \<equiv> GetListPriceO (dsIndex ds) (DomainName tx)"
    and "seller \<equiv> hex (sl (GetOwnerO (dsIndex ds) (DomainName tx)))"
  shows "0 < price \<and> price \<le> ListPrice tx \<and> price \<le> GetBalance (dsLedger ds) (hex k) \<and> seller \<noteq> hex k \<and>
    GetBalance (dsLedger ds') (hex k) = GetBalance (dsLedger ds) (hex k) - price \<and>
    GetBalance (dsLedger ds') seller = GetBalance (dsLedger ds) seller + price \<and>
    ledger_supply (dsLedger ds') = ledger_supply (dsLedger ds) \<and>
    GetOwnerO (dsIndex ds') (DomainName tx) = Some k \<and> \<not> IsForSaleO (dsIndex ds') (DomainName tx) \<and>
    GetDomainO B (dsIndex ds') e = GetDomainO B (dsIndex ds) e"
proof -
  note spec = ovx.buy_spec [OF assms(1,2,4)]
  note ops [simp] = IndexOverlayOps_def
  obtain l where l: "Debit (dsLedger ds) (hex k) price = Some l" "dsLedger ds' = Credit l seller price"
    using spec(5) by (auto simp: price_def seller_def)
  have ne: "seller \<noteq> hex k" using spec(4) by (simp add: seller_def)
  show ?thesis
    using spec(2,3,6-8) bl.debit_le [OF l(1)] bl.payment_supply [OF l(1) assms(3)] bl.payment_bal(1,2) [OF l(1) ne] ne
    by (simp add: l(2)) (simp add: price_def)
qed

theorem buy_exchanges_witness:
  "\<exists>ds'. applyBuyDomain (IndexOverlayOps sample_bloom sorted_keys) (sample_market BUY [5, 6, 7, 8]) sample_state
       (hex [5, 6, 7, 8]) 10 10 = Inr (ds', None) \<and>
     GetBalance (dsLedger ds') (hex [5, 6, 7, 8]) = 60 \<and> GetBalance (dsLedger ds') (hex [1, 2, 3, 4]) = 30"
proof -
  have "\<not> GetBalance (dsLedger sample_state) (hex [5, 6, 7, 8]) < 30"
    by (simp add: sample_state_ledger del: hex.simps)
  then obtain l where l: "Debit (dsLedger sample_state) (hex [5, 6, 7, 8]) 30 = Some l"
    using Debit_None_iff by (metis not_None_eq)
  have app: "\<exists>ds'. applyBuyDomain (IndexOverlayOps sample_bloom sorted_keys) (sample_market BUY [5, 6, 7, 8]) sample_state
       (hex [5, 6, 7, 8]) 10 10 = Inr (ds', None)"
    using l by (simp add: sample_eval applyBuyDomain_def Let_def sample_domain_def del: hex.simps)
  then obtain ds' where ds': "applyBuyDomain (IndexOverlayOps sample_bloom sorted_keys) (sample_market BUY [5, 6, 7, 8])
     sample_state (hex [5, 6, 7, 8]) 10 10 = Inr (ds', None)" by blast
  have sup: "ledger_supply (dsLedger sample_state) < 2 ^ 64"
    by (simp add: sample_state_def ledger_supply_def Seed_def NewBalanceLedger_def fm_sum_def sorted_keys_def)
  from buy_exchanges [OF sample_state_views(5) _ sup ds', of "''a.com''"] ds' show ?thesis
    by (auto simp: sample_state_views sample_state_ledger simp del: hex.simps)
qed

lemma signed_fields: "signed cr priv tx = Inr tx' \<Longrightarrow> \<exists>sig. tx' = tx\<lparr>TxSignature := Some sig\<rparr>"
  by (auto simp: signed_def bindR_eq_Inr)

lemma commit_applies:
  assumes "TxType tx = COMMIT" "length (CommitHash tx) = 32" "dsCommits ds = Some cs"
  shows "\<exists>r. cmHash r = CommitHash tx \<and>
    ApplyDomainMutations I CommitStoreOps tx ds slot bi i spd = Inr (ds\<lparr>dsCommits := Some (AddCommit cs r)\<rparr>, None)"
  using assms by (force simp: ApplyDomainMutations_def applyCommit_def CommitStoreOps_def Let_def result_defs)

lemma reveal_applies:
  assumes "im_inv B (dsIndex ds)" "TxType tx = REVEAL" "dsCommits ds = Some cs"
    "GetCommit cs (reveal_key tx) \<noteq> None" "Recipient tx = Some k"
    "pred_option (\<lambda>old. GetDomainPhase slot (ExpirySlot old) spd = ''purged'') (GetDomain B (dsIndex ds) (DomainName tx))"
  obtains im where "ApplyDomainMutations (IndexManagerOps B) CommitStoreOps tx ds slot bi i spd =
      Inr (ds\<lparr>dsIndex := im, dsCommits := Some (ConsumeCommit cs (reveal_key tx))\<rparr>, None)"
    "GetDomain B im (DomainName tx) = Some tx" "GetOwner im (DomainName tx) = Some k" "IsSpent im (RedeemsTxID tx)"
proof -
  obtain im1 where im1: "Add B (dsIndex ds) (DomainName tx) tx slot i spd = Inr im1"
    using Add_spec [OF assms(1)] by metis
  note inv1 = Add_views(1,2) [OF assms(1) im1]
  have len: "16 \<le> length (reveal_key tx)" by (simp add: reveal_key_def)
  have app: "applyReveal (IndexManagerOps B) CommitStoreOps tx ds slot i spd =
      Inr (ds\<lparr>dsIndex := MarkAsSpent (SetOwner im1 (DomainName tx) (Some k)) (RedeemsTxID tx),
        dsCommits := Some (ConsumeCommit cs (reveal_key tx))\<rparr>, None)"
    using assms(3-6) im1 len unfolding applyReveal_def IndexManagerOps_def CommitStoreOps_def
    by (auto simp: Let_def result_defs simp del: phase_purged_iff split: option.splits)
  show thesis
  proof (rule that)
    show "ApplyDomainMutations (IndexManagerOps B) CommitStoreOps tx ds slot bi i spd =
      Inr (ds\<lparr>dsIndex := MarkAsSpent (SetOwner im1 (DomainName tx) (Some k)) (RedeemsTxID tx),
        dsCommits := Some (ConsumeCommit cs (reveal_key tx))\<rparr>, None)"
      using app assms(2) by (simp add: ApplyDomainMutations_def)
    show "GetDomain B (MarkAsSpent (SetOwner im1 (DomainName tx) (Some k)) (RedeemsTxID tx)) (DomainName tx) = Some tx"
      "GetOwner (MarkAsSpent (SetOwner im1 (DomainName tx) (Some k)) (RedeemsTxID tx)) (DomainName tx) = Some k"
      using inv1 by (simp_all add: SetOwner_views [OF inv1(1)])
    show "IsSpent (MarkAsSpent (SetOwner im1 (DomainName tx) (Some k)) (RedeemsTxID tx)) (RedeemsTxID tx)" by simp
  qed
qed

text \<open>C13: commit, then reveal: whatever a registrar commits to with \<open>NewCommitTransaction\<close>, the
  transaction that \<open>NewRevealTransaction\<close> builds from the same name, salt and key opens it; applied to a
  name that is free at the reveal it registers the name to the recipient, spends the commitment's
  identifier and uses the commitment up, and no balance changes.\<close>

theorem commit_reveal_registers:
  fixes slot slot' bi bi' spd :: int64
  assumes "NewCommitTransaction cr now draws domain salt key priv fee nonce pool = Some (Inr ctx)"
    and "NewRevealTransaction cr now' draws' domain salt recs ttl slot' spd (TID ctx) key (Some k) priv fee' nonce' pool'
      = Some (Inr rtx)"
    and "im_inv B (dsIndex ds)" "dsCommits ds = Some cs"
    and "pred_option (\<lambda>old. GetDomainPhase slot' (ExpirySlot old) spd = ''purged'') (GetDomain B (dsIndex ds) domain)"
  shows "\<exists>ds1 ds2 cs2. ApplyDomainMutations (IndexManagerOps B) CommitStoreOps ctx ds slot bi i spd = Inr (ds1, None) \<and>
    ApplyDomainMutations (IndexManagerOps B) CommitStoreOps rtx ds1 slot' bi' i' spd = Inr (ds2, None) \<and>
    GetDomain B (dsIndex ds2) domain = Some rtx \<and> GetOwner (dsIndex ds2) domain = Some k \<and>
    IsSpent (dsIndex ds2) (TID ctx) \<and> dsLedger ds2 = dsLedger ds \<and>
    dsCommits ds2 = Some cs2 \<and> GetCommit cs2 (hex (CommitHash ctx)) = None"
proof -
  have c: "TxType ctx = COMMIT" "CommitHash ctx = sha256 (commit_preimage domain salt (sl key))"
    using assms(1) by (auto simp: NewCommitTransaction_def dest!: signed_fields)
  have r: "TxType rtx = REVEAL" "DomainName rtx = domain" "RedeemsTxID rtx = TID ctx" "Recipient rtx = Some k"
    "reveal_key rtx = hex (CommitHash ctx)"
    using assms(2) by (auto simp: NewRevealTransaction_def reveal_key_def c dest!: signed_fields)
  obtain rec where rec: "cmHash rec = CommitHash ctx" "ApplyDomainMutations (IndexManagerOps B) CommitStoreOps ctx ds slot bi i spd =
      Inr (ds\<lparr>dsCommits := Some (AddCommit cs rec)\<rparr>, None)"
    using commit_applies [OF c(1) _ assms(4)] c(2) by (metis length_sha256)
  obtain im where "ApplyDomainMutations (IndexManagerOps B) CommitStoreOps rtx (ds\<lparr>dsCommits := Some (AddCommit cs rec)\<rparr>) slot' bi' i' spd =
      Inr (ds\<lparr>dsIndex := im, dsCommits := Some (ConsumeCommit (AddCommit cs rec) (reveal_key rtx))\<rparr>, None)"
    "GetDomain B im domain = Some rtx" "GetOwner im domain = Some k" "IsSpent im (TID ctx)"
    using reveal_applies [of B "ds\<lparr>dsCommits := Some (AddCommit cs rec)\<rparr>" rtx "AddCommit cs rec" k slot' spd bi' i'] assms(3,5) r rec(1)
    by (auto simp: commit_simps)
  with rec(2) show ?thesis by (auto simp: r commit_simps)
qed

theorem commit_reveal_registers_witness:
  "\<exists>ctx rtx ds1 ds2 cs2. NewCommitTransaction sample_crypto 1 [77] ''b.org'' [3, 4] (Some [1]) 7 5 0 fmempty = Some (Inr ctx) \<and>
    NewRevealTransaction sample_crypto 2 [78] ''b.org'' [3, 4] [] 60 20 10 (TID ctx) (Some [1]) (Some [2]) 7 5 1 fmempty
      = Some (Inr rtx) \<and>
    ApplyDomainMutations (IndexManagerOps sample_bloom) CommitStoreOps rtx ds1 20 4 0 10 = Inr (ds2, None) \<and>
    GetOwner (dsIndex ds2) ''b.org'' = Some [2] \<and> dsCommits ds2 = Some cs2"
proof -
  obtain ctx where c: "NewCommitTransaction sample_crypto 1 [77] ''b.org'' [3, 4] (Some [1]) 7 5 0 fmempty = Some (Inr ctx)"
    using signed_ok [OF sample_key_ok, of 7] by (fastforce simp: NewCommitTransaction_def Let_def)
  obtain rtx where r: "NewRevealTransaction sample_crypto 2 [78] ''b.org'' [3, 4] [] 60 20 10 (TID ctx) (Some [1]) (Some [2]) 7 5 1 fmempty
      = Some (Inr rtx)"
    using signed_ok [OF sample_key_ok, of 7] by (fastforce simp: NewRevealTransaction_def Let_def)
  define ds where "ds = \<lparr>dsLedger = NewBalanceLedger, dsIndex = NewIndexManager sample_bloom, dsCommits = Some NewCommitStore\<rparr>"
  have "im_inv sample_bloom (dsIndex ds)" "dsCommits ds = Some NewCommitStore" "GetDomain sample_bloom (dsIndex ds) ''b.org'' = None"
    using im_inv_New [OF sample_bloom_ok] by (simp_all add: ds_def GetDomain_info tree_info_def NewIndexManager_def)
  with commit_reveal_registers [OF c r, of sample_bloom ds NewCommitStore 10 1 0 4 0] c r show ?thesis by auto
qed

end
