(* ===== verification/Validate.thy ===== *)
theory Validate
  imports Apply
begin

text \<open>
  \<^verbatim>\<open>ValidateTransactions\<close> and \<^verbatim>\<open>ValidateBlock\<close> of \<^verbatim>\<open>internal/blockchain/block.go\<close>. The loop body
  is cut into its gates, in the order of the code. A gate returns the shadow state it leaves, or
  stops the validation: \<open>Reject\<close> is a \<^verbatim>\<open>return false\<close>, \<open>Panic\<close> a run-time panic. The variables of
  the loop body that later gates read (\<^verbatim>\<open>currentBalance\<close>, \<^verbatim>\<open>currentNonce\<close>, \<^verbatim>\<open>runningBalance\<close>)
  are fields of the shadow state.
\<close>

datatype stop = Reject | Panic panic

record ('s, 'c) vctx =
  vCrypto :: crypto
  vCodec :: codec
  vRegistries :: "bytes list"
  vIndexOps :: "'s DomainIndexer"
  vCommitOps :: "'c CommitStorer"
  vLedger :: BalanceLedger
  vIm :: 's
  vCs :: "'c option"
  vSlot :: int64
  vSlotsPerDay :: int64
  vIsBlock :: bool
  vSlotLeader :: bytes
  vBlockIndex :: int64
  vStakeMap :: StakeMap
  vQueue :: UnstakeQueue
  vSlashed :: "string fset"

record shadow =
  shadowNonce :: "(string, uint64) fmap"
  shadowBalance :: "(string, uint64) fmap"
  shadowSpent :: "int fset"
  shadowForSale :: "(string, uint64) fmap"
  shadowRegistered :: "string fset"
  shadowOwner :: "(string, string) fmap"
  shadowTx :: "(int, Transaction) fmap"
  shadowStake :: "(string, uint64) fmap"
  shadowPendingStake :: "(string, uint64) fmap"
  shadowQueueBurn :: "(string, uint64) fmap"
  slashedEquivocations :: "string fset"
  shadowCommit :: "string fset"
  currentBalance :: uint64
  currentNonce :: uint64
  runningBalance :: uint64

definition shadow0 :: shadow where
  "shadow0 = \<lparr>shadowNonce = fmempty, shadowBalance = fmempty, shadowSpent = {||}, shadowForSale = fmempty,
     shadowRegistered = {||}, shadowOwner = fmempty, shadowTx = fmempty, shadowStake = fmempty,
     shadowPendingStake = fmempty, shadowQueueBurn = fmempty, slashedEquivocations = {||},
     shadowCommit = {||}, currentBalance = 0, currentNonce = 0, runningBalance = 0\<rparr>"

type_synonym ('s, 'c) gate = "('s, 'c) vctx \<Rightarrow> Transaction \<Rightarrow> shadow \<Rightarrow> stop + shadow"

text \<open>Rejecting with a message that slices the hex key to eight characters.\<close>

definition reject8 :: "string \<Rightarrow> stop + shadow" where
  "reject8 pubKeyHex = (if length pubKeyHex < 8 then Inl (Panic IndexOutOfRange) else Inl Reject)"

abbreviation pubHex :: "Transaction \<Rightarrow> string" where
  "pubHex tx \<equiv> hex (sl (OwnerKey tx))"

abbreviation the_or :: "('k, 'v) fmap \<Rightarrow> 'k \<Rightarrow> 'v \<Rightarrow> 'v" where
  "the_or m k d \<equiv> (case fmlookup m k of None \<Rightarrow> d | Some v \<Rightarrow> v)"

subsection \<open>Gate 1: signature and structure\<close>

definition gate_signature :: "('s, 'c) gate" where
  "gate_signature c tx sh =
     (if length (sl (OwnerKey tx)) > 0 \<and> \<not> VerifySignature (vCrypto c) (sl (OwnerKey tx)) tx
      then Inl Reject else Inr sh)"

definition legacy_fields :: "Transaction \<Rightarrow> bool" where
  "legacy_fields tx \<longleftrightarrow> DomainName tx \<noteq> [] \<or> length (Records tx) > 0 \<or> RedeemsTxID tx \<noteq> 0
     \<or> length (sl (Recipient tx)) > 0"

definition gate_pos_hygiene :: "('s, 'c) gate" where
  "gate_pos_hygiene c tx sh =
     (if TxType tx = STAKE \<or> TxType tx = UNSTAKE then
        (if legacy_fields tx then Inl Reject
         else if length (EquivBlockA tx) > 0 \<or> length (EquivBlockB tx) > 0 then Inl Reject
         else Inr sh)
      else if TxType tx = EQUIVOCATION_PROOF then
        (if legacy_fields tx then Inl Reject
         else if StakeAmount tx \<noteq> 0 then Inl Reject
         else Inr sh)
      else Inr sh)"

definition gate_legacy_hygiene :: "('s, 'c) gate" where
  "gate_legacy_hygiene c tx sh =
     (if TxType tx \<in> {REGISTER, UPDATE, REVOKE, RENEW, LIST, BUY, TRANSFER, DELIST, FUND, COMMIT, REVEAL} then
        (if StakeAmount tx \<noteq> 0 then Inl Reject
         else if length (EquivBlockA tx) > 0 \<or> length (EquivBlockB tx) > 0 then Inl Reject
         else Inr sh)
      else Inr sh)"

definition gate_no_register :: "('s, 'c) gate" where
  "gate_no_register c tx sh = (if TxType tx = REGISTER then Inl Reject else Inr sh)"

definition gate_commit_fields :: "('s, 'c) gate" where
  "gate_commit_fields c tx sh =
     (if TxType tx \<noteq> COMMIT \<and> TxType tx \<noteq> REVEAL then
        (if length (CommitHash tx) > 0 then Inl Reject
         else if length (Salt tx) > 0 then Inl Reject
         else Inr sh)
      else Inr sh)"

definition gate_redeems :: "('s, 'c) gate" where
  "gate_redeems c tx sh =
     (if RedeemsTxID tx \<noteq> 0 \<and> TxType tx \<in> {REGISTER, UPDATE, RENEW, REVOKE, REVEAL} then
        (if RedeemsTxID tx |\<in>| shadowSpent sh then Inl Reject
         else if diIsSpent (vIndexOps c) (vIm c) (RedeemsTxID tx) then Inl Reject
         else if TxType tx \<noteq> REGISTER \<and> TxType tx \<noteq> REVEAL \<and>
            (case (case fmlookup (shadowTx sh) (RedeemsTxID tx) of
                     Some t \<Rightarrow> Some t
                   | None \<Rightarrow> diGetTxByID (vIndexOps c) (vIm c) (RedeemsTxID tx)) of
               None \<Rightarrow> True
             | Some redeemsTx \<Rightarrow> DomainName redeemsTx \<noteq> DomainName tx)
           then Inl Reject
         else Inr (sh\<lparr>shadowSpent := finsert (RedeemsTxID tx) (shadowSpent sh)\<rparr>))
      else Inr sh)"

definition gate_structure :: "('s, 'c) gate" where
  "gate_structure c tx sh =
     (if TxType tx = LIST \<and> ListPrice tx = 0 then Inl Reject
      else if (TxType tx = REGISTER \<or> TxType tx = UPDATE \<or> TxType tx = RENEW) \<and> length (Records tx) = 0
        then Inl Reject
      else if TxType tx = TRANSFER \<and> length (sl (Recipient tx)) = 0 then Inl Reject
      else if TxType tx = REGISTER \<and> RedeemsTxID tx \<noteq> 0 then Inl Reject
      else if (TxType tx = UPDATE \<or> TxType tx = RENEW \<or> TxType tx = REVOKE) \<and> RedeemsTxID tx = 0
        then Inl Reject
      else Inr sh)"

definition gate_commit :: "('s, 'c) gate" where
  "gate_commit c tx sh =
     (if TxType tx = COMMIT then
        (if \<not> IsRegistryKey (vRegistries c) (sl (OwnerKey tx)) then Inl Reject
         else if length (CommitHash tx) \<noteq> 32 then Inl Reject
         else if DomainName tx \<noteq> [] then Inl Reject
         else if length (Records tx) > 0 then Inl Reject
         else if RedeemsTxID tx \<noteq> 0 then Inl Reject
         else if length (Salt tx) > 0 then Inl Reject
         else
           (let commitHex = hex (CommitHash tx) in
            if commitHex |\<in>| shadowCommit sh then Inl Reject
            else if (case vCs c of None \<Rightarrow> False | Some cs \<Rightarrow> csGetCommit (vCommitOps c) cs commitHex \<noteq> None)
              then Inl Reject
            else Inr (sh\<lparr>shadowCommit := finsert commitHex (shadowCommit sh)\<rparr>)))
      else Inr sh)"

text \<open>\<open>bad\<close> is the phase test applied to a domain that is in the index and not new in this block.\<close>

definition gate_known_domain :: "(string \<Rightarrow> bool) \<Rightarrow> ('s, 'c) gate" where
  "gate_known_domain bad c tx sh =
     (case diGetDomain (vIndexOps c) (vIm c) (DomainName tx) of
        None \<Rightarrow> if DomainName tx |\<notin>| shadowRegistered sh then Inl Reject else Inr sh
      | Some existingTx \<Rightarrow>
          if DomainName tx |\<notin>| shadowRegistered sh \<and>
             bad (GetDomainPhase (vSlot c) (ExpirySlot existingTx) (vSlotsPerDay c))
          then Inl Reject else Inr sh)"

definition gate_market_phase :: "('s, 'c) gate" where
  "gate_market_phase c tx sh =
     (if TxType tx = LIST \<or> TxType tx = DELIST \<or> TxType tx = BUY \<or> TxType tx = TRANSFER
      then gate_known_domain (\<lambda>phase. phase \<noteq> ''active'') c tx sh else Inr sh)"

text \<open>A transaction without a key: only the slot leader's auto-revocation, inside a block.\<close>

definition gate_auto_revoke :: "('s, 'c) gate" where
  "gate_auto_revoke c tx sh =
     (if TxType tx = REVOKE then
        (if \<not> vIsBlock c then Inl Reject
         else if \<not> VerifySignature (vCrypto c) (vSlotLeader c) tx then Inl Reject
         else if DomainName tx |\<in>| shadowRegistered sh then Inl Reject
         else Inr sh)
      else Inl Reject)"

subsection \<open>Gates 2 and 3: balance and nonce\<close>

definition MinFee :: uint64 where "MinFee = 1"

definition gate_fee :: "('s, 'c) gate" where
  "gate_fee c tx sh =
     (let sh = sh\<lparr>currentBalance := the_or (shadowBalance sh) (pubHex tx) (GetBalance (vLedger c) (pubHex tx))\<rparr>
      in if Fee tx < MinFee then reject8 (pubHex tx) else Inr sh)"

definition is_trusted :: "('s, 'c) vctx \<Rightarrow> Transaction \<Rightarrow> bool" where
  "is_trusted c tx = list_ex (\<lambda>regKey. hex regKey = pubHex tx) (vRegistries c)"

definition gate_fund :: "('s, 'c) gate" where
  "gate_fund c tx sh =
     (if TxType tx = FUND then
        (if \<not> is_trusted c tx then reject8 (pubHex tx)
         else if ListPrice tx = 0 \<or> length (sl (Recipient tx)) = 0 then Inl Reject
         else
           (let totalNeeded = Fee tx + ListPrice tx in
            if totalNeeded < Fee tx \<or> totalNeeded < ListPrice tx then Inl Reject
            else if currentBalance sh < totalNeeded then reject8 (pubHex tx)
            else Inr sh))
      else Inr sh)"

definition gate_balance :: "('s, 'c) gate" where
  "gate_balance c tx sh = (if currentBalance sh < Fee tx then reject8 (pubHex tx) else Inr sh)"

definition gate_nonce :: "('s, 'c) gate" where
  "gate_nonce c tx sh =
     (let sh = sh\<lparr>currentNonce := the_or (shadowNonce sh) (pubHex tx) (GetNonce (vLedger c) (pubHex tx))\<rparr>
      in if TxNonce tx \<noteq> currentNonce sh then reject8 (pubHex tx) else Inr sh)"

definition gate_running :: "('s, 'c) gate" where
  "gate_running c tx sh =
     (let sh = sh\<lparr>runningBalance := currentBalance sh - Fee tx\<rparr>
      in Inr (if TxType tx = FUND then sh\<lparr>runningBalance := runningBalance sh - ListPrice tx\<rparr> else sh))"

subsection \<open>Domain gates\<close>

definition current_owner :: "('s, 'c) vctx \<Rightarrow> shadow \<Rightarrow> string \<Rightarrow> string" where
  "current_owner c sh d =
     (case fmlookup (shadowOwner sh) d of
        Some so \<Rightarrow> so
      | None \<Rightarrow> (case diGetOwner (vIndexOps c) (vIm c) d of None \<Rightarrow> [] | Some owner \<Rightarrow> hex owner))"

definition is_listed :: "('s, 'c) vctx \<Rightarrow> shadow \<Rightarrow> string \<Rightarrow> bool" where
  "is_listed c sh d =
     (case fmlookup (shadowForSale sh) d of Some sfPrice \<Rightarrow> sfPrice > 0 | None \<Rightarrow> diIsForSale (vIndexOps c) (vIm c) d)"

definition list_price :: "('s, 'c) vctx \<Rightarrow> shadow \<Rightarrow> string \<Rightarrow> uint64" where
  "list_price c sh d =
     (case fmlookup (shadowForSale sh) d of Some sfPrice \<Rightarrow> sfPrice | None \<Rightarrow> diGetListPrice (vIndexOps c) (vIm c) d)"

definition gate_buy :: "('s, 'c) gate" where
  "gate_buy c tx sh =
     (if TxType tx = BUY then
        (let listPrice = list_price c sh (DomainName tx) in
         if \<not> is_listed c sh (DomainName tx) then Inl Reject
         else if runningBalance sh < listPrice then reject8 (pubHex tx)
         else if ListPrice tx < listPrice then Inl Reject
         else
           (let sh = sh\<lparr>runningBalance := runningBalance sh - listPrice\<rparr> in
            if current_owner c sh (DomainName tx) = pubHex tx then reject8 (pubHex tx)
            else Inr (sh\<lparr>shadowForSale := fmupd (DomainName tx) 0 (shadowForSale sh)\<rparr>)))
      else Inr sh)"

definition gate_list_delist :: "('s, 'c) gate" where
  "gate_list_delist c tx sh =
     (if TxType tx = LIST \<or> TxType tx = DELIST then
        (if current_owner c sh (DomainName tx) \<noteq> pubHex tx then reject8 (pubHex tx)
         else if TxType tx = LIST then
           Inr (sh\<lparr>shadowForSale := fmupd (DomainName tx) (ListPrice tx) (shadowForSale sh)\<rparr>)
         else if \<not> is_listed c sh (DomainName tx) then Inl Reject
         else Inr (sh\<lparr>shadowForSale := fmupd (DomainName tx) 0 (shadowForSale sh)\<rparr>))
      else Inr sh)"

definition gate_update_revoke :: "('s, 'c) gate" where
  "gate_update_revoke c tx sh =
     (if TxType tx = UPDATE \<or> TxType tx = REVOKE then
        bindR (gate_known_domain (\<lambda>phase. phase = ''purged'') c tx sh) (\<lambda>sh.
          if current_owner c sh (DomainName tx) \<noteq> pubHex tx then reject8 (pubHex tx) else Inr sh)
      else Inr sh)"

definition gate_renew :: "('s, 'c) gate" where
  "gate_renew c tx sh =
     (if TxType tx = RENEW then
        bindR (gate_known_domain (\<lambda>phase. phase = ''purged'') c tx sh) (\<lambda>sh.
          if \<not> is_trusted c tx then reject8 (pubHex tx) else Inr sh)
      else Inr sh)"

definition gate_register :: "('s, 'c) gate" where
  "gate_register c tx sh =
     (if TxType tx = REGISTER then
        (if \<not> IsRegistryKey (vRegistries c) (sl (OwnerKey tx)) then reject8 (pubHex tx)
         else if DomainName tx |\<in>| shadowRegistered sh then Inl Reject
         else if (case diGetDomain (vIndexOps c) (vIm c) (DomainName tx) of
                    None \<Rightarrow> False
                  | Some existingTx \<Rightarrow>
                      GetDomainPhase (vSlot c) (ExpirySlot existingTx) (vSlotsPerDay c) \<noteq> ''purged'')
           then Inl Reject
         else Inr (sh\<lparr>shadowRegistered := finsert (DomainName tx) (shadowRegistered sh),
                      shadowOwner := fmupd (DomainName tx) (pubHex tx) (shadowOwner sh)\<rparr>))
      else Inr sh)"

text \<open>The checks of a REVEAL against the commit record found, gates R1b to R4b.\<close>

definition reveal_refused :: "('s, 'c) vctx \<Rightarrow> Transaction \<Rightarrow> shadow \<Rightarrow> CommitRecord \<Rightarrow> bool" where
  "reveal_refused c tx sh commitRecord =
     (if RedeemsTxID tx \<noteq> CommitTID commitRecord then True
      else if sl (OwnerKey tx) \<noteq> CommitterPK commitRecord then True
      else if i64 (vSlot c - CommitSlot commitRecord) < CommitMinDelay then True
      else if DomainName tx |\<in>| shadowRegistered sh then True
      else
        (case diGetDomain (vIndexOps c) (vIm c) (DomainName tx) of
           None \<Rightarrow> False
         | Some existingTx \<Rightarrow>
             if GetDomainPhase (vSlot c) (ExpirySlot existingTx) (vSlotsPerDay c) \<noteq> ''purged'' then True
             else CommitSlot commitRecord < ComputePurgeSlot (ExpirySlot existingTx) (vSlotsPerDay c)))"

definition gate_reveal :: "('s, 'c) gate" where
  "gate_reveal c tx sh =
     (if TxType tx = REVEAL then
        (if \<not> IsRegistryKey (vRegistries c) (sl (OwnerKey tx)) then Inl Reject
         else if length (CommitHash tx) > 0 then Inl Reject
         else if length (sl (Recipient tx)) = 0 then Inl Reject
         else
           (let commitHex = reveal_key tx in
            case (case vCs c of None \<Rightarrow> None | Some cs \<Rightarrow> csGetCommit (vCommitOps c) cs commitHex) of
              None \<Rightarrow> Inl Reject
            | Some commitRecord \<Rightarrow>
                if commitHex |\<in>| shadowCommit sh then Inl Reject
                else if reveal_refused c tx sh commitRecord then Inl Reject
                else Inr (sh\<lparr>shadowCommit := finsert commitHex (shadowCommit sh),
                             shadowRegistered := finsert (DomainName tx) (shadowRegistered sh),
                             shadowOwner := fmupd (DomainName tx) (hex (sl (Recipient tx))) (shadowOwner sh)\<rparr>)))
      else Inr sh)"

definition gate_transfer :: "('s, 'c) gate" where
  "gate_transfer c tx sh =
     (if TxType tx = TRANSFER then
        (if current_owner c sh (DomainName tx) \<noteq> pubHex tx then reject8 (pubHex tx)
         else Inr (sh\<lparr>shadowOwner := fmupd (DomainName tx) (hex (sl (Recipient tx))) (shadowOwner sh),
                      shadowForSale := fmupd (DomainName tx) 0 (shadowForSale sh)\<rparr>))
      else if TxType tx = BUY then
        Inr (sh\<lparr>shadowOwner := fmupd (DomainName tx) (pubHex tx) (shadowOwner sh)\<rparr>)
      else Inr sh)"

subsection \<open>Gate 3.5: stake\<close>

definition current_stake :: "('s, 'c) vctx \<Rightarrow> shadow \<Rightarrow> string \<Rightarrow> uint64" where
  "current_stake c sh v = the_or (shadowStake sh) v (GetStake (vStakeMap c) v)"

definition gate_stake :: "('s, 'c) gate" where
  "gate_stake c tx sh =
     (if TxType tx = STAKE then
        (if StakeAmount tx = 0 then Inl Reject
         else
           (let currentStake = current_stake c sh (pubHex tx) in
            if currentStake = 0 \<and> StakeAmount tx < MinStakeThreshold then Inl Reject
            else if Fee tx + StakeAmount tx < Fee tx then Inl Reject
            else if runningBalance sh < StakeAmount tx then reject8 (pubHex tx)
            else Inr (sh\<lparr>runningBalance := runningBalance sh - StakeAmount tx,
                         shadowStake := fmupd (pubHex tx) (currentStake + StakeAmount tx) (shadowStake sh)\<rparr>)))
      else Inr sh)"

definition gate_unstake :: "('s, 'c) gate" where
  "gate_unstake c tx sh =
     (if TxType tx = UNSTAKE then
        (if StakeAmount tx = 0 then Inl Reject
         else
           (let currentStake = current_stake c sh (pubHex tx) in
            if currentStake < StakeAmount tx then Inl Reject
            else
              (let remaining = currentStake - StakeAmount tx in
               if remaining > 0 \<and> remaining < MinStakeThreshold then Inl Reject
               else Inr (sh\<lparr>shadowStake := fmupd (pubHex tx) remaining (shadowStake sh),
                            shadowPendingStake := fmupd (pubHex tx)
                              (the_or (shadowPendingStake sh) (pubHex tx) 0 + StakeAmount tx)
                              (shadowPendingStake sh)\<rparr>))))
      else Inr sh)"

text \<open>The evidence accepted against an offender: the shadow effect of the slashing.\<close>

definition shadow_slash :: "('s, 'c) vctx \<Rightarrow> string \<Rightarrow> shadow \<Rightarrow> stop + shadow" where
  "shadow_slash c offenderHex sh =
     (let stakePart = current_stake c sh offenderHex;
          queuePart = GetPendingStake (vQueue c) offenderHex
            + the_or (shadowPendingStake sh) offenderHex 0 - the_or (shadowQueueBurn sh) offenderHex 0;
          totalSlashable = stakePart + queuePart
      in
      if totalSlashable = 0 then Inl Reject
      else
        (let slashAmount = ComputeSlashAmount totalSlashable SlashingPercent in
         if slashAmount \<le> stakePart then
           Inr (sh\<lparr>shadowStake := fmupd offenderHex (stakePart - slashAmount) (shadowStake sh)\<rparr>)
         else
           (let excess = slashAmount - stakePart;
                pend = the_or (shadowPendingStake sh) offenderHex 0
            in Inr (sh\<lparr>shadowStake := fmupd offenderHex 0 (shadowStake sh),
                       shadowQueueBurn := fmupd offenderHex
                         (the_or (shadowQueueBurn sh) offenderHex 0 + excess) (shadowQueueBurn sh),
                       shadowPendingStake := fmupd offenderHex
                         (if pend > excess then pend - excess else 0) (shadowPendingStake sh)\<rparr>))))"

definition lift_panic :: "panic + 'a \<Rightarrow> stop + 'a" where
  "lift_panic r = (case r of Inl p \<Rightarrow> Inl (Panic p) | Inr x \<Rightarrow> Inr x)"

definition gate_equivocation :: "('s, 'c) gate" where
  "gate_equivocation c tx sh =
     (if TxType tx = EQUIVOCATION_PROOF then
        (if length (EquivBlockA tx) = 0 \<or> length (EquivBlockB tx) = 0 then Inl Reject
         else if length (EquivBlockA tx) > MaxEvidenceBlockBytes \<or> length (EquivBlockB tx) > MaxEvidenceBlockBytes
           then Inl Reject
         else
           bindR (lift_panic (DeserializeBlock (vCodec c) (EquivBlockA tx))) (\<lambda>blockA.
           bindR (lift_panic (DeserializeBlock (vCodec c) (EquivBlockB tx))) (\<lambda>blockB.
             let offenderHex = hex (SlotLeader blockA) in
             if BIndex blockA \<noteq> BIndex blockB then Inl Reject
             else if offenderHex \<noteq> hex (SlotLeader blockB) then Inl Reject
             else if BHash blockA = BHash blockB then Inl Reject
             else if \<not> VerifyBlock (vCrypto c) (SlotLeader blockA) blockA \<or>
                     \<not> VerifyBlock (vCrypto c) (SlotLeader blockB) blockB then Inl Reject
             else if offenseKey blockA |\<in>| vSlashed c \<or> offenseKey blockA |\<in>| slashedEquivocations sh
               then Inl Reject
             else
               bindR (shadow_slash c offenderHex sh) (\<lambda>sh.
                 Inr (sh\<lparr>slashedEquivocations := finsert (offenseKey blockA) (slashedEquivocations sh)\<rparr>)))))
      else Inr sh)"

definition gate_finish :: "('s, 'c) gate" where
  "gate_finish c tx sh =
     (let sh = sh\<lparr>shadowNonce := fmupd (pubHex tx) (currentNonce sh + 1) (shadowNonce sh),
                  shadowBalance := fmupd (pubHex tx) (runningBalance sh) (shadowBalance sh)\<rparr>
      in Inr (if TxType tx \<in> {REGISTER, UPDATE, RENEW, REVOKE, COMMIT, REVEAL}
              then sh\<lparr>shadowTx := fmupd (TID tx) tx (shadowTx sh)\<rparr> else sh))"

subsection \<open>The loop\<close>

fun run_gates :: "('s, 'c) gate list \<Rightarrow> ('s, 'c) gate" where
  "run_gates [] c tx sh = Inr sh"
| "run_gates (g # gs) c tx sh = bindR (g c tx sh) (run_gates gs c tx)"

definition front_gates :: "('s, 'c) gate list" where
  "front_gates = [gate_signature, gate_pos_hygiene, gate_legacy_hygiene, gate_no_register,
     gate_commit_fields, gate_redeems, gate_structure, gate_commit, gate_market_phase]"

definition key_gates :: "('s, 'c) gate list" where
  "key_gates = [gate_fee, gate_fund, gate_balance, gate_nonce, gate_running, gate_buy,
     gate_list_delist, gate_update_revoke, gate_renew, gate_register, gate_reveal, gate_transfer,
     gate_stake, gate_unstake, gate_equivocation, gate_finish]"

definition validate_tx :: "('s, 'c) gate" where
  "validate_tx c tx sh =
     bindR (run_gates front_gates c tx sh) (\<lambda>sh.
       if length (sl (OwnerKey tx)) = 0 then gate_auto_revoke c tx sh
       else run_gates key_gates c tx sh)"

fun validate_loop :: "('s, 'c) vctx \<Rightarrow> Transaction list \<Rightarrow> shadow \<Rightarrow> stop + shadow" where
  "validate_loop c [] sh = Inr sh"
| "validate_loop c (tx # txs) sh = bindR (validate_tx c tx sh) (validate_loop c txs)"

definition ValidateTransactions :: "('s, 'c) vctx \<Rightarrow> Transaction list \<Rightarrow> panic + bool" where
  "ValidateTransactions c txs =
     (case validate_loop c txs shadow0 of
        Inl Reject \<Rightarrow> Inr False
      | Inl (Panic p) \<Rightarrow> Inl p
      | Inr sh \<Rightarrow> Inr True)"

subsection \<open>Gates that only check\<close>

lemma reject8_not_Inr [simp]: "reject8 k \<noteq> Inr sh"
  by (simp add: reject8_def)

named_theorems gate_pure \<open>a gate that passes leaves the shadow state as it was\<close>

lemma known_domain_pure [gate_pure]: "gate_known_domain bad c tx sh = Inr sh' \<Longrightarrow> sh' = sh"
  by (simp add: gate_known_domain_def split: option.split_asm if_split_asm)

lemma signature_pure [gate_pure]: "gate_signature c tx sh = Inr sh' \<Longrightarrow> sh' = sh"
  by (simp add: gate_signature_def Let_def split: if_split_asm)

lemma pos_hygiene_pure [gate_pure]: "gate_pos_hygiene c tx sh = Inr sh' \<Longrightarrow> sh' = sh"
  by (simp add: gate_pos_hygiene_def Let_def split: if_split_asm)

lemma legacy_hygiene_pure [gate_pure]: "gate_legacy_hygiene c tx sh = Inr sh' \<Longrightarrow> sh' = sh"
  by (simp add: gate_legacy_hygiene_def Let_def split: if_split_asm)

lemma no_register_pure [gate_pure]: "gate_no_register c tx sh = Inr sh' \<Longrightarrow> sh' = sh"
  by (simp add: gate_no_register_def Let_def split: if_split_asm)

lemma commit_fields_pure [gate_pure]: "gate_commit_fields c tx sh = Inr sh' \<Longrightarrow> sh' = sh"
  by (simp add: gate_commit_fields_def Let_def split: if_split_asm)

lemma structure_pure [gate_pure]: "gate_structure c tx sh = Inr sh' \<Longrightarrow> sh' = sh"
  by (simp add: gate_structure_def Let_def split: if_split_asm)

lemma auto_revoke_pure [gate_pure]: "gate_auto_revoke c tx sh = Inr sh' \<Longrightarrow> sh' = sh"
  by (simp add: gate_auto_revoke_def Let_def split: if_split_asm)

lemma fund_pure [gate_pure]: "gate_fund c tx sh = Inr sh' \<Longrightarrow> sh' = sh"
  by (simp add: gate_fund_def Let_def split: if_split_asm)

lemma balance_pure [gate_pure]: "gate_balance c tx sh = Inr sh' \<Longrightarrow> sh' = sh"
  by (simp add: gate_balance_def Let_def split: if_split_asm)

lemma market_phase_pure [gate_pure]: "gate_market_phase c tx sh = Inr sh' \<Longrightarrow> sh' = sh"
  by (auto simp: gate_market_phase_def dest: gate_pure split: if_split_asm)

lemma update_revoke_pure [gate_pure]: "gate_update_revoke c tx sh = Inr sh' \<Longrightarrow> sh' = sh"
  by (auto simp: gate_update_revoke_def bindR_eq_Inr dest: gate_pure split: if_split_asm)

lemma renew_pure [gate_pure]: "gate_renew c tx sh = Inr sh' \<Longrightarrow> sh' = sh"
  by (auto simp: gate_renew_def bindR_eq_Inr dest: gate_pure split: if_split_asm)

lemma pure_bind:
  "(\<And>sh'. g = Inr sh' \<Longrightarrow> sh' = sh) \<Longrightarrow> bindR g F = Inr y \<longleftrightarrow> g = Inr sh \<and> F sh = Inr y"
  by (cases g) auto

lemma pure_binds:
  "bindR (gate_signature c tx sh) F = Inr y \<longleftrightarrow> gate_signature c tx sh = Inr sh \<and> F sh = Inr y"
  "bindR (gate_pos_hygiene c tx sh) F = Inr y \<longleftrightarrow> gate_pos_hygiene c tx sh = Inr sh \<and> F sh = Inr y"
  "bindR (gate_legacy_hygiene c tx sh) F = Inr y \<longleftrightarrow> gate_legacy_hygiene c tx sh = Inr sh \<and> F sh = Inr y"
  "bindR (gate_no_register c tx sh) F = Inr y \<longleftrightarrow> gate_no_register c tx sh = Inr sh \<and> F sh = Inr y"
  "bindR (gate_commit_fields c tx sh) F = Inr y \<longleftrightarrow> gate_commit_fields c tx sh = Inr sh \<and> F sh = Inr y"
  "bindR (gate_structure c tx sh) F = Inr y \<longleftrightarrow> gate_structure c tx sh = Inr sh \<and> F sh = Inr y"
  "bindR (gate_market_phase c tx sh) F = Inr y \<longleftrightarrow> gate_market_phase c tx sh = Inr sh \<and> F sh = Inr y"
  "bindR (gate_fund c tx sh) F = Inr y \<longleftrightarrow> gate_fund c tx sh = Inr sh \<and> F sh = Inr y"
  "bindR (gate_balance c tx sh) F = Inr y \<longleftrightarrow> gate_balance c tx sh = Inr sh \<and> F sh = Inr y"
  "bindR (gate_update_revoke c tx sh) F = Inr y \<longleftrightarrow> gate_update_revoke c tx sh = Inr sh \<and> F sh = Inr y"
  "bindR (gate_renew c tx sh) F = Inr y \<longleftrightarrow> gate_renew c tx sh = Inr sh \<and> F sh = Inr y"
  by (rule pure_bind, erule gate_pure)+

lemmas write_binds =
  bindR_eq_Inr [where m = "gate_redeems c tx sh" for c tx sh]
  bindR_eq_Inr [where m = "gate_commit c tx sh" for c tx sh]
  bindR_eq_Inr [where m = "gate_fee c tx sh" for c tx sh]
  bindR_eq_Inr [where m = "gate_nonce c tx sh" for c tx sh]
  bindR_eq_Inr [where m = "gate_running c tx sh" for c tx sh]
  bindR_eq_Inr [where m = "gate_buy c tx sh" for c tx sh]
  bindR_eq_Inr [where m = "gate_list_delist c tx sh" for c tx sh]
  bindR_eq_Inr [where m = "gate_register c tx sh" for c tx sh]
  bindR_eq_Inr [where m = "gate_reveal c tx sh" for c tx sh]
  bindR_eq_Inr [where m = "gate_transfer c tx sh" for c tx sh]
  bindR_eq_Inr [where m = "gate_stake c tx sh" for c tx sh]
  bindR_eq_Inr [where m = "gate_unstake c tx sh" for c tx sh]
  bindR_eq_Inr [where m = "gate_equivocation c tx sh" for c tx sh]
  bindR_eq_Inr [where m = "gate_finish c tx sh" for c tx sh]

text \<open>The states between the gates.\<close>

lemma front_gates_run:
  assumes "run_gates front_gates c tx sh = Inr sh'"
  obtains a where "gate_signature c tx sh = Inr sh" "gate_pos_hygiene c tx sh = Inr sh"
    "gate_legacy_hygiene c tx sh = Inr sh" "gate_no_register c tx sh = Inr sh"
    "gate_commit_fields c tx sh = Inr sh" "gate_redeems c tx sh = Inr a" "gate_structure c tx a = Inr a"
    "gate_commit c tx a = Inr sh'" "gate_market_phase c tx sh' = Inr sh'"
  using assms unfolding front_gates_def run_gates.simps pure_binds write_binds sum.inject by blast

lemma key_gates_run:
  assumes "run_gates key_gates c tx sh = Inr sh'"
  obtains f n r u l g v t s q e where "gate_fee c tx sh = Inr f" "gate_fund c tx f = Inr f"
    "gate_balance c tx f = Inr f" "gate_nonce c tx f = Inr n" "gate_running c tx n = Inr r"
    "gate_buy c tx r = Inr u" "gate_list_delist c tx u = Inr l" "gate_update_revoke c tx l = Inr l"
    "gate_renew c tx l = Inr l" "gate_register c tx l = Inr g" "gate_reveal c tx g = Inr v"
    "gate_transfer c tx v = Inr t" "gate_stake c tx t = Inr s" "gate_unstake c tx s = Inr q"
    "gate_equivocation c tx q = Inr e" "gate_finish c tx e = Inr sh'"
  using assms unfolding key_gates_def run_gates.simps pure_binds write_binds sum.inject by blast

subsection \<open>What each gate leaves alone\<close>

named_theorems frames \<open>fields of the shadow state a gate does not write\<close>

lemma redeems_writes:
  "gate_redeems c tx sh = Inr sh' \<Longrightarrow> sh' = sh \<or> (\<exists>x. sh' = sh\<lparr>shadowSpent := x\<rparr>)"
  by (auto simp: gate_redeems_def Let_def split: if_split_asm option.split_asm)

lemma redeems_frame [frames]:
  assumes "gate_redeems c tx sh = Inr sh'"
  shows "shadowNonce sh' = shadowNonce sh" "shadowBalance sh' = shadowBalance sh"
    "shadowForSale sh' = shadowForSale sh" "shadowRegistered sh' = shadowRegistered sh"
    "shadowOwner sh' = shadowOwner sh" "shadowTx sh' = shadowTx sh"
    "shadowStake sh' = shadowStake sh" "shadowPendingStake sh' = shadowPendingStake sh"
    "shadowQueueBurn sh' = shadowQueueBurn sh" "slashedEquivocations sh' = slashedEquivocations sh"
    "shadowCommit sh' = shadowCommit sh" "currentBalance sh' = currentBalance sh"
    "currentNonce sh' = currentNonce sh" "runningBalance sh' = runningBalance sh"
  using redeems_writes [OF assms] by auto

lemma commit_writes:
  "gate_commit c tx sh = Inr sh' \<Longrightarrow> sh' = sh \<or> (\<exists>x. sh' = sh\<lparr>shadowCommit := x\<rparr>)"
  by (auto simp: gate_commit_def Let_def split: if_split_asm option.split_asm)

lemma commit_frame [frames]:
  assumes "gate_commit c tx sh = Inr sh'"
  shows "shadowNonce sh' = shadowNonce sh" "shadowBalance sh' = shadowBalance sh"
    "shadowSpent sh' = shadowSpent sh" "shadowForSale sh' = shadowForSale sh"
    "shadowRegistered sh' = shadowRegistered sh" "shadowOwner sh' = shadowOwner sh"
    "shadowTx sh' = shadowTx sh" "shadowStake sh' = shadowStake sh"
    "shadowPendingStake sh' = shadowPendingStake sh" "shadowQueueBurn sh' = shadowQueueBurn sh"
    "slashedEquivocations sh' = slashedEquivocations sh" "currentBalance sh' = currentBalance sh"
    "currentNonce sh' = currentNonce sh" "runningBalance sh' = runningBalance sh"
  using commit_writes [OF assms] by auto

lemma fee_writes:
  "gate_fee c tx sh = Inr sh' \<Longrightarrow> sh' = sh \<or> (\<exists>x. sh' = sh\<lparr>currentBalance := x\<rparr>)"
  by (auto simp: gate_fee_def Let_def split: if_split_asm option.split_asm)

lemma fee_frame [frames]:
  assumes "gate_fee c tx sh = Inr sh'"
  shows "shadowNonce sh' = shadowNonce sh" "shadowBalance sh' = shadowBalance sh"
    "shadowSpent sh' = shadowSpent sh" "shadowForSale sh' = shadowForSale sh"
    "shadowRegistered sh' = shadowRegistered sh" "shadowOwner sh' = shadowOwner sh"
    "shadowTx sh' = shadowTx sh" "shadowStake sh' = shadowStake sh"
    "shadowPendingStake sh' = shadowPendingStake sh" "shadowQueueBurn sh' = shadowQueueBurn sh"
    "slashedEquivocations sh' = slashedEquivocations sh" "shadowCommit sh' = shadowCommit sh"
    "currentNonce sh' = currentNonce sh" "runningBalance sh' = runningBalance sh"
  using fee_writes [OF assms] by auto

lemma nonce_writes:
  "gate_nonce c tx sh = Inr sh' \<Longrightarrow> sh' = sh \<or> (\<exists>x. sh' = sh\<lparr>currentNonce := x\<rparr>)"
  by (auto simp: gate_nonce_def Let_def split: if_split_asm option.split_asm)

lemma nonce_frame [frames]:
  assumes "gate_nonce c tx sh = Inr sh'"
  shows "shadowNonce sh' = shadowNonce sh" "shadowBalance sh' = shadowBalance sh"
    "shadowSpent sh' = shadowSpent sh" "shadowForSale sh' = shadowForSale sh"
    "shadowRegistered sh' = shadowRegistered sh" "shadowOwner sh' = shadowOwner sh"
    "shadowTx sh' = shadowTx sh" "shadowStake sh' = shadowStake sh"
    "shadowPendingStake sh' = shadowPendingStake sh" "shadowQueueBurn sh' = shadowQueueBurn sh"
    "slashedEquivocations sh' = slashedEquivocations sh" "shadowCommit sh' = shadowCommit sh"
    "currentBalance sh' = currentBalance sh" "runningBalance sh' = runningBalance sh"
  using nonce_writes [OF assms] by auto

lemma running_writes:
  "gate_running c tx sh = Inr sh' \<Longrightarrow> sh' = sh \<or> (\<exists>x. sh' = sh\<lparr>runningBalance := x\<rparr>)"
  by (auto simp: gate_running_def Let_def split: if_split_asm option.split_asm)

lemma running_frame [frames]:
  assumes "gate_running c tx sh = Inr sh'"
  shows "shadowNonce sh' = shadowNonce sh" "shadowBalance sh' = shadowBalance sh"
    "shadowSpent sh' = shadowSpent sh" "shadowForSale sh' = shadowForSale sh"
    "shadowRegistered sh' = shadowRegistered sh" "shadowOwner sh' = shadowOwner sh"
    "shadowTx sh' = shadowTx sh" "shadowStake sh' = shadowStake sh"
    "shadowPendingStake sh' = shadowPendingStake sh" "shadowQueueBurn sh' = shadowQueueBurn sh"
    "slashedEquivocations sh' = slashedEquivocations sh" "shadowCommit sh' = shadowCommit sh"
    "currentBalance sh' = currentBalance sh" "currentNonce sh' = currentNonce sh"
  using running_writes [OF assms] by auto

lemma buy_writes:
  "gate_buy c tx sh = Inr sh' \<Longrightarrow> sh' = sh \<or> (\<exists>x y. sh' = sh\<lparr>runningBalance := x, shadowForSale := y\<rparr>)"
  by (auto simp: gate_buy_def Let_def split: if_split_asm option.split_asm)

lemma buy_frame [frames]:
  assumes "gate_buy c tx sh = Inr sh'"
  shows "shadowNonce sh' = shadowNonce sh" "shadowBalance sh' = shadowBalance sh"
    "shadowSpent sh' = shadowSpent sh" "shadowRegistered sh' = shadowRegistered sh"
    "shadowOwner sh' = shadowOwner sh" "shadowTx sh' = shadowTx sh"
    "shadowStake sh' = shadowStake sh" "shadowPendingStake sh' = shadowPendingStake sh"
    "shadowQueueBurn sh' = shadowQueueBurn sh" "slashedEquivocations sh' = slashedEquivocations sh"
    "shadowCommit sh' = shadowCommit sh" "currentBalance sh' = currentBalance sh"
    "currentNonce sh' = currentNonce sh"
  using buy_writes [OF assms] by auto

lemma list_delist_writes:
  "gate_list_delist c tx sh = Inr sh' \<Longrightarrow> sh' = sh \<or> (\<exists>x. sh' = sh\<lparr>shadowForSale := x\<rparr>)"
  by (auto simp: gate_list_delist_def Let_def split: if_split_asm option.split_asm)

lemma list_delist_frame [frames]:
  assumes "gate_list_delist c tx sh = Inr sh'"
  shows "shadowNonce sh' = shadowNonce sh" "shadowBalance sh' = shadowBalance sh"
    "shadowSpent sh' = shadowSpent sh" "shadowRegistered sh' = shadowRegistered sh"
    "shadowOwner sh' = shadowOwner sh" "shadowTx sh' = shadowTx sh"
    "shadowStake sh' = shadowStake sh" "shadowPendingStake sh' = shadowPendingStake sh"
    "shadowQueueBurn sh' = shadowQueueBurn sh" "slashedEquivocations sh' = slashedEquivocations sh"
    "shadowCommit sh' = shadowCommit sh" "currentBalance sh' = currentBalance sh"
    "currentNonce sh' = currentNonce sh" "runningBalance sh' = runningBalance sh"
  using list_delist_writes [OF assms] by auto

lemma register_writes:
  "gate_register c tx sh = Inr sh' \<Longrightarrow> sh' = sh \<or> (\<exists>x y. sh' = sh\<lparr>shadowRegistered := x, shadowOwner := y\<rparr>)"
  by (auto simp: gate_register_def Let_def split: if_split_asm option.split_asm)

lemma register_frame [frames]:
  assumes "gate_register c tx sh = Inr sh'"
  shows "shadowNonce sh' = shadowNonce sh" "shadowBalance sh' = shadowBalance sh"
    "shadowSpent sh' = shadowSpent sh" "shadowForSale sh' = shadowForSale sh"
    "shadowTx sh' = shadowTx sh" "shadowStake sh' = shadowStake sh"
    "shadowPendingStake sh' = shadowPendingStake sh" "shadowQueueBurn sh' = shadowQueueBurn sh"
    "slashedEquivocations sh' = slashedEquivocations sh" "shadowCommit sh' = shadowCommit sh"
    "currentBalance sh' = currentBalance sh" "currentNonce sh' = currentNonce sh"
    "runningBalance sh' = runningBalance sh"
  using register_writes [OF assms] by auto

lemma reveal_writes:
  "gate_reveal c tx sh = Inr sh' \<Longrightarrow> sh' = sh \<or> (\<exists>x y z. sh' = sh\<lparr>shadowCommit := x, shadowRegistered := y, shadowOwner := z\<rparr>)"
  by (auto simp: gate_reveal_def Let_def split: if_split_asm option.split_asm)

lemma reveal_frame [frames]:
  assumes "gate_reveal c tx sh = Inr sh'"
  shows "shadowNonce sh' = shadowNonce sh" "shadowBalance sh' = shadowBalance sh"
    "shadowSpent sh' = shadowSpent sh" "shadowForSale sh' = shadowForSale sh"
    "shadowTx sh' = shadowTx sh" "shadowStake sh' = shadowStake sh"
    "shadowPendingStake sh' = shadowPendingStake sh" "shadowQueueBurn sh' = shadowQueueBurn sh"
    "slashedEquivocations sh' = slashedEquivocations sh" "currentBalance sh' = currentBalance sh"
    "currentNonce sh' = currentNonce sh" "runningBalance sh' = runningBalance sh"
  using reveal_writes [OF assms] by auto

lemma transfer_writes:
  "gate_transfer c tx sh = Inr sh' \<Longrightarrow> sh' = sh \<or> (\<exists>x. sh' = sh\<lparr>shadowOwner := x\<rparr>) \<or> (\<exists>x y. sh' = sh\<lparr>shadowOwner := x, shadowForSale := y\<rparr>)"
  by (auto simp: gate_transfer_def Let_def split: if_split_asm option.split_asm)

lemma transfer_frame [frames]:
  assumes "gate_transfer c tx sh = Inr sh'"
  shows "shadowNonce sh' = shadowNonce sh" "shadowBalance sh' = shadowBalance sh"
    "shadowSpent sh' = shadowSpent sh" "shadowRegistered sh' = shadowRegistered sh"
    "shadowTx sh' = shadowTx sh" "shadowStake sh' = shadowStake sh"
    "shadowPendingStake sh' = shadowPendingStake sh" "shadowQueueBurn sh' = shadowQueueBurn sh"
    "slashedEquivocations sh' = slashedEquivocations sh" "shadowCommit sh' = shadowCommit sh"
    "currentBalance sh' = currentBalance sh" "currentNonce sh' = currentNonce sh"
    "runningBalance sh' = runningBalance sh"
  using transfer_writes [OF assms] by auto

lemma stake_writes:
  "gate_stake c tx sh = Inr sh' \<Longrightarrow> sh' = sh \<or> (\<exists>x y. sh' = sh\<lparr>runningBalance := x, shadowStake := y\<rparr>)"
  by (auto simp: gate_stake_def Let_def split: if_split_asm option.split_asm)

lemma stake_frame [frames]:
  assumes "gate_stake c tx sh = Inr sh'"
  shows "shadowNonce sh' = shadowNonce sh" "shadowBalance sh' = shadowBalance sh"
    "shadowSpent sh' = shadowSpent sh" "shadowForSale sh' = shadowForSale sh"
    "shadowRegistered sh' = shadowRegistered sh" "shadowOwner sh' = shadowOwner sh"
    "shadowTx sh' = shadowTx sh" "shadowPendingStake sh' = shadowPendingStake sh"
    "shadowQueueBurn sh' = shadowQueueBurn sh" "slashedEquivocations sh' = slashedEquivocations sh"
    "shadowCommit sh' = shadowCommit sh" "currentBalance sh' = currentBalance sh"
    "currentNonce sh' = currentNonce sh"
  using stake_writes [OF assms] by auto

lemma unstake_writes:
  "gate_unstake c tx sh = Inr sh' \<Longrightarrow> sh' = sh \<or> (\<exists>x y. sh' = sh\<lparr>shadowStake := x, shadowPendingStake := y\<rparr>)"
  by (auto simp: gate_unstake_def Let_def split: if_split_asm option.split_asm)

lemma unstake_frame [frames]:
  assumes "gate_unstake c tx sh = Inr sh'"
  shows "shadowNonce sh' = shadowNonce sh" "shadowBalance sh' = shadowBalance sh"
    "shadowSpent sh' = shadowSpent sh" "shadowForSale sh' = shadowForSale sh"
    "shadowRegistered sh' = shadowRegistered sh" "shadowOwner sh' = shadowOwner sh"
    "shadowTx sh' = shadowTx sh" "shadowQueueBurn sh' = shadowQueueBurn sh"
    "slashedEquivocations sh' = slashedEquivocations sh" "shadowCommit sh' = shadowCommit sh"
    "currentBalance sh' = currentBalance sh" "currentNonce sh' = currentNonce sh"
    "runningBalance sh' = runningBalance sh"
  using unstake_writes [OF assms] by auto

lemma shadow_slash_writes:
  "shadow_slash c v sh = Inr sh' \<Longrightarrow> (\<exists>x. sh' = sh\<lparr>shadowStake := x\<rparr>) \<or>
     (\<exists>x y z. sh' = sh\<lparr>shadowStake := x, shadowQueueBurn := y, shadowPendingStake := z\<rparr>)"
  by (auto simp: shadow_slash_def Let_def split: if_split_asm)

lemma lift_panic_eq_Inr [simp]: "lift_panic r = Inr x \<longleftrightarrow> r = Inr x"
  by (cases r) (simp_all add: lift_panic_def)

lemma equivocation_cases:
  assumes "gate_equivocation c tx sh = Inr sh'"
  obtains "TxType tx \<noteq> EQUIVOCATION_PROOF" "sh' = sh"
  | a b s where "TxType tx = EQUIVOCATION_PROOF" "length (EquivBlockA tx) > 0"
      "DeserializeBlock (vCodec c) (EquivBlockA tx) = Inr a" "DeserializeBlock (vCodec c) (EquivBlockB tx) = Inr b"
      "BIndex a = BIndex b" "SlotLeader a = SlotLeader b" "BHash a \<noteq> BHash b"
      "VerifyBlock (vCrypto c) (SlotLeader a) a" "VerifyBlock (vCrypto c) (SlotLeader b) b"
      "offenseKey a |\<notin>| vSlashed c" "offenseKey a |\<notin>| slashedEquivocations sh"
      "shadow_slash c (hex (SlotLeader a)) sh = Inr s"
      "sh' = s\<lparr>slashedEquivocations := finsert (offenseKey a) (slashedEquivocations s)\<rparr>"
  using assms by (auto simp: gate_equivocation_def Let_def bindR_eq_Inr split: if_split_asm)

lemma equivocation_frame [frames]:
  assumes "gate_equivocation c tx sh = Inr sh'"
  shows "shadowNonce sh' = shadowNonce sh" "shadowBalance sh' = shadowBalance sh"
    "shadowSpent sh' = shadowSpent sh" "shadowForSale sh' = shadowForSale sh"
    "shadowRegistered sh' = shadowRegistered sh" "shadowOwner sh' = shadowOwner sh"
    "shadowTx sh' = shadowTx sh" "shadowCommit sh' = shadowCommit sh"
    "currentBalance sh' = currentBalance sh" "currentNonce sh' = currentNonce sh"
    "runningBalance sh' = runningBalance sh"
  using assms by (auto elim!: equivocation_cases dest!: shadow_slash_writes)

lemma finish_frame [frames]:
  assumes "gate_finish c tx sh = Inr sh'"
  shows "shadowSpent sh' = shadowSpent sh" "shadowForSale sh' = shadowForSale sh"
    "shadowRegistered sh' = shadowRegistered sh" "shadowOwner sh' = shadowOwner sh"
    "shadowStake sh' = shadowStake sh" "shadowPendingStake sh' = shadowPendingStake sh"
    "shadowQueueBurn sh' = shadowQueueBurn sh" "slashedEquivocations sh' = slashedEquivocations sh"
    "shadowCommit sh' = shadowCommit sh" "currentBalance sh' = currentBalance sh"
    "currentNonce sh' = currentNonce sh" "runningBalance sh' = runningBalance sh"
  using assms by (auto simp: gate_finish_def Let_def split: if_split_asm)

end
