(* ===== verification/Accept.thy ===== *)
theory Accept
  imports Validate
begin

text \<open>
  What an accepted batch of transactions satisfies. The shadow state of \<open>ValidateTransactions\<close> is
  related to the state the same transactions produce when they are applied: the simulation
  relations below are kept by every accepted transaction.
\<close>

fun ApplyLedgerAll :: "Transaction list \<Rightarrow> BalanceLedger \<Rightarrow> panic + BalanceLedger" where
  "ApplyLedgerAll [] l = Inr l"
| "ApplyLedgerAll (tx # txs) l = bindR (ApplyLedgerMutations tx l) (ApplyLedgerAll txs)"

fun ApplyStakeAll :: "codec \<Rightarrow> Transaction list \<Rightarrow> int64 \<Rightarrow> StakeState \<Rightarrow> panic + StakeState" where
  "ApplyStakeAll cd [] slot st = Inr st"
| "ApplyStakeAll cd (tx # txs) slot st = bindR (ApplyStakeMutations cd tx st slot) (ApplyStakeAll cd txs slot)"

abbreviation keyed :: "Transaction \<Rightarrow> bool" where
  "keyed tx \<equiv> length (sl (OwnerKey tx)) > 0"

subsection \<open>Decomposing an accepted transaction\<close>

lemma validate_tx_cases:
  assumes "validate_tx c tx sh = Inr sh'"
  obtains (auto) "\<not> keyed tx" "run_gates front_gates c tx sh = Inr sh'" "gate_auto_revoke c tx sh' = Inr sh'"
  | (key) m where "keyed tx" "run_gates front_gates c tx sh = Inr m" "run_gates key_gates c tx m = Inr sh'"
  using assms by (auto simp: validate_tx_def bindR_eq_Inr dest: auto_revoke_pure split: if_split_asm)

lemma accepted_loop:
  "ValidateTransactions c txs = Inr True \<longleftrightarrow> (\<exists>sh. validate_loop c txs shadow0 = Inr sh)"
  by (auto simp: ValidateTransactions_def split: sum.splits stop.splits)

lemma validate_loop_append:
  "validate_loop c (xs @ ys) sh = bindR (validate_loop c xs sh) (validate_loop c ys)"
proof (induction xs arbitrary: sh)
  case (Cons x xs)
  then show ?case by (cases "validate_tx c x sh") auto
qed simp

lemma accepted_split:
  assumes "ValidateTransactions c (xs @ tx # ys) = Inr True"
  obtains s s' where "validate_loop c xs shadow0 = Inr s" "validate_tx c tx s = Inr s'"
  using assms by (auto simp: accepted_loop validate_loop_append bindR_eq_Inr)

text \<open>Every accepted transaction passed each of the opening gates.\<close>

lemma front_frame:
  assumes "run_gates front_gates c tx sh = Inr sh'"
  shows "shadowNonce sh' = shadowNonce sh" "shadowBalance sh' = shadowBalance sh"
    "shadowForSale sh' = shadowForSale sh" "shadowRegistered sh' = shadowRegistered sh"
    "shadowOwner sh' = shadowOwner sh" "shadowTx sh' = shadowTx sh" "shadowStake sh' = shadowStake sh"
    "shadowPendingStake sh' = shadowPendingStake sh" "shadowQueueBurn sh' = shadowQueueBurn sh"
proof -
  obtain a where "gate_redeems c tx sh = Inr a" "gate_commit c tx a = Inr sh'"
    using assms by (rule front_gates_run)
  note fr = redeems_frame [OF this(1)] commit_frame [OF this(2)]
  show "shadowNonce sh' = shadowNonce sh" "shadowBalance sh' = shadowBalance sh"
    "shadowForSale sh' = shadowForSale sh" "shadowRegistered sh' = shadowRegistered sh"
    "shadowOwner sh' = shadowOwner sh" "shadowTx sh' = shadowTx sh" "shadowStake sh' = shadowStake sh"
    "shadowPendingStake sh' = shadowPendingStake sh" "shadowQueueBurn sh' = shadowQueueBurn sh"
    by (simp_all add: fr)
qed

lemma validate_tx_front:
  assumes "validate_tx c tx sh = Inr sh'"
  obtains m where "run_gates front_gates c tx sh = Inr m"
  using assms by (auto elim: validate_tx_cases)

lemma accepted_signature:
  assumes "validate_tx c tx sh = Inr sh'"
  shows "if keyed tx then VerifySignature (vCrypto c) (sl (OwnerKey tx)) tx
         else TxType tx = REVOKE \<and> vIsBlock c \<and> VerifySignature (vCrypto c) (vSlotLeader c) tx"
  using assms
proof (cases rule: validate_tx_cases)
  case auto
  then show ?thesis by (auto simp: gate_auto_revoke_def split: if_split_asm)
next
  case (key m)
  then show ?thesis by (auto elim!: front_gates_run simp: gate_signature_def split: if_split_asm)
qed

lemma accepted_not_register: "validate_tx c tx sh = Inr sh' \<Longrightarrow> TxType tx \<noteq> REGISTER"
  by (auto elim!: validate_tx_front front_gates_run simp: gate_no_register_def)

subsection \<open>Nonces and balances\<close>

definition nonce_view :: "('s, 'c) vctx \<Rightarrow> shadow \<Rightarrow> string \<Rightarrow> uint64" where
  "nonce_view c sh k = the_or (shadowNonce sh) k (GetNonce (vLedger c) k)"

definition balance_view :: "('s, 'c) vctx \<Rightarrow> shadow \<Rightarrow> string \<Rightarrow> uint64" where
  "balance_view c sh k = the_or (shadowBalance sh) k (GetBalance (vLedger c) k)"

lemma key_gates_nonce:
  assumes "run_gates key_gates c tx sh = Inr sh'"
  shows "TxNonce tx = nonce_view c sh (pubHex tx)"
    and "nonce_view c sh' j = (if j = pubHex tx then nonce_view c sh j + 1 else nonce_view c sh j)"
proof -
  obtain f n r u l g v t s q e where run: "gate_fee c tx sh = Inr f" "gate_nonce c tx f = Inr n"
    "gate_running c tx n = Inr r" "gate_buy c tx r = Inr u" "gate_list_delist c tx u = Inr l"
    "gate_register c tx l = Inr g" "gate_reveal c tx g = Inr v" "gate_transfer c tx v = Inr t"
    "gate_stake c tx t = Inr s" "gate_unstake c tx s = Inr q" "gate_equivocation c tx q = Inr e"
    "gate_finish c tx e = Inr sh'"
    using assms by (rule key_gates_run)
  note fr = fee_frame [OF run(1)] nonce_frame [OF run(2)] running_frame [OF run(3)] buy_frame [OF run(4)]
    list_delist_frame [OF run(5)] register_frame [OF run(6)] reveal_frame [OF run(7)]
    transfer_frame [OF run(8)] stake_frame [OF run(9)] unstake_frame [OF run(10)] equivocation_frame [OF run(11)]
  have "currentNonce e = currentNonce n" "shadowNonce e = shadowNonce n" "shadowNonce n = shadowNonce sh"
    by (simp_all add: fr)
  moreover have n: "currentNonce n = nonce_view c sh (pubHex tx)" "TxNonce tx = currentNonce n"
    using run(2) fee_frame [OF run(1)] by (auto simp: gate_nonce_def nonce_view_def Let_def split: if_split_asm)
  moreover have "shadowNonce sh' = fmupd (pubHex tx) (currentNonce e + 1) (shadowNonce e)"
    using run(12) by (auto simp: gate_finish_def Let_def split: if_split_asm)
  ultimately show "TxNonce tx = nonce_view c sh (pubHex tx)"
    "nonce_view c sh' j = (if j = pubHex tx then nonce_view c sh j + 1 else nonce_view c sh j)"
    by (simp_all add: nonce_view_def)
qed

lemma key_gates_balance:
  assumes "run_gates key_gates c tx sh = Inr sh'"
  shows "unat (balance_view c sh' (pubHex tx)) + outlay tx \<le> unat (balance_view c sh (pubHex tx))"
    and "j \<noteq> pubHex tx \<Longrightarrow> balance_view c sh' j = balance_view c sh j"
proof -
  obtain f n r u l g v t s q e where run: "gate_fee c tx sh = Inr f" "gate_fund c tx f = Inr f"
    "gate_balance c tx f = Inr f" "gate_nonce c tx f = Inr n"
    "gate_running c tx n = Inr r" "gate_buy c tx r = Inr u" "gate_list_delist c tx u = Inr l"
    "gate_register c tx l = Inr g" "gate_reveal c tx g = Inr v" "gate_transfer c tx v = Inr t"
    "gate_stake c tx t = Inr s" "gate_unstake c tx s = Inr q" "gate_equivocation c tx q = Inr e"
    "gate_finish c tx e = Inr sh'"
    using assms by (rule key_gates_run)
  note fr = fee_frame [OF run(1)] nonce_frame [OF run(4)] running_frame [OF run(5)] buy_frame [OF run(6)]
    list_delist_frame [OF run(7)] register_frame [OF run(8)] reveal_frame [OF run(9)]
    transfer_frame [OF run(10)] stake_frame [OF run(11)] unstake_frame [OF run(12)] equivocation_frame [OF run(13)]
  have bal: "shadowBalance e = shadowBalance sh" by (simp add: fr)
  have cur: "currentBalance f = balance_view c sh (pubHex tx)" "currentBalance n = currentBalance f"
    using run(1) nonce_frame [OF run(4)] by (auto simp: gate_fee_def balance_view_def Let_def split: if_split_asm)
  have fee: "Fee tx \<le> currentBalance f"
    using run(3) by (auto simp: gate_balance_def split: if_split_asm)
  have fund: "unat (Fee tx) + unat (ListPrice tx) \<le> unat (currentBalance f)" if "TxType tx = FUND"
  proof -
    have "\<not> Fee tx + ListPrice tx < Fee tx" "\<not> currentBalance f < Fee tx + ListPrice tx"
      using run(2) that by (auto simp: gate_fund_def Let_def split: if_split_asm)
    then show ?thesis using no_olen_add_nat [of "Fee tx" "ListPrice tx"] unat_add_small [of "Fee tx" "ListPrice tx"]
      by (simp add: not_less word_le_nat_alt)
  qed
  have r: "unat (runningBalance r) + unat (Fee tx) + (if TxType tx = FUND then unat (ListPrice tx) else 0)
      = unat (currentBalance f)"
    using run(5) fee fund cur(2)
    by (auto simp: gate_running_def Let_def unat_diff_le word_le_nat_alt split: if_split_asm)
  have u: "unat (runningBalance u) \<le> unat (runningBalance r)"
    using run(6) by (auto simp: gate_buy_def Let_def unat_diff_le not_less split: if_split_asm)
  have s: "unat (runningBalance s) + (if TxType tx = STAKE then unat (StakeAmount tx) else 0) = unat (runningBalance t)"
    using run(11) by (auto simp: gate_stake_def Let_def unat_diff_le not_less word_le_nat_alt split: if_split_asm)
  have "runningBalance t = runningBalance u" "runningBalance e = runningBalance s"
    by (simp_all add: fr)
  moreover have fin: "shadowBalance sh' = fmupd (pubHex tx) (runningBalance e) (shadowBalance e)"
    using run(14) by (auto simp: gate_finish_def Let_def split: if_split_asm)
  moreover have "outlay tx \<le> unat (Fee tx) + (if TxType tx = FUND then unat (ListPrice tx) else 0)
      + (if TxType tx = STAKE then unat (StakeAmount tx) else 0)"
    by (simp add: outlay_def)
  ultimately show "unat (balance_view c sh' (pubHex tx)) + outlay tx \<le> unat (balance_view c sh (pubHex tx))"
    using r u s cur(1) by (simp add: balance_view_def)
  show "balance_view c sh' j = balance_view c sh j" if "j \<noteq> pubHex tx"
    using that fin bal by (simp add: balance_view_def)
qed

text \<open>The ledger the accepted prefix produces covers the shadow balances and has the shadow nonces.\<close>

definition ledger_rel :: "('s, 'c) vctx \<Rightarrow> shadow \<Rightarrow> BalanceLedger \<Rightarrow> bool" where
  "ledger_rel c sh l \<longleftrightarrow>
     (\<forall>k. GetNonce l k = nonce_view c sh k \<and> unat (balance_view c sh k) \<le> unat (GetBalance l k))"

lemma ledger_rel_start: "ledger_rel c shadow0 (vLedger c)"
  by (simp add: ledger_rel_def nonce_view_def balance_view_def shadow0_def)

lemma ledger_rel_views:
  "shadowNonce sh' = shadowNonce sh \<Longrightarrow> shadowBalance sh' = shadowBalance sh \<Longrightarrow>
   ledger_rel c sh' l = ledger_rel c sh l"
  by (simp add: ledger_rel_def nonce_view_def balance_view_def)

lemma front_ledger_rel: "run_gates front_gates c tx sh = Inr sh' \<Longrightarrow> ledger_rel c sh' l = ledger_rel c sh l"
  by (rule ledger_rel_views) (rule front_frame(1,2), assumption)+

definition fee_paid :: "Transaction \<Rightarrow> nat" where
  "fee_paid tx = (if keyed tx then unat (Fee tx) else 0)"

lemma ledger_rel_step:
  assumes rel: "ledger_rel c sh l" and acc: "validate_tx c tx sh = Inr sh'" and cap: "ledger_supply l < 2 ^ 64"
  obtains l' where "ApplyLedgerMutations tx l = Inr l'" "ledger_rel c sh' l'"
    "ledger_supply l' + fee_paid tx + staked_by tx = ledger_supply l"
  using acc
proof (cases rule: validate_tx_cases)
  case auto
  then have "ApplyLedgerMutations tx l = Inr l" "ledger_rel c sh' l"
    using rel front_ledger_rel [OF auto(2), of l] by (simp_all add: ApplyLedgerMutations_def)
  with auto that show thesis by (simp add: fee_paid_def staked_by_def)
next
  case (key m)
  have m: "ledger_rel c m l" using rel front_ledger_rel [OF key(2), of l] by simp
  note bal = key_gates_balance [OF key(3)] and non = key_gates_nonce [OF key(3)]
  have funds: "outlay tx \<le> unat (GetBalance l (pubHex tx))"
    using m bal(1) unfolding ledger_rel_def by (meson add_leD2 order_trans)
  obtain l' where l': "ApplyLedgerMutations tx l = Inr l'"
    "ledger_supply l' + unat (Fee tx) + staked_by tx = ledger_supply l"
    "unat (GetBalance l' (pubHex tx)) + outlay tx \<ge> unat (GetBalance l (pubHex tx))"
    "\<And>j. j \<noteq> pubHex tx \<Longrightarrow> unat (GetBalance l' j) \<ge> unat (GetBalance l j)"
    by (rule ApplyLedgerMutations_pays [OF key(1) cap funds]) blast
  have "ledger_rel c sh' l'"
    unfolding ledger_rel_def
  proof
    fix k
    have "GetNonce l' k = nonce_view c sh' k"
      using ApplyLedgerMutations_nonce [OF l'(1), of k] m key(1) non(2) [of k] by (simp add: ledger_rel_def)
    moreover have "unat (balance_view c sh' k) \<le> unat (GetBalance l' k)"
    proof (cases "k = pubHex tx")
      case True
      then show ?thesis using l'(3) bal(1) m by (auto simp: ledger_rel_def dest!: spec [of _ "pubHex tx"])
    next
      case False
      then show ?thesis using l'(4) [OF False] bal(2) [OF False] m by (auto simp: ledger_rel_def intro: order_trans)
    qed
    ultimately show "GetNonce l' k = nonce_view c sh' k \<and> unat (balance_view c sh' k) \<le> unat (GetBalance l' k)" ..
  qed
  with l' key(1) that show thesis by (simp add: fee_paid_def)
qed

lemma ledger_rel_loop:
  assumes "validate_loop c txs sh = Inr sh'" "ledger_rel c sh l" "ledger_supply l < 2 ^ 64"
  shows "\<exists>l'. ApplyLedgerAll txs l = Inr l' \<and> ledger_rel c sh' l' \<and>
    ledger_supply l' + sum_list (map fee_paid txs) + sum_list (map staked_by txs) = ledger_supply l"
  using assms
proof (induction txs arbitrary: sh l)
  case Nil
  then show ?case by simp
next
  case (Cons tx txs)
  then obtain m where m: "validate_tx c tx sh = Inr m" "validate_loop c txs m = Inr sh'"
    by (auto simp: bindR_eq_Inr)
  obtain l1 where l1: "ApplyLedgerMutations tx l = Inr l1" "ledger_rel c m l1"
    "ledger_supply l1 + fee_paid tx + staked_by tx = ledger_supply l"
    by (rule ledger_rel_step [OF Cons.prems(2) m(1) Cons.prems(3)])
  then have "ledger_supply l1 < 2 ^ 64" using Cons.prems(3) by simp
  with Cons.IH [OF m(2) l1(2)] l1 show ?case by auto
qed

lemma accepted_ledger:
  assumes "ValidateTransactions c txs = Inr True" "ledger_supply (vLedger c) < 2 ^ 64"
  obtains l where "ApplyLedgerAll txs (vLedger c) = Inr l"
    "ledger_supply l + sum_list (map fee_paid txs) + sum_list (map staked_by txs) = ledger_supply (vLedger c)"
proof -
  obtain sh where "validate_loop c txs shadow0 = Inr sh" using assms(1) by (auto simp: accepted_loop)
  from ledger_rel_loop [OF this ledger_rel_start assms(2)] that show thesis by blast
qed

lemma accepted_nonce:
  assumes "ValidateTransactions c (pre @ tx # post) = Inr True" "ledger_supply (vLedger c) < 2 ^ 64" "keyed tx"
  shows "\<exists>l. ApplyLedgerAll pre (vLedger c) = Inr l \<and> TxNonce tx = GetNonce l (pubHex tx) \<and>
    outlay tx \<le> unat (GetBalance l (pubHex tx))"
proof -
  obtain s s' where s: "validate_loop c pre shadow0 = Inr s" "validate_tx c tx s = Inr s'"
    using assms(1) by (rule accepted_split)
  obtain l where l: "ApplyLedgerAll pre (vLedger c) = Inr l" "ledger_rel c s l"
    using ledger_rel_loop [OF s(1) ledger_rel_start assms(2)] by blast
  from s(2) obtain m where m: "run_gates front_gates c tx s = Inr m" "run_gates key_gates c tx m = Inr s'"
    using assms(3) by (auto elim: validate_tx_cases)
  have "ledger_rel c m l" using l(2) front_ledger_rel [OF m(1), of l] by simp
  with key_gates_nonce(1) [OF m(2)] key_gates_balance(1) [OF m(2)] l(1) show ?thesis
    unfolding ledger_rel_def by (metis add_leD2 order_trans)
qed

subsection \<open>Double spends\<close>

definition redeeming :: "Transaction \<Rightarrow> bool" where
  "redeeming tx \<longleftrightarrow> RedeemsTxID tx \<noteq> 0 \<and> TxType tx \<in> {REGISTER, UPDATE, RENEW, REVOKE, REVEAL}"

lemma key_gates_frame:
  assumes "run_gates key_gates c tx sh = Inr sh'"
  shows "shadowSpent sh' = shadowSpent sh"
proof -
  obtain f n r u l g v t s q e where run: "gate_fee c tx sh = Inr f" "gate_nonce c tx f = Inr n"
    "gate_running c tx n = Inr r" "gate_buy c tx r = Inr u" "gate_list_delist c tx u = Inr l"
    "gate_register c tx l = Inr g" "gate_reveal c tx g = Inr v" "gate_transfer c tx v = Inr t"
    "gate_stake c tx t = Inr s" "gate_unstake c tx s = Inr q" "gate_equivocation c tx q = Inr e"
    "gate_finish c tx e = Inr sh'"
    using assms by (rule key_gates_run)
  note fr = fee_frame [OF run(1)] nonce_frame [OF run(2)] running_frame [OF run(3)] buy_frame [OF run(4)]
    list_delist_frame [OF run(5)] register_frame [OF run(6)] reveal_frame [OF run(7)]
    transfer_frame [OF run(8)] stake_frame [OF run(9)] unstake_frame [OF run(10)] equivocation_frame [OF run(11)]
    finish_frame [OF run(12)]
  show ?thesis by (simp add: fr)
qed

lemma gate_redeems_redeeming:
  assumes "gate_redeems c tx sh = Inr sh'"
  shows "shadowSpent sh' = (if redeeming tx then finsert (RedeemsTxID tx) (shadowSpent sh) else shadowSpent sh)"
    and "redeeming tx \<Longrightarrow> RedeemsTxID tx |\<notin>| shadowSpent sh \<and> \<not> diIsSpent (vIndexOps c) (vIm c) (RedeemsTxID tx)"
proof -
  show "shadowSpent sh' = (if redeeming tx then finsert (RedeemsTxID tx) (shadowSpent sh) else shadowSpent sh)"
    using assms unfolding gate_redeems_def redeeming_def [symmetric] by (clarsimp split: if_split_asm)
  show "RedeemsTxID tx |\<notin>| shadowSpent sh \<and> \<not> diIsSpent (vIndexOps c) (vIm c) (RedeemsTxID tx)" if "redeeming tx"
    using assms that unfolding gate_redeems_def redeeming_def [symmetric] by (simp split: if_split_asm)
qed

lemma front_spent:
  assumes "run_gates front_gates c tx sh = Inr m"
  shows "shadowSpent m = (if redeeming tx then finsert (RedeemsTxID tx) (shadowSpent sh) else shadowSpent sh)"
    and "redeeming tx \<Longrightarrow> RedeemsTxID tx |\<notin>| shadowSpent sh \<and> \<not> diIsSpent (vIndexOps c) (vIm c) (RedeemsTxID tx)"
proof -
  obtain a where a: "gate_redeems c tx sh = Inr a" "gate_commit c tx a = Inr m"
    using assms by (rule front_gates_run)
  show "shadowSpent m = (if redeeming tx then finsert (RedeemsTxID tx) (shadowSpent sh) else shadowSpent sh)"
    using gate_redeems_redeeming(1) [OF a(1)] commit_frame [OF a(2)] by simp
  show "RedeemsTxID tx |\<notin>| shadowSpent sh \<and> \<not> diIsSpent (vIndexOps c) (vIm c) (RedeemsTxID tx)" if "redeeming tx"
    using gate_redeems_redeeming(2) [OF a(1) that] .
qed

lemma spent_step:
  assumes "validate_tx c tx sh = Inr sh'"
  shows "shadowSpent sh' = (if redeeming tx then finsert (RedeemsTxID tx) (shadowSpent sh) else shadowSpent sh)"
    and "redeeming tx \<Longrightarrow> RedeemsTxID tx |\<notin>| shadowSpent sh \<and> \<not> diIsSpent (vIndexOps c) (vIm c) (RedeemsTxID tx)"
proof -
  obtain m where front: "run_gates front_gates c tx sh = Inr m" and eq: "shadowSpent sh' = shadowSpent m"
    using assms by (cases rule: validate_tx_cases) (simp, metis key_gates_frame)
  show "shadowSpent sh' = (if redeeming tx then finsert (RedeemsTxID tx) (shadowSpent sh) else shadowSpent sh)"
    unfolding eq by (rule front_spent(1) [OF front])
  show "RedeemsTxID tx |\<notin>| shadowSpent sh \<and> \<not> diIsSpent (vIndexOps c) (vIm c) (RedeemsTxID tx)" if "redeeming tx"
    by (rule front_spent(2) [OF front that])
qed

lemma spent_loop:
  assumes "validate_loop c txs sh = Inr sh'"
  shows "distinct (map RedeemsTxID (filter redeeming txs)) \<and>
    (\<forall>tx \<in> set txs. redeeming tx \<longrightarrow> RedeemsTxID tx |\<notin>| shadowSpent sh \<and>
       \<not> diIsSpent (vIndexOps c) (vIm c) (RedeemsTxID tx))"
  using assms
proof (induction txs arbitrary: sh)
  case (Cons tx txs)
  then obtain m where m: "validate_tx c tx sh = Inr m" "validate_loop c txs m = Inr sh'"
    by (auto simp: bindR_eq_Inr)
  from Cons.IH [OF m(2)] spent_step [OF m(1)] show ?case
    by (auto split: if_split_asm)
qed simp

subsection \<open>Ownership\<close>

text \<open>The owner of every domain after a transaction, as hexadecimal keys.\<close>

definition owner_step :: "Transaction \<Rightarrow> (string \<Rightarrow> string) \<Rightarrow> string \<Rightarrow> string" where
  "owner_step tx own =
     (if TxType tx = REVEAL \<or> TxType tx = TRANSFER then own(DomainName tx := hex (sl (Recipient tx)))
      else if TxType tx = BUY then own(DomainName tx := pubHex tx)
      else own)"

lemma current_owner_upd:
  "shadowOwner sh' = fmupd d v (shadowOwner sh) \<Longrightarrow> current_owner c sh' = (current_owner c sh)(d := v)"
  by (rule ext) (simp add: current_owner_def)

lemma current_owner_same: "shadowOwner sh' = shadowOwner sh \<Longrightarrow> current_owner c sh' = current_owner c sh"
  by (rule ext) (simp add: current_owner_def)

lemma key_gates_owner:
  assumes "run_gates key_gates c tx sh = Inr sh'" "TxType tx \<noteq> REGISTER"
  shows "current_owner c sh' = owner_step tx (current_owner c sh)"
    and "TxType tx \<in> {UPDATE, REVOKE, LIST, DELIST, TRANSFER} \<Longrightarrow> current_owner c sh (DomainName tx) = pubHex tx"
    and "TxType tx = BUY \<Longrightarrow> current_owner c sh (DomainName tx) \<noteq> pubHex tx"
proof -
  obtain f n r u l g v t s q e where run: "gate_fee c tx sh = Inr f" "gate_nonce c tx f = Inr n"
    "gate_running c tx n = Inr r" "gate_buy c tx r = Inr u" "gate_list_delist c tx u = Inr l"
    "gate_update_revoke c tx l = Inr l" "gate_register c tx l = Inr g" "gate_reveal c tx g = Inr v"
    "gate_transfer c tx v = Inr t" "gate_stake c tx t = Inr s" "gate_unstake c tx s = Inr q"
    "gate_equivocation c tx q = Inr e" "gate_finish c tx e = Inr sh'"
    using assms(1) by (rule key_gates_run)
  have l: "shadowOwner r = shadowOwner sh" "shadowOwner u = shadowOwner sh" "shadowOwner l = shadowOwner sh"
    by (simp_all add: fee_frame [OF run(1)] nonce_frame [OF run(2)] running_frame [OF run(3)]
        buy_frame [OF run(4)] list_delist_frame [OF run(5)])
  have g: "g = l" using run(7) assms(2) by (simp add: gate_register_def)
  have e: "shadowOwner sh' = shadowOwner t"
    by (simp add: stake_frame [OF run(10)] unstake_frame [OF run(11)] equivocation_frame [OF run(12)]
        finish_frame [OF run(13)])
  have v: "shadowOwner v = (if TxType tx = REVEAL then fmupd (DomainName tx) (hex (sl (Recipient tx))) (shadowOwner sh)
      else shadowOwner sh)"
    using run(8) g l(3) by (auto simp: gate_reveal_def Let_def split: if_split_asm option.split_asm)
  have t: "shadowOwner t = (if TxType tx = TRANSFER then fmupd (DomainName tx) (hex (sl (Recipient tx))) (shadowOwner v)
      else if TxType tx = BUY then fmupd (DomainName tx) (pubHex tx) (shadowOwner v) else shadowOwner v)"
    using run(9) by (auto simp: gate_transfer_def split: if_split_asm)
  show "current_owner c sh' = owner_step tx (current_owner c sh)"
    using v t e by (auto simp: owner_step_def current_owner_def fun_eq_iff)
  note same = current_owner_same [OF l(1), of c] current_owner_same [OF l(2), of c] current_owner_same [OF l(3), of c]
  have vs: "current_owner c v = current_owner c sh" if "TxType tx = TRANSFER"
    using v that by (intro current_owner_same) simp
  show "current_owner c sh (DomainName tx) = pubHex tx" if "TxType tx \<in> {UPDATE, REVOKE, LIST, DELIST, TRANSFER}"
    using that run(5,6,9) same vs
    by (auto simp: gate_list_delist_def gate_update_revoke_def gate_transfer_def bindR_eq_Inr
        dest: gate_pure split: if_split_asm)
  show "current_owner c sh (DomainName tx) \<noteq> pubHex tx" if "TxType tx = BUY"
    using that run(4) l(1) by (auto simp: gate_buy_def Let_def current_owner_def split: if_split_asm)
qed

text \<open>The owners after a prefix of the batch; keyless revocations change none.\<close>

fun owners_after :: "Transaction list \<Rightarrow> (string \<Rightarrow> string) \<Rightarrow> string \<Rightarrow> string" where
  "owners_after [] own = own"
| "owners_after (tx # txs) own = owners_after txs (if keyed tx then owner_step tx own else own)"

lemma owner_step_accepted:
  assumes "validate_tx c tx sh = Inr sh'"
  shows "current_owner c sh' = (if keyed tx then owner_step tx (current_owner c sh) else current_owner c sh)"
    and "keyed tx \<Longrightarrow> TxType tx \<in> {UPDATE, REVOKE, LIST, DELIST, TRANSFER} \<Longrightarrow>
      current_owner c sh (DomainName tx) = pubHex tx"
    and "keyed tx \<Longrightarrow> TxType tx = BUY \<Longrightarrow> current_owner c sh (DomainName tx) \<noteq> pubHex tx"
proof -
  note nr = accepted_not_register [OF assms]
  obtain m where front: "run_gates front_gates c tx sh = Inr m"
    and rest: "if keyed tx then run_gates key_gates c tx m = Inr sh' else sh' = m"
    using assms by (cases rule: validate_tx_cases) auto
  have same: "current_owner c m = current_owner c sh"
    using front_frame(5) [OF front] by (rule current_owner_same)
  show "current_owner c sh' = (if keyed tx then owner_step tx (current_owner c sh) else current_owner c sh)"
    using rest key_gates_owner(1) [of c tx m sh'] nr same by (auto split: if_split_asm)
  show "current_owner c sh (DomainName tx) = pubHex tx"
    if "keyed tx" "TxType tx \<in> {UPDATE, REVOKE, LIST, DELIST, TRANSFER}"
    using rest that(1) key_gates_owner(2) [of c tx m sh', OF _ nr that(2)] same by simp
  show "current_owner c sh (DomainName tx) \<noteq> pubHex tx" if "keyed tx" "TxType tx = BUY"
    using rest that(1) key_gates_owner(3) [of c tx m sh', OF _ nr that(2)] same by simp
qed

lemma owners_after_accepted:
  "validate_loop c txs sh = Inr sh' \<Longrightarrow> current_owner c sh' = owners_after txs (current_owner c sh)"
proof (induction txs arbitrary: sh)
  case (Cons tx txs)
  then obtain m where m: "validate_tx c tx sh = Inr m" "validate_loop c txs m = Inr sh'"
    by (auto simp: bindR_eq_Inr)
  from Cons.IH [OF m(2)] owner_step_accepted(1) [OF m(1)] show ?case by simp
qed simp

subsection \<open>Stakes\<close>

definition stake_rel :: "('s, 'c) vctx \<Rightarrow> shadow \<Rightarrow> StakeMap \<Rightarrow> bool" where
  "stake_rel c sh sm \<longleftrightarrow> (\<forall>v. current_stake c sh v = GetStake sm v)"

lemma stake_rel_same: "shadowStake sh' = shadowStake sh \<Longrightarrow> stake_rel c sh' sm = stake_rel c sh sm"
  by (simp add: stake_rel_def current_stake_def)

text \<open>What an accepted STAKE or UNSTAKE satisfies in the stake map it meets.\<close>

definition stake_allowed :: "Transaction \<Rightarrow> StakeMap \<Rightarrow> bool" where
  "stake_allowed tx sm \<longleftrightarrow>
     (TxType tx = STAKE \<longrightarrow> StakeAmount tx > 0 \<and>
        (GetStake sm (pubHex tx) = 0 \<longrightarrow> StakeAmount tx \<ge> MinStakeThreshold)) \<and>
     (TxType tx = UNSTAKE \<longrightarrow> StakeAmount tx > 0 \<and> StakeAmount tx \<le> GetStake sm (pubHex tx) \<and>
        (GetStake sm (pubHex tx) - StakeAmount tx = 0 \<or>
         GetStake sm (pubHex tx) - StakeAmount tx \<ge> MinStakeThreshold))"

lemma gate_stake_rel:
  assumes "gate_stake c tx sh = Inr sh'" "stake_rel c sh sm" "TxType tx = STAKE"
  shows "stake_rel c sh' (AddStake sm (pubHex tx) (StakeAmount tx))" "stake_allowed tx sm"
proof -
  have cur: "current_stake c sh (pubHex tx) = GetStake sm (pubHex tx)" using assms(2) by (simp add: stake_rel_def)
  have sh': "shadowStake sh' = fmupd (pubHex tx) (GetStake sm (pubHex tx) + StakeAmount tx) (shadowStake sh)"
    using assms(1,3) unfolding gate_stake_def cur Let_def by (auto split: if_split_asm)
  show "stake_rel c sh' (AddStake sm (pubHex tx) (StakeAmount tx))"
    using assms(2) by (auto simp: stake_rel_def current_stake_def sh' stake_simps)
  show "stake_allowed tx sm"
    using assms(1,3) unfolding gate_stake_def cur Let_def
    by (auto simp: stake_allowed_def word_gt_0 not_less split: if_split_asm)
qed

lemma gate_unstake_rel:
  assumes "gate_unstake c tx sh = Inr sh'" "stake_rel c sh sm" "TxType tx = UNSTAKE"
  shows "stake_rel c sh' (ReduceStake sm (pubHex tx) (StakeAmount tx))" "stake_allowed tx sm"
proof -
  have cur: "current_stake c sh (pubHex tx) = GetStake sm (pubHex tx)" using assms(2) by (simp add: stake_rel_def)
  have le: "StakeAmount tx \<le> GetStake sm (pubHex tx)"
    and sh': "shadowStake sh' = fmupd (pubHex tx) (GetStake sm (pubHex tx) - StakeAmount tx) (shadowStake sh)"
    using assms(1,3) unfolding gate_unstake_def cur Let_def by (auto split: if_split_asm)
  show "stake_rel c sh' (ReduceStake sm (pubHex tx) (StakeAmount tx))"
    using assms(2) le by (auto simp: stake_rel_def current_stake_def sh' stake_simps min_def)
  show "stake_allowed tx sm"
    using assms(1,3) unfolding gate_unstake_def cur Let_def
    by (auto simp: stake_allowed_def word_gt_0 not_less split: if_split_asm)
qed

lemma key_gates_stake:
  assumes "run_gates key_gates c tx sh = Inr sh'" "TxType tx \<noteq> EQUIVOCATION_PROOF" "keyed tx" "stake_rel c sh (ssMap st)"
  shows "\<exists>st'. ApplyStakeMutations cd tx st slot = Inr st' \<and> stake_rel c sh' (ssMap st') \<and> stake_allowed tx (ssMap st)"
proof -
  obtain f n r u l g v t s q e where run: "gate_fee c tx sh = Inr f" "gate_nonce c tx f = Inr n"
    "gate_running c tx n = Inr r" "gate_buy c tx r = Inr u" "gate_list_delist c tx u = Inr l"
    "gate_register c tx l = Inr g" "gate_reveal c tx g = Inr v" "gate_transfer c tx v = Inr t"
    "gate_stake c tx t = Inr s" "gate_unstake c tx s = Inr q" "gate_equivocation c tx q = Inr e"
    "gate_finish c tx e = Inr sh'"
    using assms(1) by (rule key_gates_run)
  have "shadowStake t = shadowStake sh"
    by (simp add: fee_frame [OF run(1)] nonce_frame [OF run(2)] running_frame [OF run(3)] buy_frame [OF run(4)]
        list_delist_frame [OF run(5)] register_frame [OF run(6)] reveal_frame [OF run(7)] transfer_frame [OF run(8)])
  from stake_rel_same [OF this] have t: "stake_rel c t (ssMap st)" using assms(4) by blast
  have "e = q" using run(11) assms(2) by (simp add: gate_equivocation_def)
  then have e: "stake_rel c sh' sm = stake_rel c q sm" for sm
    using finish_frame [OF run(12)] by (intro stake_rel_same) simp
  consider "TxType tx = STAKE" | "TxType tx = UNSTAKE" | "TxType tx \<noteq> STAKE" "TxType tx \<noteq> UNSTAKE" by blast
  then show ?thesis
  proof cases
    case 1
    then have "q = s" using run(10) by (simp add: gate_unstake_def)
    with gate_stake_rel [OF run(9) t 1] 1 e assms(3) show ?thesis
      by (simp add: ApplyStakeMutations_def Let_def)
  next
    case 2
    then have "s = t" using run(9) by (simp add: gate_stake_def)
    with gate_unstake_rel [of c tx t q, OF _ t 2] run(10) 2 e assms(3) show ?thesis
      by (simp add: ApplyStakeMutations_def Let_def)
  next
    case 3
    then have "q = t" using run(9,10) by (simp add: gate_stake_def gate_unstake_def)
    with 3 e t assms(2) show ?thesis
      by (cases "TxType tx") (simp_all add: ApplyStakeMutations_def Let_def stake_allowed_def)
  qed
qed

lemma stake_step:
  assumes "validate_tx c tx sh = Inr sh'" "TxType tx \<noteq> EQUIVOCATION_PROOF" "stake_rel c sh (ssMap st)"
  shows "\<exists>st'. ApplyStakeMutations cd tx st slot = Inr st' \<and> stake_rel c sh' (ssMap st') \<and>
    (keyed tx \<longrightarrow> stake_allowed tx (ssMap st))"
  using assms(1)
proof (cases rule: validate_tx_cases)
  case auto
  then have "stake_rel c sh' (ssMap st)" using assms(3) stake_rel_same [OF front_frame(7)] by blast
  with auto show ?thesis by (simp add: ApplyStakeMutations_def)
next
  case (key m)
  then have "stake_rel c m (ssMap st)" using assms(3) stake_rel_same [OF front_frame(7)] by blast
  from key_gates_stake [OF key(3) assms(2) key(1) this] show ?thesis by blast
qed

lemma stake_loop:
  assumes "validate_loop c txs sh = Inr sh'" "\<forall>tx \<in> set txs. TxType tx \<noteq> EQUIVOCATION_PROOF" "stake_rel c sh (ssMap st)"
  shows "\<exists>st'. ApplyStakeAll cd txs slot st = Inr st' \<and> stake_rel c sh' (ssMap st')"
  using assms
proof (induction txs arbitrary: sh st)
  case (Cons tx txs)
  then obtain m where m: "validate_tx c tx sh = Inr m" "validate_loop c txs m = Inr sh'"
    by (auto simp: bindR_eq_Inr)
  obtain st1 where "ApplyStakeMutations cd tx st slot = Inr st1" "stake_rel c m (ssMap st1)"
    using stake_step [OF m(1), of st cd slot] Cons.prems by auto
  with Cons.IH [OF m(2)] Cons.prems(2) show ?case by simp
qed simp

lemma stake_rel_start: "stake_rel c shadow0 (vStakeMap c)"
  by (simp add: stake_rel_def current_stake_def shadow0_def)

subsection \<open>Reveals\<close>

definition reveal_opens :: "('s, 'c) vctx \<Rightarrow> Transaction \<Rightarrow> CommitRecord \<Rightarrow> bool" where
  "reveal_opens c tx rec \<longleftrightarrow>
     CommitTID rec = RedeemsTxID tx \<and> CommitterPK rec = sl (OwnerKey tx) \<and> sl (OwnerKey tx) \<in> set (vRegistries c) \<and>
     CommitMinDelay \<le> i64 (vSlot c - CommitSlot rec) \<and> length (sl (Recipient tx)) > 0 \<and>
     pred_option (\<lambda>old. GetDomainPhase (vSlot c) (ExpirySlot old) (vSlotsPerDay c) = ''purged'' \<and>
         ComputePurgeSlot (ExpirySlot old) (vSlotsPerDay c) \<le> CommitSlot rec)
       (diGetDomain (vIndexOps c) (vIm c) (DomainName tx))"

lemma gate_reveal_opens:
  assumes "gate_reveal c tx sh = Inr sh'" "TxType tx = REVEAL"
  shows "\<exists>cs rec. vCs c = Some cs \<and> csGetCommit (vCommitOps c) cs (reveal_key tx) = Some rec \<and> reveal_opens c tx rec"
    and "DomainName tx |\<notin>| shadowRegistered sh" "reveal_key tx |\<notin>| shadowCommit sh"
    and "shadowRegistered sh' = finsert (DomainName tx) (shadowRegistered sh)"
proof -
  obtain cs rec where rec: "vCs c = Some cs" "csGetCommit (vCommitOps c) cs (reveal_key tx) = Some rec"
    "IsRegistryKey (vRegistries c) (sl (OwnerKey tx))" "length (sl (Recipient tx)) > 0"
    "reveal_key tx |\<notin>| shadowCommit sh" "\<not> reveal_refused c tx sh rec"
    and sh': "shadowRegistered sh' = finsert (DomainName tx) (shadowRegistered sh)"
    using assms unfolding gate_reveal_def Let_def by (auto split: if_split_asm option.split_asm)
  show "shadowRegistered sh' = finsert (DomainName tx) (shadowRegistered sh)" by (rule sh')
  show "reveal_key tx |\<notin>| shadowCommit sh" by (rule rec(5))
  show "DomainName tx |\<notin>| shadowRegistered sh" using rec(6) by (simp add: reveal_refused_def split: if_split_asm)
  have "reveal_opens c tx rec"
    using rec(3,4,6) unfolding reveal_opens_def reveal_refused_def IsRegistryKey_iff
    by (simp del: phase_purged_iff split: if_split_asm option.split_asm)
  with rec(1,2) show "\<exists>cs rec. vCs c = Some cs \<and> csGetCommit (vCommitOps c) cs (reveal_key tx) = Some rec \<and> reveal_opens c tx rec"
    by blast
qed

lemma key_gates_reveal:
  assumes "run_gates key_gates c tx sh = Inr sh'" "TxType tx = REVEAL"
  shows "\<exists>cs rec. vCs c = Some cs \<and> csGetCommit (vCommitOps c) cs (reveal_key tx) = Some rec \<and> reveal_opens c tx rec"
    and "DomainName tx |\<notin>| shadowRegistered sh"
proof -
  obtain f n r u l g v where run: "gate_fee c tx sh = Inr f" "gate_nonce c tx f = Inr n"
    "gate_running c tx n = Inr r" "gate_buy c tx r = Inr u" "gate_list_delist c tx u = Inr l"
    "gate_register c tx l = Inr g" "gate_reveal c tx g = Inr v"
    using assms(1) by (rule key_gates_run)
  have "g = l" using run(6) assms(2) by (simp add: gate_register_def)
  then have "shadowRegistered g = shadowRegistered sh"
    by (simp add: fee_frame [OF run(1)] nonce_frame [OF run(2)] running_frame [OF run(3)] buy_frame [OF run(4)]
        list_delist_frame [OF run(5)])
  with gate_reveal_opens [OF run(7) assms(2)]
  show "\<exists>cs rec. vCs c = Some cs \<and> csGetCommit (vCommitOps c) cs (reveal_key tx) = Some rec \<and> reveal_opens c tx rec"
    "DomainName tx |\<notin>| shadowRegistered sh" by simp_all
qed

lemma key_gates_registered:
  assumes "run_gates key_gates c tx sh = Inr sh'" "TxType tx \<noteq> REGISTER"
  shows "shadowRegistered sh' =
    (if TxType tx = REVEAL then finsert (DomainName tx) (shadowRegistered sh) else shadowRegistered sh)"
proof -
  obtain f n r u l g v t s q e where run: "gate_fee c tx sh = Inr f" "gate_nonce c tx f = Inr n"
    "gate_running c tx n = Inr r" "gate_buy c tx r = Inr u" "gate_list_delist c tx u = Inr l"
    "gate_register c tx l = Inr g" "gate_reveal c tx g = Inr v" "gate_transfer c tx v = Inr t"
    "gate_stake c tx t = Inr s" "gate_unstake c tx s = Inr q" "gate_equivocation c tx q = Inr e"
    "gate_finish c tx e = Inr sh'"
    using assms(1) by (rule key_gates_run)
  have "g = l" using run(6) assms(2) by (simp add: gate_register_def)
  then have g: "shadowRegistered g = shadowRegistered sh"
    by (simp add: fee_frame [OF run(1)] nonce_frame [OF run(2)] running_frame [OF run(3)] buy_frame [OF run(4)]
        list_delist_frame [OF run(5)])
  have v: "shadowRegistered v = (if TxType tx = REVEAL then finsert (DomainName tx) (shadowRegistered g) else shadowRegistered g)"
    using run(7) gate_reveal_opens(4) [OF run(7)] by (auto simp: gate_reveal_def)
  show ?thesis
    by (simp add: transfer_frame [OF run(8)] stake_frame [OF run(9)] unstake_frame [OF run(10)]
        equivocation_frame [OF run(11)] finish_frame [OF run(12)] v g)
qed

lemma registered_step:
  assumes "validate_tx c tx sh = Inr sh'"
  shows "shadowRegistered sh' = (if keyed tx \<and> TxType tx = REVEAL then finsert (DomainName tx) (shadowRegistered sh)
    else shadowRegistered sh)"
  using assms
proof (cases rule: validate_tx_cases)
  case auto
  then show ?thesis using front_frame(4) [OF auto(2)] by simp
next
  case (key m)
  then show ?thesis
    using front_frame(4) [OF key(2)] key_gates_registered [OF key(3) accepted_not_register [OF assms]] by auto
qed

lemma registered_loop:
  assumes "validate_loop c txs sh = Inr sh'"
  shows "\<forall>t \<in> set txs. keyed t \<and> TxType t = REVEAL \<longrightarrow> DomainName t |\<in>| shadowRegistered sh'"
    and "fset (shadowRegistered sh) \<subseteq> fset (shadowRegistered sh')"
  using assms
proof (induction txs arbitrary: sh)
  case (Cons tx txs)
  {
    case 1
    then obtain m where m: "validate_tx c tx sh = Inr m" "validate_loop c txs m = Inr sh'"
      by (auto simp: bindR_eq_Inr)
    from Cons.IH(1) [OF m(2)] Cons.IH(2) [OF m(2)] registered_step [OF m(1)] show ?case by auto
  next
    case 2
    then obtain m where m: "validate_tx c tx sh = Inr m" "validate_loop c txs m = Inr sh'"
      by (auto simp: bindR_eq_Inr)
    from Cons.IH(2) [OF m(2)] registered_step [OF m(1)] show ?case by (auto split: if_split_asm)
  }
qed simp_all

subsection \<open>A sample batch\<close>

definition sample_sig :: bytes where
  "sample_sig = (replicate 31 0 @ [1]) @ (replicate 31 0 @ [1])"

lemma sample_half: "nat_of_bytes (replicate 31 0 @ [1]) = 1"
  by (simp only: nat_of_bytes_zeros) (simp add: nat_of_bytes_def)

lemma sample_sig_verifies [simp]: "VerifySignature sample_crypto pub (tx\<lparr>TxSignature := Some sample_sig\<rparr>)"
  by (simp add: VerifySignature_def BytesToPublicKey_def sample_crypto_def sample_sig_def sample_half
      del: append_assoc nat_of_bytes_snoc)

definition sample_stake :: Transaction where
  "sample_stake = zero_Transaction\<lparr>TID := 11, TxType := STAKE, OwnerKey := Some [1, 2, 3, 4], Fee := 2,
     StakeAmount := 200, TxSignature := Some sample_sig\<rparr>"

definition sample_revoke :: Transaction where
  "sample_revoke = zero_Transaction\<lparr>TID := 12, TxType := REVOKE, DomainName := ''a.com'', RedeemsTxID := 4,
     OwnerKey := Some [1, 2, 3, 4], Fee := 3, TxNonce := 1, TxSignature := Some sample_sig\<rparr>"

definition sample_ctx :: "(string fset IndexOverlay, CommitOverlay) vctx" where
  "sample_ctx = \<lparr>vCrypto = sample_crypto, vCodec = sample_codec, vRegistries = [[1, 2, 3, 4]],
     vIndexOps = IndexOverlayOps sample_bloom sorted_keys, vCommitOps = CommitOverlayOps,
     vLedger = Seed NewBalanceLedger (hex [1, 2, 3, 4]) 1000, vIm = dsIndex sample_state, vCs = None,
     vSlot = 10, vSlotsPerDay = 10, vIsBlock = True, vSlotLeader = [7], vBlockIndex = 2,
     vStakeMap = NewStakeMap, vQueue = NewUnstakeQueue, vSlashed = {||}\<rparr>"

lemmas front_defs = gate_signature_def gate_pos_hygiene_def legacy_fields_def gate_legacy_hygiene_def
  gate_no_register_def gate_commit_fields_def gate_redeems_def gate_structure_def gate_commit_def
  gate_market_phase_def gate_known_domain_def

lemmas key_defs = gate_fee_def gate_fund_def gate_balance_def gate_nonce_def gate_running_def gate_buy_def
  gate_list_delist_def gate_update_revoke_def gate_renew_def gate_register_def gate_reveal_def
  gate_transfer_def gate_stake_def gate_unstake_def gate_equivocation_def gate_finish_def

lemma sample_stake_fields [simp]:
  "TxType sample_stake = STAKE" "OwnerKey sample_stake = Some [1, 2, 3, 4]" "DomainName sample_stake = []"
  "Records sample_stake = []" "RedeemsTxID sample_stake = 0" "Recipient sample_stake = None"
  "EquivBlockA sample_stake = []" "EquivBlockB sample_stake = []" "CommitHash sample_stake = []"
  "Salt sample_stake = []" "Fee sample_stake = 2" "TxNonce sample_stake = 0" "StakeAmount sample_stake = 200"
  by (simp_all add: sample_stake_def zero_Transaction_def)

lemma sample_revoke_fields [simp]:
  "TxType sample_revoke = REVOKE" "OwnerKey sample_revoke = Some [1, 2, 3, 4]" "DomainName sample_revoke = ''a.com''"
  "Records sample_revoke = []" "RedeemsTxID sample_revoke = 4" "Recipient sample_revoke = None"
  "EquivBlockA sample_revoke = []" "EquivBlockB sample_revoke = []" "CommitHash sample_revoke = []"
  "Salt sample_revoke = []" "Fee sample_revoke = 3" "TxNonce sample_revoke = 1" "StakeAmount sample_revoke = 0"
  by (simp_all add: sample_revoke_def zero_Transaction_def)

lemma sample_ctx_fields [simp]:
  "vCrypto sample_ctx = sample_crypto" "vIndexOps sample_ctx = IndexOverlayOps sample_bloom sorted_keys"
  "vLedger sample_ctx = Seed NewBalanceLedger (hex [1, 2, 3, 4]) 1000" "vIm sample_ctx = dsIndex sample_state"
  "vCs sample_ctx = None" "vSlot sample_ctx = 10" "vSlotsPerDay sample_ctx = 10" "vStakeMap sample_ctx = NewStakeMap"
  by (simp_all add: sample_ctx_def)

lemma sample_signatures [simp]:
  "VerifySignature sample_crypto pub sample_stake" "VerifySignature sample_crypto pub sample_revoke"
  by (simp_all add: sample_stake_def sample_revoke_def)

lemma sample_index [simp]:
  "GetTxByIDO sorted_keys (dsIndex sample_state) 4 = Some sample_domain"
  "\<not> IsSpentO (dsIndex sample_state) j"
  by (simp_all add: GetTxByIDO_def sample_state_def sample_overlay_def ord_singleton [OF enumerates_sorted_keys]
      entry_at_def sample_domain_def IsSpentO_def IsSpent_def NewIndexManager_def)

definition sample_shadow :: shadow where
  "sample_shadow = shadow0\<lparr>shadowNonce := fmupd (hex [1, 2, 3, 4]) 1 fmempty,
     shadowBalance := fmupd (hex [1, 2, 3, 4]) 798 fmempty, shadowStake := fmupd (hex [1, 2, 3, 4]) 200 fmempty,
     currentBalance := 1000, runningBalance := 798\<rparr>"

lemma sample_stake_accepted: "validate_tx sample_ctx sample_stake shadow0 = Inr sample_shadow"
  by (simp add: validate_tx_def front_gates_def key_gates_def front_defs key_defs Let_def ledger_simps shadow0_def
      sample_shadow_def MinFee_def current_stake_def stake_simps config_defs del: hex.simps)

lemma sample_revoke_accepted: "\<exists>sh. validate_tx sample_ctx sample_revoke sample_shadow = Inr sh"
  by (simp add: validate_tx_def front_gates_def key_gates_def front_defs key_defs Let_def ledger_simps shadow0_def
      sample_shadow_def MinFee_def current_owner_def IndexOverlayOps_def sample_state_views sample_domain_def del: hex.simps)

lemma sample_accepted: "ValidateTransactions sample_ctx [sample_stake, sample_revoke] = Inr True"
  using sample_revoke_accepted by (auto simp: accepted_loop sample_stake_accepted)

definition sample_commit :: CommitRecord where
  "sample_commit = \<lparr>cmHash = [7], CommitterPK = [1, 2, 3, 4], CommitBlock = 1, CommitSlot = 5, CommitTID = 31, ExpiryBlock = 101\<rparr>"

definition sample_reveal :: Transaction where
  "sample_reveal = zero_Transaction\<lparr>TID := 13, TxType := REVEAL, DomainName := ''b.org'', RedeemsTxID := 31,
     OwnerKey := Some [1, 2, 3, 4], Recipient := Some [8], Fee := 3, TxSignature := Some sample_sig\<rparr>"

lemma sample_reveal_fields [simp]:
  "TxType sample_reveal = REVEAL" "OwnerKey sample_reveal = Some [1, 2, 3, 4]" "DomainName sample_reveal = ''b.org''"
  "Records sample_reveal = []" "RedeemsTxID sample_reveal = 31" "Recipient sample_reveal = Some [8]"
  "EquivBlockA sample_reveal = []" "EquivBlockB sample_reveal = []" "CommitHash sample_reveal = []"
  "Salt sample_reveal = []" "Fee sample_reveal = 3" "TxNonce sample_reveal = 0" "StakeAmount sample_reveal = 0"
  "VerifySignature sample_crypto pub sample_reveal"
  by (simp_all add: sample_reveal_def) (simp_all add: zero_Transaction_def)

definition sample_reveal_ctx :: "(string fset IndexOverlay, CommitOverlay) vctx" where
  "sample_reveal_ctx = sample_ctx\<lparr>vCs := Some (NewCommitOverlay (fmupd (reveal_key sample_reveal) sample_commit fmempty) 2)\<rparr>"

lemma sample_reveal_ctx_fields [simp]:
  "vCrypto sample_reveal_ctx = sample_crypto" "vIndexOps sample_reveal_ctx = IndexOverlayOps sample_bloom sorted_keys"
  "vLedger sample_reveal_ctx = Seed NewBalanceLedger (hex [1, 2, 3, 4]) 1000" "vIm sample_reveal_ctx = dsIndex sample_state"
  "vCs sample_reveal_ctx = Some (NewCommitOverlay (fmupd (reveal_key sample_reveal) sample_commit fmempty) 2)"
  "vSlot sample_reveal_ctx = 10" "vSlotsPerDay sample_reveal_ctx = 10" "vCommitOps sample_reveal_ctx = CommitOverlayOps"
  "vRegistries sample_reveal_ctx = [[1, 2, 3, 4]]"
  by (simp_all add: sample_reveal_ctx_def) (simp_all add: sample_ctx_def)

lemma sample_b_org_free: "GetDomainO sample_bloom (dsIndex sample_state) ''b.org'' = None"
  by (simp add: GetDomainO_def sample_state_def sample_overlay_def sample_domain_def GetDomain_def IsValid_def
      NewIndexManager_def InitFilter_def sample_bloom_def)

lemma sample_commit_found: "GetCommitO (NewCommitOverlay (fmupd k sample_commit fmempty) 2) k = Some sample_commit"
  by (simp add: GetCommitO_def NewCommitOverlay_def sample_commit_def)

lemma sample_reveal_accepted: "ValidateTransactions sample_reveal_ctx [sample_reveal] = Inr True"
proof -
  have "\<not> reveal_refused sample_reveal_ctx sample_reveal sh sample_commit" if "shadowRegistered sh = {||}" for sh
    using that by (simp add: reveal_refused_def sample_commit_def config_defs IndexOverlayOps_def sample_b_org_free i64_def)
  then have "\<exists>sh. validate_tx sample_reveal_ctx sample_reveal shadow0 = Inr sh"
    by (simp add: validate_tx_def front_gates_def key_gates_def front_defs key_defs Let_def ledger_simps shadow0_def
      MinFee_def IndexOverlayOps_def CommitOverlayOps_def sample_commit_found del: hex.simps)
  then show ?thesis by (auto simp: accepted_loop)
qed

subsection \<open>Properties\<close>

text \<open>C7: every transaction of an accepted batch is authentic: it carries a signature of its own key,
  or it is the keyless auto-revocation of a block signed by the slot leader; and a plain REGISTER is
  never accepted.\<close>

theorem accepted_authentic:
  assumes "ValidateTransactions c txs = Inr True" and "tx \<in> set txs"
  shows "TxType tx \<noteq> REGISTER \<and>
    (if keyed tx then VerifySignature (vCrypto c) (sl (OwnerKey tx)) tx
     else TxType tx = REVOKE \<and> vIsBlock c \<and> VerifySignature (vCrypto c) (vSlotLeader c) tx)"
proof -
  obtain pre post where "txs = pre @ tx # post" using assms(2) by (meson split_list)
  then obtain s s' where "validate_tx c tx s = Inr s'" using assms(1) accepted_split [of c pre tx post] by metis
  then show ?thesis using accepted_signature accepted_not_register by blast
qed

theorem accepted_authentic_witness:
  "ValidateTransactions sample_ctx [sample_stake, sample_revoke] = Inr True \<and>
   VerifySignature (vCrypto sample_ctx) [1, 2, 3, 4] sample_revoke"
  using accepted_authentic [OF sample_accepted, of sample_revoke] sample_accepted by simp

text \<open>C1: in an accepted batch every keyed transaction meets a ledger, the one its predecessors leave,
  in which its nonce is exactly the account's next one and its fee, funding and stake are covered: no
  replay, no gap and no overdraft at any point of the batch, as long as all coins together fit into 64
  bits.\<close>

theorem accepted_nonces_and_funds:
  assumes "ValidateTransactions c (pre @ tx # post) = Inr True" "ledger_supply (vLedger c) < 2 ^ 64" "keyed tx"
  shows "\<exists>l. ApplyLedgerAll pre (vLedger c) = Inr l \<and> TxNonce tx = GetNonce l (pubHex tx) \<and>
    outlay tx \<le> unat (GetBalance l (pubHex tx))"
  using assms by (rule accepted_nonce)

lemma sample_supply: "ledger_supply (vLedger sample_ctx) < 2 ^ 64"
  by (simp add: ledger_supply_def Seed_def NewBalanceLedger_def fm_sum_def sorted_keys_def del: hex.simps)

theorem accepted_nonces_and_funds_witness:
  "\<exists>l. ApplyLedgerAll [sample_stake] (vLedger sample_ctx) = Inr l \<and> GetNonce l (pubHex sample_revoke) = 1"
proof -
  have "ValidateTransactions sample_ctx ([sample_stake] @ sample_revoke # []) = Inr True"
    using sample_accepted by simp
  from accepted_nonces_and_funds [OF this sample_supply] show ?thesis by auto
qed

text \<open>C2: applying an accepted batch to the ledger succeeds without a panic, and the coins that leave
  the accounts are exactly the fees and the new stakes of the batch, as long as all coins together fit
  into 64 bits.\<close>

theorem accepted_conserves:
  assumes "ValidateTransactions c txs = Inr True" "ledger_supply (vLedger c) < 2 ^ 64"
  shows "\<exists>l. ApplyLedgerAll txs (vLedger c) = Inr l \<and>
    ledger_supply l + sum_list (map fee_paid txs) + sum_list (map staked_by txs) = ledger_supply (vLedger c)"
  using accepted_ledger [OF assms] by blast

theorem accepted_conserves_witness:
  "\<exists>l. ApplyLedgerAll [sample_stake, sample_revoke] (vLedger sample_ctx) = Inr l \<and>
     ledger_supply l + 205 = ledger_supply (vLedger sample_ctx)"
  using accepted_conserves [OF sample_accepted sample_supply]
  by (auto simp: fee_paid_def staked_by_def)

text \<open>C5: no output is spent twice: the transactions that redeem an earlier one redeem pairwise
  different ones, and none that the index knows as spent.\<close>

theorem accepted_no_double_spend:
  assumes "ValidateTransactions c txs = Inr True"
  shows "distinct (map RedeemsTxID (filter redeeming txs)) \<and>
    list_all (\<lambda>tx. redeeming tx \<longrightarrow> \<not> diIsSpent (vIndexOps c) (vIm c) (RedeemsTxID tx)) txs"
  using assms spent_loop by (fastforce simp: accepted_loop list_all_iff)

theorem accepted_no_double_spend_witness:
  "distinct (map RedeemsTxID (filter redeeming [sample_stake, sample_revoke])) \<and> redeeming sample_revoke"
  using accepted_no_double_spend [OF sample_accepted] by (simp add: redeeming_def)

text \<open>C3: only the owner touches a domain, purges apart: when an accepted batch updates, revokes, lists, delists or
  transfers a domain, the sender is its owner after the transactions before it in the batch, starting from the
  owners in the index. The one exception is a revocation without a key: it is accepted only in a block, with the
  signature of the slot leader, for a name that no earlier transaction of the batch reveals, and without a check of
  the owner. A purchase has a key, and nobody buys what they own.\<close>

theorem accepted_by_owner:
  assumes "ValidateTransactions c (pre @ tx # post) = Inr True"
  shows "(TxType tx \<in> {UPDATE, REVOKE, LIST, DELIST, TRANSFER} \<longrightarrow>
      (if keyed tx then owners_after pre (current_owner c shadow0) (DomainName tx) = pubHex tx
       else TxType tx = REVOKE \<and> vIsBlock c \<and> VerifySignature (vCrypto c) (vSlotLeader c) tx \<and>
         list_all (\<lambda>t. keyed t \<and> TxType t = REVEAL \<longrightarrow> DomainName t \<noteq> DomainName tx) pre)) \<and>
    (TxType tx = BUY \<longrightarrow> keyed tx \<and> owners_after pre (current_owner c shadow0) (DomainName tx) \<noteq> pubHex tx)"
proof -
  obtain s s' where s: "validate_loop c pre shadow0 = Inr s" "validate_tx c tx s = Inr s'"
    using assms by (rule accepted_split)
  show ?thesis
  proof (cases "keyed tx")
    case True
    with owner_step_accepted(2,3) [OF s(2) True] owners_after_accepted [OF s(1)] show ?thesis by simp
  next
    case False
    with s(2) have "run_gates front_gates c tx s = Inr s'" "gate_auto_revoke c tx s' = Inr s'"
      by (auto elim: validate_tx_cases)
    then have "TxType tx = REVOKE" "vIsBlock c" "VerifySignature (vCrypto c) (vSlotLeader c) tx" "DomainName tx |\<notin>| shadowRegistered s"
      using front_frame(4) [of c tx s s'] by (auto simp: gate_auto_revoke_def split: if_split_asm)
    with False registered_loop(1) [OF s(1)] show ?thesis by (auto simp: list_all_iff)
  qed
qed

theorem accepted_by_owner_witness:
  "owners_after [sample_stake] (current_owner sample_ctx shadow0) ''a.com'' = hex [1, 2, 3, 4]"
proof -
  have "ValidateTransactions sample_ctx ([sample_stake] @ sample_revoke # []) = Inr True"
    using sample_accepted by simp
  from accepted_by_owner [OF this] show ?thesis by simp
qed

text \<open>C6: stakes stay within their limits: for a transaction of an accepted batch, the transactions before it,
  if none is an equivocation proof, apply to the stake map without a panic; a first stake is at least the minimum, nobody unstakes more than they
  have staked at that point of the batch, and what remains is nothing or at least the minimum.\<close>

theorem accepted_stakes:
  assumes "ValidateTransactions c (pre @ tx # post) = Inr True" "keyed tx"
    and "list_all (\<lambda>t. TxType t \<noteq> EQUIVOCATION_PROOF) (pre @ [tx])" and "ssMap st = vStakeMap c"
  shows "\<exists>st'. ApplyStakeAll cd pre slot st = Inr st' \<and> stake_allowed tx (ssMap st')"
proof -
  obtain s s' where s: "validate_loop c pre shadow0 = Inr s" "validate_tx c tx s = Inr s'"
    using assms(1) by (rule accepted_split)
  have "stake_rel c shadow0 (ssMap st)" using assms(4) by (simp add: stake_rel_start)
  moreover have "\<forall>t \<in> set pre. TxType t \<noteq> EQUIVOCATION_PROOF" using assms(3) by (simp add: list_all_iff)
  ultimately obtain st' where "ApplyStakeAll cd pre slot st = Inr st'" "stake_rel c s (ssMap st')"
    using stake_loop [OF s(1)] by blast
  moreover from stake_step [OF s(2) _ this(2)] assms(2,3) have "stake_allowed tx (ssMap st')"
    by (auto simp: list_all_iff)
  ultimately show ?thesis by blast
qed

theorem accepted_stakes_witness:
  "stake_allowed sample_stake NewStakeMap \<and> StakeAmount sample_stake = 200"
proof -
  have "ValidateTransactions sample_ctx ([] @ sample_stake # [sample_revoke]) = Inr True"
    using sample_accepted by simp
  from accepted_stakes [OF this, of "\<lparr>ssMap = NewStakeMap, ssQueue = NewUnstakeQueue, ssSlashed = {||}\<rparr>" sample_codec 10]
  show ?thesis by simp
qed

text \<open>C4: a name is registered only by opening a commitment: an accepted REVEAL comes from a registry,
  opens a stored commitment of the same key and identifier that is at least the minimum delay old, and
  its name is free, or purged since before the commitment; no name is revealed twice in a batch.\<close>

theorem accepted_reveal:
  assumes "ValidateTransactions c (pre @ tx # post) = Inr True" "keyed tx" "TxType tx = REVEAL"
  shows "(\<exists>cs rec. vCs c = Some cs \<and> csGetCommit (vCommitOps c) cs (reveal_key tx) = Some rec \<and> reveal_opens c tx rec) \<and>
    list_all (\<lambda>t. keyed t \<and> TxType t = REVEAL \<longrightarrow> DomainName t \<noteq> DomainName tx) pre"
proof -
  obtain s s' where s: "validate_loop c pre shadow0 = Inr s" "validate_tx c tx s = Inr s'"
    using assms(1) by (rule accepted_split)
  from s(2) obtain m where m: "run_gates front_gates c tx s = Inr m" "run_gates key_gates c tx m = Inr s'"
    using assms(2) by (auto elim: validate_tx_cases)
  note key = key_gates_reveal [OF m(2) assms(3)]
  have "DomainName tx |\<notin>| shadowRegistered s" using key(2) front_frame(4) [OF m(1)] by simp
  with registered_loop(1) [OF s(1)] key(1) show ?thesis by (auto simp: list_all_iff)
qed

theorem accepted_reveal_witness:
  "ValidateTransactions sample_reveal_ctx [sample_reveal] = Inr True \<and> reveal_opens sample_reveal_ctx sample_reveal sample_commit"
proof -
  have "ValidateTransactions sample_reveal_ctx ([] @ sample_reveal # []) = Inr True"
    using sample_reveal_accepted by simp
  from accepted_reveal [OF this] sample_reveal_accepted show ?thesis
    by (simp add: CommitOverlayOps_def sample_commit_found)
qed

end
