(* ===== verification/BlockValid.thy ===== *)
theory BlockValid
  imports Accept
begin

text \<open>
  \<^verbatim>\<open>ValidateBlock\<close> of \<^verbatim>\<open>internal/blockchain/block.go\<close>: the checks of a received block in the order
  of the code, on staging copies of the state. The result is \<open>None\<close> where the code returns false;
  otherwise it holds the staged state. The commit store is not nil: every caller passes the node's
  store. The index is an overlay of the caller that is dropped when the block is rejected, so that
  its changes are part of the result only when the block is accepted.
\<close>

record 's vb_result =
  vbLedger :: BalanceLedger
  vbStake :: StakeState
  vbCommits :: CommitOverlay
  vbIndex :: 's

definition renewedInBlock :: "Transaction list \<Rightarrow> string fset" where
  "renewedInBlock txs = foldl (\<lambda>m tx. if TxType tx = RENEW then finsert (DomainName tx) m else m) {||} txs"

fun purge_found :: "Transaction list \<Rightarrow> Transaction \<Rightarrow> bool" where
  "purge_found [] expected = False"
| "purge_found (tx # txs) expected =
     (if TxType tx = REVOKE \<and> DomainName tx = DomainName expected \<and> RedeemsTxID tx = TID expected then True
      else purge_found txs expected)"

fun purges_present :: "string fset \<Rightarrow> Transaction list \<Rightarrow> Transaction list \<Rightarrow> bool" where
  "purges_present renewed txs [] = True"
| "purges_present renewed txs (expected # rest) =
     (if DomainName expected |\<in>| renewed then purges_present renewed txs rest
      else if \<not> purge_found txs expected then False
      else purges_present renewed txs rest)"

definition purge_check :: "(int64 \<Rightarrow> Transaction list) option \<Rightarrow> Block \<Rightarrow> bool" where
  "purge_check expiryChecker b =
     (case expiryChecker of
        None \<Rightarrow> True
      | Some getPurgeable \<Rightarrow>
          purges_present (renewedInBlock (Transactions b)) (Transactions b) (getPurgeable (SlotNumber b)))"

definition totalFees :: "Transaction list \<Rightarrow> uint64" where
  "totalFees txs = foldl (\<lambda>s tx. s + Fee tx) 0 txs"

definition creditFees :: "Transaction list \<Rightarrow> bytes \<Rightarrow> BalanceLedger \<Rightarrow> BalanceLedger" where
  "creditFees txs leader staging =
     (if totalFees txs > 0 then Credit staging (hex leader) (totalFees txs) else staging)"

text \<open>The domain effects of the block's transactions; what fails is ignored.\<close>

fun ApplyDomainAll ::
    "'s DomainIndexer \<Rightarrow> 'c CommitStorer \<Rightarrow> Transaction list \<Rightarrow> int64 \<Rightarrow> int64 \<Rightarrow> int \<Rightarrow> int64
     \<Rightarrow> ('s, 'c) DomainState \<Rightarrow> panic + ('s, 'c) DomainState" where
  "ApplyDomainAll I C [] slot bi i spd ds = Inr ds"
| "ApplyDomainAll I C (tx # txs) slot bi i spd ds =
     bindR (ApplyDomainMutations I C tx ds slot bi i spd) (\<lambda>(ds, _).
       ApplyDomainAll I C txs slot bi (i + 1) spd ds)"

definition block_ctx ::
    "crypto \<Rightarrow> codec \<Rightarrow> bytes list \<Rightarrow> 's DomainIndexer \<Rightarrow> Block \<Rightarrow> BalanceLedger \<Rightarrow> 's \<Rightarrow> CommitOverlay
     \<Rightarrow> int64 \<Rightarrow> StakeState \<Rightarrow> ('s, CommitOverlay) vctx" where
  "block_ctx cr cd registries I b ledger im co slotsPerDay st =
     \<lparr>vCrypto = cr, vCodec = cd, vRegistries = registries, vIndexOps = I, vCommitOps = CommitOverlayOps,
      vLedger = ledger, vIm = im, vCs = Some co, vSlot = SlotNumber b, vSlotsPerDay = slotsPerDay,
      vIsBlock = True, vSlotLeader = SlotLeader b, vBlockIndex = BIndex b,
      vStakeMap = ssMap st, vQueue = ssQueue st, vSlashed = ssSlashed st\<rparr>"

definition header_check :: "crypto \<Rightarrow> codec \<Rightarrow> Block \<Rightarrow> Block \<Rightarrow> bytes \<Rightarrow> panic + bool" where
  "header_check cr cd newBlock oldBlock slotLeaderKey =
     (if i64 (BIndex oldBlock + 1) \<noteq> BIndex newBlock then Inr False
      else if SlotNumber newBlock \<le> SlotNumber oldBlock then Inr False
      else if BHash oldBlock \<noteq> PrevHash newBlock then Inr False
      else if SlotLeader newBlock \<noteq> slotLeaderKey then Inr False
      else if \<not> VerifyBlock cr slotLeaderKey newBlock then Inr False
      else
        bindR (SetupMerkleTree cd newBlock) (\<lambda>root.
          if MerkleRootHash newBlock \<noteq> root then Inr False
          else if BHash newBlock \<noteq> ComputeHash newBlock then Inr False
          else Inr True))"

text \<open>The staged commits and the staged stake state before the transactions.\<close>

definition stagedCommits :: "CommitStore \<Rightarrow> int64 \<Rightarrow> CommitOverlay" where
  "stagedCommits cs index = fst (PurgeExpiredO (NewCommitOverlay (ExportPending cs) index) index)"

definition stagedStake :: "StakeState \<Rightarrow> int64 \<Rightarrow> StakeState" where
  "stagedStake st slot =
     \<lparr>ssMap = CloneStake (ssMap st), ssQueue = fst (SweepMature (CloneQueue (ssQueue st)) (word_of_int slot)),
      ssSlashed = ssSlashed st\<rparr>"

definition ValidateBlock ::
    "crypto \<Rightarrow> codec \<Rightarrow> bytes list \<Rightarrow> 's DomainIndexer \<Rightarrow> Block \<Rightarrow> Block option \<Rightarrow> bytes \<Rightarrow> BalanceLedger
     \<Rightarrow> 's \<Rightarrow> (int64 \<Rightarrow> Transaction list) option \<Rightarrow> int64 \<Rightarrow> StakeState \<Rightarrow> CommitStore
     \<Rightarrow> panic + 's vb_result option" where
  "ValidateBlock cr cd registries I newBlock oldBlock slotLeaderKey ledger im expiryChecker slotsPerDay st cs =
     (case oldBlock of
        None \<Rightarrow> Inl NilDereference
      | Some oldBlock \<Rightarrow>
          bindR (header_check cr cd newBlock oldBlock slotLeaderKey) (\<lambda>ok.
          if \<not> ok then Inr None
          else
            (let staged = stagedStake st (SlotNumber newBlock);
                 commitOverlay = stagedCommits cs (BIndex newBlock);
                 txs = Transactions newBlock
             in
             if \<not> purge_check expiryChecker newBlock then Inr None
             else
               bindR (ValidateTransactions
                   (block_ctx cr cd registries I newBlock ledger im commitOverlay slotsPerDay st) txs) (\<lambda>ok.
               if \<not> ok then Inr None
               else
                 bindR (ApplyLedgerAll txs (CloneLedger ledger)) (\<lambda>staging.
                 let staging = creditFees txs (SlotLeader newBlock) staging in
                 if BalanceLedgerHash newBlock \<noteq> LedgerHash staging then Inr None
                 else
                   bindR (ApplyDomainAll I CommitOverlayOps txs (SlotNumber newBlock) (BIndex newBlock) 0 slotsPerDay
                       \<lparr>dsLedger = staging, dsIndex = im, dsCommits = Some commitOverlay\<rparr>) (\<lambda>ds.
                   let commitOverlay = the (dsCommits ds) in
                   if IndexHash newBlock \<noteq> sl (diGetIndexHash I (dsIndex ds)) then Inr None
                   else if CommitStoreHash newBlock \<noteq> CommitOverlayDigest commitOverlay then Inr None
                   else
                     bindR (ApplyStakeAll cd txs (SlotNumber newBlock) staged) (\<lambda>staged.
                     if StakeMapHash newBlock \<noteq> StakeMapDigest (ssMap staged) then Inr None
                     else if UnstakeQueueHash newBlock \<noteq> UnstakeQueueDigest (ssQueue staged) then Inr None
                     else
                       bindR (diCommit I (dsIndex ds)) (\<lambda>im.
                         Inr (Some \<lparr>vbLedger = dsLedger ds, vbStake = staged, vbCommits = commitOverlay,
                                    vbIndex = im\<rparr>)))))))))"

subsection \<open>What an accepted block satisfies\<close>

lemma header_check_True:
  "header_check cr cd newBlock oldBlock key = Inr True \<longleftrightarrow>
     i64 (BIndex oldBlock + 1) = BIndex newBlock \<and> SlotNumber oldBlock < SlotNumber newBlock \<and>
     BHash oldBlock = PrevHash newBlock \<and> SlotLeader newBlock = key \<and> VerifyBlock cr key newBlock \<and>
     SetupMerkleTree cd newBlock = Inr (MerkleRootHash newBlock) \<and> BHash newBlock = ComputeHash newBlock"
  by (auto simp: header_check_def bindR_eq_Inr split: if_split_asm)

lemma ValidateBlock_accepts:
  assumes "ValidateBlock cr cd regs I b old key ledger im ec spd st cs = Inr (Some r)"
  obtains prev staging ds staged where "old = Some prev" "header_check cr cd b prev key = Inr True" "purge_check ec b"
    "ValidateTransactions (block_ctx cr cd regs I b ledger im (stagedCommits cs (BIndex b)) spd st) (Transactions b) = Inr True"
    "ApplyLedgerAll (Transactions b) ledger = Inr staging"
    "BalanceLedgerHash b = LedgerHash (creditFees (Transactions b) (SlotLeader b) staging)"
    "ApplyDomainAll I CommitOverlayOps (Transactions b) (SlotNumber b) (BIndex b) 0 spd
       \<lparr>dsLedger = creditFees (Transactions b) (SlotLeader b) staging, dsIndex = im,
        dsCommits = Some (stagedCommits cs (BIndex b))\<rparr> = Inr ds"
    "IndexHash b = sl (diGetIndexHash I (dsIndex ds))" "CommitStoreHash b = CommitOverlayDigest (the (dsCommits ds))"
    "ApplyStakeAll cd (Transactions b) (SlotNumber b) (stagedStake st (SlotNumber b)) = Inr staged"
    "StakeMapHash b = StakeMapDigest (ssMap staged)" "UnstakeQueueHash b = UnstakeQueueDigest (ssQueue staged)"
    "vbLedger r = dsLedger ds" "vbStake r = staged" "vbCommits r = the (dsCommits ds)"
    "diCommit I (dsIndex ds) = Inr (vbIndex r)"
  using assms unfolding ValidateBlock_def
  by (auto simp: bindR_eq_Inr Let_def split: option.split_asm if_split_asm)

lemma renewedInBlock_iff: "d |\<in>| renewedInBlock txs \<longleftrightarrow> (\<exists>tx \<in> set txs. TxType tx = RENEW \<and> DomainName tx = d)"
proof -
  have "d |\<in>| foldl (\<lambda>m tx. if TxType tx = RENEW then finsert (DomainName tx) m else m) m txs \<longleftrightarrow>
      d |\<in>| m \<or> (\<exists>tx \<in> set txs. TxType tx = RENEW \<and> DomainName tx = d)" for m
    by (induction txs arbitrary: m) auto
  then show ?thesis by (simp add: renewedInBlock_def)
qed

lemma purge_found_iff:
  "purge_found txs e \<longleftrightarrow> (\<exists>tx \<in> set txs. TxType tx = REVOKE \<and> DomainName tx = DomainName e \<and> RedeemsTxID tx = TID e)"
  by (induction txs) auto

lemma purges_present_iff:
  "purges_present renewed txs es \<longleftrightarrow> (\<forall>e \<in> set es. DomainName e |\<in>| renewed \<or> purge_found txs e)"
  by (induction es) auto

subsection \<open>Coins\<close>

lemma unat_totalFees:
  "unat s + sum_list (map (\<lambda>tx. unat (Fee tx)) txs) < 2 ^ 64 \<Longrightarrow>
   unat (foldl (\<lambda>s tx. s + Fee tx) s txs) = unat s + sum_list (map (\<lambda>tx. unat (Fee tx)) txs)"
proof (induction txs arbitrary: s)
  case (Cons tx txs)
  then have "unat s + unat (Fee tx) < 2 ^ 64" by simp
  then have "unat (s + Fee tx) = unat s + unat (Fee tx)" by (rule unat_add_small)
  with Cons show ?case by simp
qed simp

lemma creditFees_supply:
  assumes "ledger_supply l + sum_list (map (\<lambda>tx. unat (Fee tx)) txs) < 2 ^ 64"
  shows "ledger_supply (creditFees txs leader l) = ledger_supply l + sum_list (map (\<lambda>tx. unat (Fee tx)) txs)"
proof -
  have tot: "unat (totalFees txs) = sum_list (map (\<lambda>tx. unat (Fee tx)) txs)"
    using unat_totalFees [of 0 txs] assms by (simp add: totalFees_def)
  show ?thesis
  proof (cases "totalFees txs > 0")
    case True
    with supply_Credit [of l "totalFees txs" "hex leader"] assms tot show ?thesis by (simp add: creditFees_def)
  next
    case False
    then have "totalFees txs = 0" by (simp add: word_gt_0)
    with tot show ?thesis by (metis add_0_right creditFees_def less_irrefl unat_0)
  qed
qed

text \<open>Fees of keyless transactions, which nobody pays.\<close>

definition unpaid_fees :: "Transaction list \<Rightarrow> nat" where
  "unpaid_fees txs = sum_list (map (\<lambda>tx. if keyed tx then 0 else unat (Fee tx)) txs)"

lemma fees_split: "sum_list (map (\<lambda>tx. unat (Fee tx)) txs) = sum_list (map fee_paid txs) + unpaid_fees txs"
  by (induction txs) (auto simp: fee_paid_def unpaid_fees_def)

lemma ApplyDomainAll_supply:
  assumes "ApplyDomainAll I C txs slot bi i spd ds = Inr ds'" "ledger_supply (dsLedger ds) < 2 ^ 64"
  shows "ledger_supply (dsLedger ds') = ledger_supply (dsLedger ds)"
  using assms
proof (induction txs arbitrary: ds i)
  case (Cons tx txs)
  then obtain m r where m: "ApplyDomainMutations I C tx ds slot bi i spd = Inr (m, r)"
    "ApplyDomainAll I C txs slot bi (i + 1) spd m = Inr ds'"
    by (auto simp: bindR_eq_Inr)
  from apply_supply [OF m(1) Cons.prems(2)] Cons.IH [OF m(2)] Cons.prems(2) show ?case by simp
qed simp

lemma stake_coins_loop:
  assumes "validate_loop c txs sh = Inr sh'" "\<forall>tx \<in> set txs. TxType tx \<noteq> EQUIVOCATION_PROOF"
    "stake_rel c sh (ssMap st)" "stake_coins st + sum_list (map staked_by txs) < 2 ^ 64"
    "ApplyStakeAll cd txs slot st = Inr st'"
  shows "stake_coins st' = stake_coins st + sum_list (map staked_by txs)"
  using assms
proof (induction txs arbitrary: sh st)
  case (Cons tx txs)
  obtain m where m: "validate_tx c tx sh = Inr m" "validate_loop c txs m = Inr sh'"
    using Cons.prems(1) by (auto simp: bindR_eq_Inr)
  have ne: "TxType tx \<noteq> EQUIVOCATION_PROOF" using Cons.prems(2) by simp
  obtain st1 where st1: "ApplyStakeMutations cd tx st slot = Inr st1" "stake_rel c m (ssMap st1)"
    "keyed tx \<longrightarrow> stake_allowed tx (ssMap st)"
    using stake_step [OF m(1) ne Cons.prems(3)] by blast
  have rest: "ApplyStakeAll cd txs slot st1 = Inr st'" using Cons.prems(5) st1(1) by simp
  have "stake_coins st1 + slashed_by cd tx st = stake_coins st + staked_by tx"
  proof (cases "keyed tx")
    case True
    then have "TxType tx = UNSTAKE \<Longrightarrow> StakeAmount tx \<le> GetStake (ssMap st) (pubHex tx)"
      using st1(3) by (simp add: stake_allowed_def)
    then show ?thesis using ApplyStakeMutations_coins [OF st1(1)] Cons.prems(4) by simp
  next
    case False
    with st1(1) show ?thesis by (simp add: ApplyStakeMutations_def slashed_by_def staked_by_def)
  qed
  moreover have "slashed_by cd tx st = 0" using ne by (simp add: slashed_by_def)
  ultimately have coins: "stake_coins st1 = stake_coins st + staked_by tx" by simp
  with Cons.IH [OF m(2) _ st1(2) _ rest] Cons.prems(2,4) show ?case by simp
qed simp

lemma stagedStake_coins:
  "stake_coins (stagedStake st slot) +
     sum_list (map (\<lambda>e. unat (Amount e)) (snd (SweepMature (ssQueue st) (word_of_int slot)))) = stake_coins st"
  using queue_supply_SweepMature [of "ssQueue st" "word_of_int slot"]
  by (cases "SweepMature (ssQueue st) (word_of_int slot)") (simp add: stake_coins_def stagedStake_def)

lemma fold_ctx: "vLedger (block_ctx cr cd regs I b l im co spd st) = l" "vStakeMap (block_ctx cr cd regs I b l im co spd st) = ssMap st"
  "vIm (block_ctx cr cd regs I b l im co spd st) = im" "vIndexOps (block_ctx cr cd regs I b l im co spd st) = I"
  "vCrypto (block_ctx cr cd regs I b l im co spd st) = cr" "vSlotLeader (block_ctx cr cd regs I b l im co spd st) = SlotLeader b"
  by (simp_all add: block_ctx_def)

text \<open>All coins of a node: accounts, stakes and pending unstakes.\<close>

definition all_coins :: "BalanceLedger \<Rightarrow> StakeState \<Rightarrow> nat" where
  "all_coins l st = ledger_supply l + stake_coins st"

definition matured_coins :: "StakeState \<Rightarrow> int64 \<Rightarrow> nat" where
  "matured_coins st slot = sum_list (map (\<lambda>e. unat (Amount e)) (snd (SweepMature (ssQueue st) (word_of_int slot))))"

lemma block_coins:
  assumes acc: "ValidateBlock cr cd regs I b old key ledger im ec spd st cs = Inr (Some r)"
    and ne: "\<forall>tx \<in> set (Transactions b). TxType tx \<noteq> EQUIVOCATION_PROOF"
    and cap: "all_coins ledger st + unpaid_fees (Transactions b) < 2 ^ 64"
  shows "all_coins (vbLedger r) (vbStake r) + matured_coins st (SlotNumber b) =
    all_coins ledger st + unpaid_fees (Transactions b)"
proof -
  let ?txs = "Transactions b" and ?c = "block_ctx cr cd regs I b ledger im (stagedCommits cs (BIndex b)) spd st"
  obtain staging ds staged where val: "ValidateTransactions ?c ?txs = Inr True"
    and led: "ApplyLedgerAll ?txs ledger = Inr staging"
    and dom: "ApplyDomainAll I CommitOverlayOps ?txs (SlotNumber b) (BIndex b) 0 spd
       \<lparr>dsLedger = creditFees ?txs (SlotLeader b) staging, dsIndex = im, dsCommits = Some (stagedCommits cs (BIndex b))\<rparr> = Inr ds"
    and stk: "ApplyStakeAll cd ?txs (SlotNumber b) (stagedStake st (SlotNumber b)) = Inr staged"
    and r: "vbLedger r = dsLedger ds" "vbStake r = staged"
    using acc by (rule ValidateBlock_accepts)
  have sup: "ledger_supply (vLedger ?c) < 2 ^ 64" using cap by (simp add: fold_ctx all_coins_def)
  obtain l where l: "ApplyLedgerAll ?txs ledger = Inr l"
    "ledger_supply l + sum_list (map fee_paid ?txs) + sum_list (map staked_by ?txs) = ledger_supply ledger"
    using accepted_ledger [OF val sup] unfolding fold_ctx by blast
  with led have eq: "ledger_supply staging + sum_list (map fee_paid ?txs) + sum_list (map staked_by ?txs) = ledger_supply ledger"
    by simp
  then have credit: "ledger_supply (creditFees ?txs (SlotLeader b) staging) + sum_list (map staked_by ?txs) =
      ledger_supply ledger + unpaid_fees ?txs"
    using creditFees_supply [of staging ?txs "SlotLeader b"] cap by (simp add: fees_split all_coins_def)
  then have "ledger_supply (creditFees ?txs (SlotLeader b) staging) < 2 ^ 64" using cap by (simp add: all_coins_def)
  with ApplyDomainAll_supply [OF dom] credit
  have fin: "ledger_supply (dsLedger ds) + sum_list (map staked_by ?txs) = ledger_supply ledger + unpaid_fees ?txs" by simp
  obtain sh where sh: "validate_loop ?c ?txs shadow0 = Inr sh" using val by (auto simp: accepted_loop)
  have "stake_rel ?c shadow0 (ssMap (stagedStake st (SlotNumber b)))"
    using stake_rel_start [of ?c] by (simp add: fold_ctx stagedStake_def)
  moreover have "stake_coins (stagedStake st (SlotNumber b)) + sum_list (map staked_by ?txs) < 2 ^ 64"
    using stagedStake_coins [of st "SlotNumber b"] eq cap by (simp add: all_coins_def)
  ultimately have "stake_coins staged = stake_coins (stagedStake st (SlotNumber b)) + sum_list (map staked_by ?txs)"
    using stake_coins_loop [OF sh ne _ _ stk] by blast
  with fin stagedStake_coins [of st "SlotNumber b"] show ?thesis
    by (simp add: all_coins_def matured_coins_def r)
qed

end
