(* ===== verification/Progress.thy ===== *)
theory Progress
  imports BlockValid
begin

text \<open>
  Applying an accepted block does not panic: the dereferences of \<^verbatim>\<open>apply.go\<close> that have no nil check
  are protected by what \<^verbatim>\<open>ValidateTransactions\<close> has accepted before. The domain index is used through
  its contract, with one more law: no operation of a block makes a domain disappear from the overlay.
\<close>

text \<open>What the apply step relies on: a market transaction names a stored domain, and the keys and
  hashes are long enough for the log messages that show their first digits.\<close>

definition applicable :: "'s DomainIndexer \<Rightarrow> Transaction \<Rightarrow> 's \<Rightarrow> bool" where
  "applicable ops tx s \<longleftrightarrow> TxType tx \<noteq> REGISTER \<and>
     (TxType tx \<in> {LIST, DELIST, BUY, TRANSFER} \<longrightarrow> diGetDomain ops s (DomainName tx) \<noteq> None) \<and>
     (keyed tx \<longrightarrow> 4 \<le> length (sl (OwnerKey tx))) \<and> (\<not> keyed tx \<longrightarrow> TxType tx = REVOKE) \<and>
     (TxType tx = COMMIT \<longrightarrow> length (CommitHash tx) = 32)"

locale growing_indexer = domain_indexer +
  assumes add_grows: "inv s \<Longrightarrow> diAdd ops s d tx b i spd = Inr s' \<Longrightarrow> diGetDomain ops s e \<noteq> None \<Longrightarrow>
    diGetDomain ops s' e \<noteq> None"
begin

lemma mark_add:
  assumes "inv s" "diAdd ops (diMarkAsSpent ops s j) d tx b i spd = Inr s'"
  shows "inv s'" "diGetDomain ops s e \<noteq> None \<Longrightarrow> diGetDomain ops s' e \<noteq> None"
  using add_inv [OF spent_inv [OF assms(1)] assms(2)] add_grows [OF spent_inv [OF assms(1)] assms(2)]
  by (simp_all add: domain_mark)

lemma update_or_renew_grows:
  assumes "inv (dsIndex ds)" "applyUpdateOrRenew ops tx ds slot i spd b = Inr (ds', r)"
    "diGetDomain ops (dsIndex ds) e \<noteq> None"
  shows "diGetDomain ops (dsIndex ds') e \<noteq> None"
  using assms mark_add [OF assms(1)]
  by (auto simp: applyUpdateOrRenew_def result_defs Let_def bindR_eq_Inr index_laws split: if_split_asm option.split_asm)

lemma reveal_grows:
  assumes "inv (dsIndex ds)" "applyReveal ops C tx ds slot i spd = Inr (ds', r)"
    "diGetDomain ops (dsIndex ds) e \<noteq> None"
  shows "diGetDomain ops (dsIndex ds') e \<noteq> None"
  using assms add_inv [OF assms(1)] add_grows [OF assms(1)]
  by (auto simp: applyReveal_def result_defs Let_def bindR_eq_Inr index_laws split: if_split_asm option.split_asm)

lemma reveal_adds:
  assumes "inv (dsIndex ds)" "applyReveal ops C tx ds slot i spd = Inr (ds', r)"
    "dsCommits ds = Some cs" "csGetCommit C cs (reveal_key tx) \<noteq> None"
  shows "diGetDomain ops (dsIndex ds') (DomainName tx) \<noteq> None"
  using assms domain_add [OF assms(1)] add_inv [OF assms(1)]
  by (auto simp: applyReveal_def result_defs Let_def bindR_eq_Inr index_laws split: if_split_asm option.split_asm)

lemma revoke_grows:
  assumes "inv (dsIndex ds)" "applyRevoke ops tx ds slot i spd = Inr (ds', r)"
    "diGetDomain ops (dsIndex ds) e \<noteq> None"
  shows "diGetDomain ops (dsIndex ds') e \<noteq> None"
proof -
  define s where "s = (if RedeemsTxID tx \<noteq> 0 then diMarkAsSpent ops (dsIndex ds) (RedeemsTxID tx) else dsIndex ds)"
  have inv: "inv s" and dom: "diGetDomain ops s e \<noteq> None" using assms(1,3) by (simp_all add: s_def index_laws)
  have "ds' = ds \<or> (\<exists>s1. diAdd ops s (DomainName tx) tx slot i spd = Inr s1 \<and>
      dsIndex ds' = (case diGetOwner ops (dsIndex ds) (DomainName tx) of None \<Rightarrow> s1 | Some k \<Rightarrow> diSetOwner ops s1 (DomainName tx) (Some k)))"
    using assms(2) unfolding applyRevoke_def Let_def s_def [symmetric]
    by (simp only: result_defs bindR_eq_Inr sum.inject prod.inject split: if_split_asm) auto
  then show ?thesis
    using assms(3) add_inv [OF inv] add_grows [OF inv _ dom] by (auto simp: index_laws split: option.splits)
qed

lemma market_grows:
  assumes "inv (dsIndex ds)" "diGetDomain ops (dsIndex ds) e \<noteq> None"
  shows "applyList ops tx ds slot spd = Inr (ds', r) \<Longrightarrow> diGetDomain ops (dsIndex ds') e \<noteq> None"
    "applyDelist ops tx ds slot spd = Inr (ds', r) \<Longrightarrow> diGetDomain ops (dsIndex ds') e \<noteq> None"
    "applyBuyDomain ops tx ds k slot spd = Inr (ds', r) \<Longrightarrow> diGetDomain ops (dsIndex ds') e \<noteq> None"
    "applyTransferDomain ops tx ds k slot spd = Inr (ds', r) \<Longrightarrow> diGetDomain ops (dsIndex ds') e \<noteq> None"
  using assms
  by (auto simp: applyList_def applyDelist_def applyBuyDomain_def applyTransferDomain_def result_defs Let_def index_laws
      split: if_split_asm option.split_asm)

lemma apply_grows:
  assumes "inv (dsIndex ds)" "ApplyDomainMutations ops C tx ds slot bi i spd = Inr (ds', r)"
    "diGetDomain ops (dsIndex ds) e \<noteq> None" "TxType tx \<noteq> REGISTER"
  shows "diGetDomain ops (dsIndex ds') e \<noteq> None"
  using assms
  by (cases "TxType tx")
    (auto simp: ApplyDomainMutations_def applyCommit_def applyUpdate_def applyRenew_def result_defs Let_def
      split: if_split_asm option.split_asm
      dest: update_or_renew_grows reveal_grows revoke_grows market_grows)

lemma update_or_renew_runs:
  assumes "inv (dsIndex ds)"
  shows "\<exists>ds' r. applyUpdateOrRenew ops tx ds slot i spd b = Inr (ds', r)"
  using add_ok [OF spent_inv [OF assms]]
  unfolding applyUpdateOrRenew_def result_defs Let_def
  by (auto split: option.split) (metis bindR_simps(2))+

lemma reveal_runs:
  assumes "inv (dsIndex ds)"
  shows "\<exists>ds' r. applyReveal ops C tx ds slot i spd = Inr (ds', r)"
proof -
  have "length (reveal_key tx) = 64" by (simp add: reveal_key_def)
  moreover obtain s' where "diAdd ops (dsIndex ds) (DomainName tx) tx slot i spd = Inr s'" using add_ok [OF assms] by blast
  ultimately show ?thesis by (simp add: applyReveal_def result_defs Let_def split: option.split)
qed

lemma revoke_runs:
  assumes "inv (dsIndex ds)" "keyed tx \<Longrightarrow> 4 \<le> length (sl (OwnerKey tx))"
  shows "\<exists>ds' r. applyRevoke ops tx ds slot i spd = Inr (ds', r)"
proof -
  obtain s1 s2 where "diAdd ops (dsIndex ds) (DomainName tx) tx slot i spd = Inr s1"
    "diAdd ops (diMarkAsSpent ops (dsIndex ds) (RedeemsTxID tx)) (DomainName tx) tx slot i spd = Inr s2"
    using add_ok [OF assms(1)] add_ok [OF spent_inv [OF assms(1)]] by metis
  moreover have "length (sl (OwnerKey tx)) < 4 \<longleftrightarrow> sl (OwnerKey tx) = []" using assms(2) by fastforce
  ultimately show ?thesis by (simp add: applyRevoke_def result_defs Let_def split: option.split)
qed

lemma market_runs:
  assumes "diGetDomain ops (dsIndex ds) (DomainName tx) \<noteq> None" "4 \<le> length (sl (OwnerKey tx))"
  shows "\<exists>ds' r. applyList ops tx ds slot spd = Inr (ds', r)" "\<exists>ds' r. applyDelist ops tx ds slot spd = Inr (ds', r)"
    "\<exists>ds' r. applyBuyDomain ops tx ds (pubHex tx) slot spd = Inr (ds', r)"
    "\<exists>ds' r. applyTransferDomain ops tx ds (pubHex tx) slot spd = Inr (ds', r)"
  using assms
  by (auto simp: applyList_def applyDelist_def applyBuyDomain_def applyTransferDomain_def result_defs Let_def
      split: option.split)

lemma apply_runs:
  assumes "inv (dsIndex ds)" "applicable ops tx (dsIndex ds)"
  shows "\<exists>ds' r. ApplyDomainMutations ops C tx ds slot bi i spd = Inr (ds', r)"
proof -
  have key: "keyed tx \<or> TxType tx = REVOKE" "keyed tx \<Longrightarrow> 4 \<le> length (sl (OwnerKey tx))"
    using assms(2) by (auto simp: applicable_def)
  have market: "TxType tx \<in> {LIST, DELIST, BUY, TRANSFER} \<Longrightarrow> diGetDomain ops (dsIndex ds) (DomainName tx) \<noteq> None"
    using assms(2) by (simp add: applicable_def)
  show ?thesis
  proof (cases "TxType tx")
    case COMMIT
    with assms(2) show ?thesis
      by (simp add: ApplyDomainMutations_def applyCommit_def applicable_def result_defs Let_def split: option.split)
  next
    case UPDATE
    with key update_or_renew_runs [OF assms(1)] show ?thesis
      by (simp add: ApplyDomainMutations_def applyUpdate_def result_defs Let_def split: option.split)
  next
    case RENEW
    with update_or_renew_runs [OF assms(1)] show ?thesis
      by (simp add: ApplyDomainMutations_def applyRenew_def result_defs Let_def split: option.split)
  next
    case REGISTER
    with assms(2) show ?thesis by (simp add: applicable_def)
  qed (use key market market_runs reveal_runs [OF assms(1)] revoke_runs [OF assms(1)]
    in \<open>simp_all add: ApplyDomainMutations_def done_with_def\<close>)
qed

end

interpretation ovg: growing_indexer "ov_inv B" "IndexOverlayOps B ord" for B ord
proof unfold_locales
  fix s d tx b i spd s' e
  assume "diAdd (IndexOverlayOps B ord) s d tx b i spd = Inr s'" "diGetDomain (IndexOverlayOps B ord) s e \<noteq> None"
  then show "diGetDomain (IndexOverlayOps B ord) s' e \<noteq> None"
    by (cases "d = e") (auto simp: IndexOverlayOps_def AddO_def GetDomainO_def Let_def split: option.split_asm)
qed

subsection \<open>Following the validation\<close>

text \<open>What an accepted transaction does to the set of commits added or opened in this block.\<close>

lemma gate_commit_adds:
  assumes "gate_commit c tx sh = Inr sh'"
  shows "shadowCommit sh' = (if TxType tx = COMMIT then finsert (hex (CommitHash tx)) (shadowCommit sh) else shadowCommit sh)"
    and "TxType tx = COMMIT \<Longrightarrow> length (CommitHash tx) = 32"
  using assms by (simp_all add: gate_commit_def Let_def split: if_split_asm)
    (auto split: if_split_asm)

lemma gate_market_known:
  assumes "gate_market_phase c tx sh = Inr sh'" "TxType tx \<in> {LIST, DELIST, BUY, TRANSFER}"
  shows "diGetDomain (vIndexOps c) (vIm c) (DomainName tx) \<noteq> None \<or> DomainName tx |\<in>| shadowRegistered sh"
  using assms by (auto simp: gate_market_phase_def gate_known_domain_def split: option.split_asm if_split_asm)

lemma front_commit:
  assumes "run_gates front_gates c tx sh = Inr m"
  shows "shadowCommit m = (if TxType tx = COMMIT then finsert (hex (CommitHash tx)) (shadowCommit sh) else shadowCommit sh)"
    and "TxType tx = COMMIT \<Longrightarrow> length (CommitHash tx) = 32"
    and "TxType tx \<in> {LIST, DELIST, BUY, TRANSFER} \<Longrightarrow>
      diGetDomain (vIndexOps c) (vIm c) (DomainName tx) \<noteq> None \<or> DomainName tx |\<in>| shadowRegistered sh"
proof -
  obtain a where a: "gate_redeems c tx sh = Inr a" "gate_commit c tx a = Inr m" "gate_market_phase c tx m = Inr m"
    using assms by (rule front_gates_run) blast
  have "shadowCommit a = shadowCommit sh" "shadowRegistered m = shadowRegistered sh"
    by (simp_all add: redeems_frame [OF a(1)] commit_frame [OF a(2)])
  then show "shadowCommit m = (if TxType tx = COMMIT then finsert (hex (CommitHash tx)) (shadowCommit sh) else shadowCommit sh)"
    "TxType tx = COMMIT \<Longrightarrow> length (CommitHash tx) = 32"
    "TxType tx \<in> {LIST, DELIST, BUY, TRANSFER} \<Longrightarrow>
      diGetDomain (vIndexOps c) (vIm c) (DomainName tx) \<noteq> None \<or> DomainName tx |\<in>| shadowRegistered sh"
    using gate_commit_adds [OF a(2)] gate_market_known [OF a(3)] by simp_all
qed

lemma key_gates_commit:
  assumes "run_gates key_gates c tx sh = Inr sh'"
  shows "shadowCommit sh' = (if TxType tx = REVEAL then finsert (reveal_key tx) (shadowCommit sh) else shadowCommit sh)"
    and "TxType tx = REVEAL \<Longrightarrow> reveal_key tx |\<notin>| shadowCommit sh"
proof -
  obtain f n r u l g v t s q e where run: "gate_fee c tx sh = Inr f" "gate_nonce c tx f = Inr n"
    "gate_running c tx n = Inr r" "gate_buy c tx r = Inr u" "gate_list_delist c tx u = Inr l"
    "gate_register c tx l = Inr g" "gate_reveal c tx g = Inr v" "gate_transfer c tx v = Inr t"
    "gate_stake c tx t = Inr s" "gate_unstake c tx s = Inr q" "gate_equivocation c tx q = Inr e"
    "gate_finish c tx e = Inr sh'"
    using assms(1) by (rule key_gates_run)
  have g: "shadowCommit g = shadowCommit sh"
    by (simp add: fee_frame [OF run(1)] nonce_frame [OF run(2)] running_frame [OF run(3)] buy_frame [OF run(4)]
        list_delist_frame [OF run(5)] register_frame [OF run(6)])
  have sh': "shadowCommit sh' = shadowCommit v"
    by (simp add: transfer_frame [OF run(8)] stake_frame [OF run(9)] unstake_frame [OF run(10)]
        equivocation_frame [OF run(11)] finish_frame [OF run(12)])
  show "TxType tx = REVEAL \<Longrightarrow> reveal_key tx |\<notin>| shadowCommit sh"
    using gate_reveal_opens(3) [OF run(7)] g by simp
  show "shadowCommit sh' = (if TxType tx = REVEAL then finsert (reveal_key tx) (shadowCommit sh) else shadowCommit sh)"
    using run(7) unfolding sh' g [symmetric]
    by (auto simp: gate_reveal_def Let_def split: if_split_asm option.split_asm)
qed

lemma commit_step:
  assumes "validate_tx c tx sh = Inr sh'"
  shows "shadowCommit sh' = (if TxType tx = COMMIT then finsert (hex (CommitHash tx)) (shadowCommit sh)
      else if TxType tx = REVEAL then finsert (reveal_key tx) (shadowCommit sh) else shadowCommit sh) \<and>
    (TxType tx = REVEAL \<longrightarrow> keyed tx \<and> reveal_key tx |\<notin>| shadowCommit sh \<and>
      (\<exists>cs rec. vCs c = Some cs \<and> csGetCommit (vCommitOps c) cs (reveal_key tx) = Some rec))"
  using assms
proof (cases rule: validate_tx_cases)
  case auto
  have "TxType tx = REVOKE" using accepted_signature [OF assms] auto(1) by simp
  then show ?thesis using front_commit(1) [OF auto(2)] by simp
next
  case (key m)
  have "TxType tx = REVEAL \<Longrightarrow>
      \<exists>cs rec. vCs c = Some cs \<and> csGetCommit (vCommitOps c) cs (reveal_key tx) = Some rec"
    using key_gates_reveal(1) [OF key(3)] by blast
  then show ?thesis
    using key(1) front_commit(1) [OF key(2)] key_gates_commit [OF key(3)] by simp
qed

text \<open>The applied state keeps up with the validation: every domain the validation knows is there, and
  every commit of the block's start that no transaction has touched is still found.\<close>

definition keeps_up :: "('s, CommitOverlay) vctx \<Rightarrow> shadow \<Rightarrow> ('s, CommitOverlay) DomainState \<Rightarrow> bool" where
  "keeps_up c sh ds \<longleftrightarrow>
     (\<forall>d. diGetDomain (vIndexOps c) (vIm c) d \<noteq> None \<or> d |\<in>| shadowRegistered sh \<longrightarrow>
        diGetDomain (vIndexOps c) (dsIndex ds) d \<noteq> None) \<and>
     (\<exists>co0 co. vCs c = Some co0 \<and> dsCommits ds = Some co \<and>
        (\<forall>k. k |\<notin>| shadowCommit sh \<longrightarrow> GetCommitO co k = GetCommitO co0 k))"

lemma GetCommitO_AddCommitO_other: "k \<noteq> hex (cmHash r) \<Longrightarrow> GetCommitO (AddCommitO co r) k = GetCommitO co k"
  by (simp add: GetCommitO_def AddCommitO_def Let_def split: option.split)

text \<open>The commits after a transaction: only its own entry may differ.\<close>

lemma apply_commits:
  assumes "ApplyDomainMutations I CommitOverlayOps tx ds slot bi i spd = Inr (ds', r)" "dsCommits ds = Some co"
  obtains co' where "dsCommits ds' = Some co'"
    "\<And>k. (TxType tx = COMMIT \<longrightarrow> k \<noteq> hex (CommitHash tx)) \<Longrightarrow> (TxType tx = REVEAL \<longrightarrow> k \<noteq> reveal_key tx) \<Longrightarrow>
       GetCommitO co' k = GetCommitO co k"
proof (cases "TxType tx = COMMIT \<or> TxType tx = REVEAL")
  case True
  with assms that show ?thesis
    by (auto simp: ApplyDomainMutations_def applyCommit_def applyReveal_def result_defs Let_def bindR_eq_Inr
        GetCommitO_AddCommitO_other commit_simps split: if_split_asm option.split_asm)
next
  case False
  then have "dsCommits ds' = dsCommits ds"
    using assms(1) by (cases "TxType tx") (auto simp: apply_defs result_defs Let_def bindR_eq_Inr
        split: if_split_asm option.split_asm)
  with assms(2) that show ?thesis by simp
qed

lemma accepted_step_applies:
  assumes acc: "validate_tx c tx sh = Inr sh'" and up: "keeps_up c sh ds" and inv: "ov_inv B (dsIndex ds)"
    and ctx: "vIndexOps c = IndexOverlayOps B ord" "vCommitOps c = CommitOverlayOps"
    and key: "keyed tx \<longrightarrow> 4 \<le> length (sl (OwnerKey tx))"
  obtains ds' r where "ApplyDomainMutations (IndexOverlayOps B ord) CommitOverlayOps tx ds slot bi i spd = Inr (ds', r)"
    "keeps_up c sh' ds'" "ov_inv B (dsIndex ds')"
proof -
  let ?I = "IndexOverlayOps B ord"
  obtain m where m: "run_gates front_gates c tx sh = Inr m" using acc by (rule validate_tx_front)
  have known: "diGetDomain ?I (vIm c) d \<noteq> None \<or> d |\<in>| shadowRegistered sh \<Longrightarrow> diGetDomain ?I (dsIndex ds) d \<noteq> None" for d
    using up unfolding keeps_up_def ctx by blast
  obtain co0 co where co: "vCs c = Some co0" "dsCommits ds = Some co"
    "\<And>k. k |\<notin>| shadowCommit sh \<Longrightarrow> GetCommitO co k = GetCommitO co0 k"
    using up by (auto simp: keeps_up_def)
  have ty: "TxType tx \<noteq> REGISTER" "\<not> keyed tx \<Longrightarrow> TxType tx = REVOKE"
    using accepted_not_register [OF acc] accepted_signature [OF acc] by auto
  have "TxType tx \<in> {LIST, DELIST, BUY, TRANSFER} \<Longrightarrow> diGetDomain ?I (dsIndex ds) (DomainName tx) \<noteq> None"
    using front_commit(3) [OF m] known unfolding ctx by blast
  then have "applicable ?I tx (dsIndex ds)"
    unfolding applicable_def using ty key front_commit(2) [OF m] by blast
  then obtain ds' r where run: "ApplyDomainMutations ?I CommitOverlayOps tx ds slot bi i spd = Inr (ds', r)"
    using ovg.apply_runs [OF inv] by blast
  have "diGetDomain ?I (dsIndex ds') d \<noteq> None" if "diGetDomain ?I (vIm c) d \<noteq> None \<or> d |\<in>| shadowRegistered sh'" for d
  proof (cases "TxType tx = REVEAL \<and> d = DomainName tx")
    case True
    then have "GetCommitO co (reveal_key tx) \<noteq> None" using commit_step [OF acc] co ctx by auto
    moreover from True run have "applyReveal ?I CommitOverlayOps tx ds slot i spd = Inr (ds', r)"
      by (simp add: ApplyDomainMutations_def)
    ultimately show ?thesis using True ovg.reveal_adds [OF inv _ co(2)] by simp
  next
    case False
    with that registered_step [OF acc] have "diGetDomain ?I (vIm c) d \<noteq> None \<or> d |\<in>| shadowRegistered sh"
      by (auto split: if_split_asm)
    then show ?thesis using known ovg.apply_grows [OF inv run _ ty(1)] by blast
  qed
  moreover obtain co' where co': "dsCommits ds' = Some co'"
    "\<And>k. (TxType tx = COMMIT \<longrightarrow> k \<noteq> hex (CommitHash tx)) \<Longrightarrow> (TxType tx = REVEAL \<longrightarrow> k \<noteq> reveal_key tx) \<Longrightarrow>
       GetCommitO co' k = GetCommitO co k"
    using apply_commits [OF run co(2)] by blast
  moreover have "GetCommitO co' k = GetCommitO co0 k" if "k |\<notin>| shadowCommit sh'" for k
    using that commit_step [OF acc] co(3) co'(2) by (auto split: if_split_asm)
  ultimately have "keeps_up c sh' ds'" unfolding keeps_up_def ctx using co(1) by blast
  with run ovx.apply_inv [OF inv run] that show thesis by blast
qed

lemma accepted_loop_applies:
  assumes "validate_loop c txs sh = Inr sh'" "keeps_up c sh ds" "ov_inv B (dsIndex ds)"
    and ctx: "vIndexOps c = IndexOverlayOps B ord" "vCommitOps c = CommitOverlayOps"
    and "\<forall>tx \<in> set txs. keyed tx \<longrightarrow> 4 \<le> length (sl (OwnerKey tx))"
  shows "\<exists>ds'. ApplyDomainAll (IndexOverlayOps B ord) CommitOverlayOps txs slot bi i spd ds = Inr ds' \<and> ov_inv B (dsIndex ds')
    \<and> dsCommits ds' \<noteq> None"
  using assms(1-3,6)
proof (induction txs arbitrary: sh ds i)
  case Nil
  then show ?case by (auto simp: keeps_up_def)
next
  case (Cons tx txs)
  obtain m where m: "validate_tx c tx sh = Inr m" "validate_loop c txs m = Inr sh'"
    using Cons.prems(1) by (auto simp: bindR_eq_Inr)
  obtain ds1 r where "ApplyDomainMutations (IndexOverlayOps B ord) CommitOverlayOps tx ds slot bi i spd = Inr (ds1, r)"
    "keeps_up c m ds1" "ov_inv B (dsIndex ds1)"
    by (rule accepted_step_applies [OF m(1) Cons.prems(2,3) ctx]) (use Cons.prems(4) in simp)
  with Cons.IH [OF m(2), of ds1 "i + 1"] Cons.prems(4) show ?case by (simp del: CommitOps_simps)
qed

end
