(* ===== verification/Leader.thy ===== *)
theory Leader
  imports Progress
begin

text \<open>
  \<^verbatim>\<open>internal/network/node_leader.go\<close>: the work of a slot leader. \<open>SealBlock\<close> is the part of
  \<^verbatim>\<open>CreateBlockIfLeader\<close> that computes the new state on staging copies and seals the block; it is
  shown to fit \<^verbatim>\<open>ValidateBlock\<close>. The result of \<^verbatim>\<open>time.Now().Unix()\<close>, the order in which a map is
  visited and the order \<^verbatim>\<open>sort.Slice\<close> leaves among equal names are arguments.
\<close>

subsection \<open>Choosing transactions\<close>

fun choose_loop :: "nat \<Rightarrow> int list \<Rightarrow> Transaction list \<Rightarrow> txpool \<Rightarrow> Transaction list \<times> txpool" where
  "choose_loop limit [] transactions pool = (transactions, pool)"
| "choose_loop limit (k # ks) transactions pool =
     (case fmlookup pool k of
        None \<Rightarrow> choose_loop limit ks transactions pool
      | Some tx \<Rightarrow>
          if length transactions \<ge> limit then (transactions, pool)
          else choose_loop limit ks (transactions @ [tx]) (fmdrop (TID tx) pool))"

definition ChooseTxFromPool :: "(txpool \<Rightarrow> int list) \<Rightarrow> txpool \<Rightarrow> nat \<Rightarrow> Transaction list \<times> txpool" where
  "ChooseTxFromPool ord pool limit =
     (if pool = fmempty then ([], pool) else choose_loop limit (ord pool) [] pool)"

definition revocation_of :: "Transaction \<Rightarrow> Transaction" where
  "revocation_of tx = zero_Transaction\<lparr>TID := TID tx, TxType := REVOKE, TxTimestamp := 0, DomainName := DomainName tx,
     CacheTTL := 0, ExpirySlot := ExpirySlot tx, RedeemsTxID := TID tx, OwnerKey := None, TxSignature := None\<rparr>"

definition GenerateAutoRevocations ::
    "(Transaction list \<Rightarrow> Transaction list) \<Rightarrow> 'f IndexManager \<Rightarrow> int64 \<Rightarrow> Transaction list \<Rightarrow> Transaction list" where
  "GenerateAutoRevocations sortByName im currentSlot pendingTxs =
     (let purgeableDomains = GetPurgeableDomains im currentSlot in
      if length purgeableDomains = 0 then []
      else
        (let renewedDomains = renewedInBlock pendingTxs;
             filtered = filter (\<lambda>tx. DomainName tx |\<notin>| renewedDomains) purgeableDomains
         in if length filtered = 0 then [] else map revocation_of (sortByName filtered)))"

subsection \<open>Sealing\<close>

text \<open>Phase A: ledger and stake of each transaction in turn.\<close>

fun phaseA :: "codec \<Rightarrow> Transaction list \<Rightarrow> int64 \<Rightarrow> BalanceLedger \<times> StakeState \<Rightarrow> panic + BalanceLedger \<times> StakeState" where
  "phaseA cd [] slot s = Inr s"
| "phaseA cd (tx # txs) slot (staging, st) =
     bindR (ApplyLedgerMutations tx staging) (\<lambda>staging.
       bindR (ApplyStakeMutations cd tx st slot) (\<lambda>st. phaseA cd txs slot (staging, st)))"

record 's sealed =
  sbBlock :: Block
  sbLedger :: BalanceLedger
  sbStake :: StakeState
  sbCommits :: CommitOverlay
  sbIndex :: 's

definition SealBlock ::
    "crypto \<Rightarrow> codec \<Rightarrow> 's DomainIndexer \<Rightarrow> int64 \<Rightarrow> int64 \<Rightarrow> bytes \<Rightarrow> bytes \<Rightarrow> PrivateKey \<Rightarrow> int64 \<Rightarrow> Block
     \<Rightarrow> Transaction list \<Rightarrow> BalanceLedger \<Rightarrow> StakeState \<Rightarrow> CommitOverlay \<Rightarrow> 's \<Rightarrow> panic + 's sealed" where
  "SealBlock cr cd I now slot currSlotLeader pub priv slotsPerDay latestBlock transactions ledger st commitOverlay im =
     bindR (phaseA cd transactions slot (CloneLedger ledger, stagedStake st slot)) (\<lambda>(staging, staged).
       let staging = creditFees transactions pub staging;
           nextBlockIndex = i64 (BIndex latestBlock + 1)
       in
       bindR (ApplyDomainAll I CommitOverlayOps transactions slot nextBlockIndex 0 slotsPerDay
           \<lparr>dsLedger = staging, dsIndex = im, dsCommits = Some commitOverlay\<rparr>) (\<lambda>ds.
       bindR (NewBlock cr cd now nextBlockIndex slot currSlotLeader (sl (diGetIndexHash I (dsIndex ds)))
           (LedgerHash (dsLedger ds)) (CommitOverlayDigest (the (dsCommits ds))) transactions (BHash latestBlock)
           (StakeMapDigest (ssMap staged)) (UnstakeQueueDigest (ssQueue staged)) (GetAll (ssMap staged)) priv) (\<lambda>newBlock.
         Inr \<lparr>sbBlock = newBlock, sbLedger = dsLedger ds, sbStake = staged, sbCommits = the (dsCommits ds),
              sbIndex = dsIndex ds\<rparr>)))"

subsection \<open>Choosing from the pool\<close>

text \<open>In a pool whose entries are filed under their own identifiers.\<close>

definition pool_ok :: "txpool \<Rightarrow> bool" where
  "pool_ok pool \<longleftrightarrow> (\<forall>k tx. fmlookup pool k = Some tx \<longrightarrow> TID tx = k)"

lemma choose_loop_spec:
  assumes "pool_ok pool" "distinct ks" "choose_loop limit ks ts pool = (ts', pool')"
  shows "\<exists>new. ts' = ts @ new \<and> distinct (map TID new) \<and> pool' = fmdrop_set (TID ` set new) pool \<and>
    (\<forall>tx \<in> set new. TID tx \<in> set ks \<and> fmlookup pool (TID tx) = Some tx) \<and> (length ts \<le> limit \<longrightarrow> length ts' \<le> limit) \<and>
    (length ts' < limit \<longrightarrow> (\<forall>k \<in> set ks. fmlookup pool' k = None))"
  using assms
proof (induction ks arbitrary: ts pool)
  case (Cons k ks)
  show ?case
  proof (cases "fmlookup pool k")
    case None
    with Cons.IH [of pool ts] Cons.prems show ?thesis by fastforce
  next
    case (Some tx)
    then have k: "TID tx = k" using Cons.prems(1) by (simp add: pool_ok_def)
    show ?thesis
    proof (cases "length ts \<ge> limit")
      case True
      with Some Cons.prems(3) show ?thesis by simp
    next
      case False
      have "pool_ok (fmdrop k pool)" using Cons.prems(1) by (simp add: pool_ok_def)
      with Cons.IH [of "fmdrop k pool" "ts @ [tx]"] Cons.prems False Some k obtain new where new:
        "ts' = (ts @ [tx]) @ new" "distinct (map TID new)" "pool' = fmdrop_set (TID ` set new) (fmdrop k pool)"
        "\<forall>t \<in> set new. TID t \<in> set ks \<and> fmlookup (fmdrop k pool) (TID t) = Some t" "length ts' \<le> limit"
        "length ts' < limit \<longrightarrow> (\<forall>k \<in> set ks. fmlookup pool' k = None)"
        by (auto simp: Suc_le_eq)
      have drop: "pool' = fmdrop_set (TID ` set (tx # new)) pool" by (rule fmap_ext) (auto simp: new(3) k)
      have "fmlookup pool' k = None" by (simp add: new(3))
      with new Some k Cons.prems(2) drop show ?thesis
        by (intro exI [of _ "tx # new"]) (auto split: if_split_asm)
    qed
  qed
qed auto

subsection \<open>Revocations\<close>

definition sorts_names :: "(Transaction list \<Rightarrow> Transaction list) \<Rightarrow> bool" where
  "sorts_names srt \<longleftrightarrow> (\<forall>xs. mset (srt xs) = mset xs \<and> sorted (map DomainName (srt xs)))"

lemma set_GenerateAutoRevocations:
  assumes "sorts_names srt"
  shows "set (GenerateAutoRevocations srt im slot txs) =
    revocation_of ` {tx \<in> set (GetPurgeableDomains im slot). DomainName tx |\<notin>| renewedInBlock txs}"
proof -
  have "set (srt xs) = set xs" for xs using assms by (metis sorts_names_def set_mset_mset)
  then show ?thesis by (auto simp: GenerateAutoRevocations_def Let_def filter_empty_conv)
qed

lemma revocation_fields [simp]:
  "TxType (revocation_of tx) = REVOKE" "DomainName (revocation_of tx) = DomainName tx" "OwnerKey (revocation_of tx) = None"
  "RedeemsTxID (revocation_of tx) = TID tx" "TxSignature (revocation_of tx) = None" "Fee (revocation_of tx) = 0"
  by (simp_all add: revocation_of_def) (simp add: zero_Transaction_def)

lemma renewed_revocations: "renewedInBlock (map revocation_of xs @ txs) = renewedInBlock txs"
  by (rule fset_eqI) (auto simp: renewedInBlock_iff)

lemma revocations_are: "\<exists>xs. GenerateAutoRevocations srt im slot txs = map revocation_of xs"
  by (simp add: GenerateAutoRevocations_def Let_def) (metis list.simps(8))

text \<open>The revocations the leader puts first are the ones the validators look for.\<close>

lemma revocations_complete:
  assumes "sorts_names srt" "Transactions b = GenerateAutoRevocations srt im (SlotNumber b) txs @ txs"
  shows "purge_check (Some (GetPurgeableDomains im)) b"
proof -
  let ?rs = "GenerateAutoRevocations srt im (SlotNumber b) txs"
  have ren: "renewedInBlock (?rs @ txs) = renewedInBlock txs"
    using revocations_are [of srt im "SlotNumber b" txs] renewed_revocations by metis
  have "DomainName e |\<in>| renewedInBlock txs \<or> purge_found (?rs @ txs) e" if "e \<in> set (GetPurgeableDomains im (SlotNumber b))" for e
  proof (cases "DomainName e |\<in>| renewedInBlock txs")
    case False
    with that have "revocation_of e \<in> set ?rs" by (simp add: set_GenerateAutoRevocations [OF assms(1)])
    then show ?thesis unfolding purge_found_iff by (intro disjI2 bexI [of _ "revocation_of e"]) simp_all
  qed simp
  then show ?thesis by (simp add: purge_check_def assms(2) ren purges_present_iff)
qed

lemma revocation_unsigned: "\<not> VerifySignature cr key (revocation_of tx)"
  by (simp add: VerifySignature_def split: option.split)

subsection \<open>A sealed block\<close>

lemma phaseA_Inr:
  "phaseA cd txs slot (l, st) = Inr (l', st') \<longleftrightarrow> ApplyLedgerAll txs l = Inr l' \<and> ApplyStakeAll cd txs slot st = Inr st'"
  by (induction txs arbitrary: l st) (auto simp: bindR_eq_Inr)

lemma ApplyDomainAll_ledger:
  assumes "ApplyDomainAll I C txs slot bi i spd ds = Inr ds'" "\<forall>tx \<in> set txs. TxType tx \<noteq> BUY"
  shows "dsLedger ds' = dsLedger ds"
  using assms
proof (induction txs arbitrary: ds i)
  case (Cons tx txs)
  then obtain m r where m: "ApplyDomainMutations I C tx ds slot bi i spd = Inr (m, r)"
    "ApplyDomainAll I C txs slot bi (i + 1) spd m = Inr ds'"
    by (auto simp: bindR_eq_Inr)
  with Cons.IH [OF m(2)] Cons.prems(2) apply_ledger [OF m(1)] show ?case by auto
qed simp

lemma ApplyDomainAll_append:
  "ApplyDomainAll I C (xs @ ys) slot bi i spd ds =
   bindR (ApplyDomainAll I C xs slot bi i spd ds) (ApplyDomainAll I C ys slot bi (i + int (length xs)) spd)"
proof (induction xs arbitrary: ds i)
  case (Cons x xs)
  have "i + 1 + int (length xs) = i + int (length (x # xs))" by simp
  with Cons.IH [of "i + 1"] show ?case
    by (cases "ApplyDomainMutations I C x ds slot bi i spd") (simp_all add: case_prod_unfold)
qed simp

lemma ApplyDomainAll_inv:
  assumes "ApplyDomainAll (IndexOverlayOps B ord) C txs slot bi i spd ds = Inr ds'" "ov_inv B (dsIndex ds)"
  shows "ov_inv B (dsIndex ds')"
  using assms
proof (induction txs arbitrary: ds i)
  case (Cons tx txs)
  then obtain m r where m: "ApplyDomainMutations (IndexOverlayOps B ord) C tx ds slot bi i spd = Inr (m, r)"
    "ApplyDomainAll (IndexOverlayOps B ord) C txs slot bi (i + 1) spd m = Inr ds'"
    by (auto simp: bindR_eq_Inr)
  from Cons.IH [OF m(2) ovx.apply_inv [OF Cons.prems(2) m(1)]] show ?case .
qed simp

lemma NewBlock_ok:
  assumes "key_pair_ok cr priv leader" "txs \<noteq> []"
  obtains b where "NewBlock cr cd now idx slot leader ih bh ch txs prev smh uqh sd priv = Inr b"
    "BIndex b = idx" "SlotNumber b = slot" "SlotLeader b = leader" "IndexHash b = ih" "BalanceLedgerHash b = bh"
    "CommitStoreHash b = ch" "Transactions b = txs" "PrevHash b = prev" "StakeMapHash b = smh" "UnstakeQueueHash b = uqh"
    "VerifyBlock cr leader b" "SetupMerkleTree cd b = Inr (MerkleRootHash b)" "BHash b = ComputeHash b"
proof -
  define b0 where "b0 = zero_Block\<lparr>BIndex := idx, BTimestamp := now, SlotNumber := slot,
            SlotLeader := leader, IndexHash := ih, BalanceLedgerHash := bh,
            CommitStoreHash := ch, Transactions := txs, PrevHash := prev,
            StakeMapHash := smh, UnstakeQueueHash := uqh, StakeData := sd\<rparr>"
  obtain root where root: "SetupMerkleTree cd b0 = Inr root"
    using assms(2) by (simp add: SetupMerkleTree_root b0_def)
  obtain sig where sig: "SignBlock cr priv (b0\<lparr>MerkleRootHash := root\<rparr>) = Inr sig"
    "VerifyBlock cr leader (b0\<lparr>MerkleRootHash := root, BSignature := sig\<rparr>)"
    using SignBlock_ok [OF assms(1)] by blast
  let ?b = "b0\<lparr>MerkleRootHash := root, BSignature := sig\<rparr>"
  have "NewBlock cr cd now idx slot leader ih bh ch txs prev smh uqh sd priv = Inr (?b\<lparr>BHash := ComputeHash ?b\<rparr>)"
    using root sig(1) unfolding NewBlock_def Let_def b0_def [symmetric] by simp
  then show thesis
    by (rule that) (use root sig(2) in \<open>simp_all add: b0_def\<close>)
qed

lemma NewBlock_total:
  assumes "key_pair_ok cr priv leader" "txs \<noteq> []"
  shows "\<exists>b. NewBlock cr cd now idx slot leader ih bh ch txs prev smh uqh sd priv = Inr b"
  using assms by (rule NewBlock_ok) (erule exI)

lemma SealBlock_total:
  assumes "key_pair_ok cr priv leader" "txs \<noteq> []"
    and "ApplyLedgerAll txs ledger = Inr l" "ApplyStakeAll cd txs slot (stagedStake st slot) = Inr st'"
    and "ApplyDomainAll I CommitOverlayOps txs slot (i64 (BIndex latest + 1)) 0 spd
      \<lparr>dsLedger = creditFees txs pub l, dsIndex = im, dsCommits = Some co\<rparr> = Inr ds"
  shows "\<exists>s. SealBlock cr cd I now slot leader pub priv spd latest txs ledger st co im = Inr s \<and> sbIndex s = dsIndex ds"
proof -
  have ph: "phaseA cd txs slot (ledger, stagedStake st slot) = Inr (l, st')" by (simp add: phaseA_Inr assms)
  obtain b where "NewBlock cr cd now (i64 (BIndex latest + 1)) slot leader (sl (diGetIndexHash I (dsIndex ds)))
      (LedgerHash (dsLedger ds)) (CommitOverlayDigest (the (dsCommits ds))) txs (BHash latest)
      (StakeMapDigest (ssMap st')) (UnstakeQueueDigest (ssQueue st')) (GetAll (ssMap st')) priv = Inr b"
    using NewBlock_total [OF assms(1,2)] by fast
  with assms(5) show ?thesis by (simp add: SealBlock_def CloneLedger_def ph)
qed

lemma block_ctx_same:
  "SlotNumber b = SlotNumber b' \<Longrightarrow> BIndex b = BIndex b' \<Longrightarrow> SlotLeader b = SlotLeader b' \<Longrightarrow>
   block_ctx cr cd regs I b ledger im co spd st = block_ctx cr cd regs I b' ledger im co spd st"
  by (simp add: block_ctx_def)

text \<open>The header fields of the block about to be sealed, which is all the validation context reads.\<close>

definition next_block :: "Block \<Rightarrow> int64 \<Rightarrow> bytes \<Rightarrow> Block" where
  "next_block latest slot leader = zero_Block\<lparr>BIndex := i64 (BIndex latest + 1), SlotNumber := slot, SlotLeader := leader\<rparr>"

lemma accepted_applies:
  assumes "ValidateTransactions (block_ctx cr cd regs (IndexOverlayOps B ord) b ledger ov co spd st) txs = Inr True"
    "ov_inv B ov" "\<forall>tx \<in> set txs. keyed tx \<longrightarrow> 4 \<le> length (sl (OwnerKey tx))"
  shows "\<exists>ds. ApplyDomainAll (IndexOverlayOps B ord) CommitOverlayOps txs slot bi i spd'
    \<lparr>dsLedger = l, dsIndex = ov, dsCommits = Some co\<rparr> = Inr ds \<and> ov_inv B (dsIndex ds) \<and> dsCommits ds \<noteq> None"
proof -
  let ?c = "block_ctx cr cd regs (IndexOverlayOps B ord) b ledger ov co spd st"
  obtain sh where sh: "validate_loop ?c txs shadow0 = Inr sh" using assms(1) by (auto simp: accepted_loop)
  have "keeps_up ?c shadow0 \<lparr>dsLedger = l, dsIndex = ov, dsCommits = Some co\<rparr>"
    by (simp add: keeps_up_def block_ctx_def shadow0_def)
  moreover have "vIndexOps ?c = IndexOverlayOps B ord" "vCommitOps ?c = CommitOverlayOps"
    by (simp_all only: block_ctx_def vctx.select_convs)
  ultimately show ?thesis
    using accepted_loop_applies [OF sh _ _ _ _ assms(3)] assms(2) by simp
qed

lemma sealed_block_accepted:
  fixes latest slot leader
  defines "b0 \<equiv> next_block latest slot leader"
  assumes key: "key_pair_ok cr priv leader" and slot: "SlotNumber latest < slot" and ne: "txs \<noteq> []"
    and val: "ValidateTransactions (block_ctx cr cd regs (IndexOverlayOps B ord) b0 ledger ov co spd st) txs = Inr True"
    and co: "co = stagedCommits cs (BIndex b0)"
    and purge: "purge_check ec (b0\<lparr>Transactions := txs\<rparr>)"
    and cap: "ledger_supply ledger < 2 ^ 64" and inv: "ov_inv B ov"
    and keys: "\<forall>tx \<in> set txs. keyed tx \<longrightarrow> 4 \<le> length (sl (OwnerKey tx))"
    and ty: "\<forall>tx \<in> set txs. TxType tx \<noteq> EQUIVOCATION_PROOF \<and> TxType tx \<noteq> BUY"
  obtains s where
    "SealBlock cr cd (IndexOverlayOps B ord) now slot leader leader priv spd latest txs ledger st co ov = Inr s"
    "ov_inv B (sbIndex s)" "Transactions (sbBlock s) = txs"
    "\<And>ov'. CommitOv B ord (sbIndex s) = Inr ov' \<Longrightarrow>
       ValidateBlock cr cd regs (IndexOverlayOps B ord) (sbBlock s) (Some latest) leader ledger ov ec spd st cs =
         Inr (Some \<lparr>vbLedger = sbLedger s, vbStake = sbStake s, vbCommits = sbCommits s, vbIndex = ov'\<rparr>)"
proof -
  let ?I = "IndexOverlayOps B ord"
  let ?c = "block_ctx cr cd regs ?I b0 ledger ov co spd st"
  have b0: "BIndex b0 = i64 (BIndex latest + 1)" "SlotNumber b0 = slot" "SlotLeader b0 = leader"
    by (simp_all add: b0_def next_block_def)
  obtain l where l: "ApplyLedgerAll txs ledger = Inr l" using accepted_ledger [OF val] cap by (auto simp: fold_ctx)
  obtain sh where sh: "validate_loop ?c txs shadow0 = Inr sh" using val by (auto simp: accepted_loop)
  have "stake_rel ?c shadow0 (ssMap (stagedStake st slot))"
    using stake_rel_start [of ?c] by (simp add: fold_ctx stagedStake_def)
  then obtain st' where st': "ApplyStakeAll cd txs slot (stagedStake st slot) = Inr st'"
    using stake_loop [OF sh] ty by blast
  obtain ds where ds: "ApplyDomainAll ?I CommitOverlayOps txs slot (i64 (BIndex latest + 1)) 0 spd
      \<lparr>dsLedger = creditFees txs leader l, dsIndex = ov, dsCommits = Some co\<rparr> = Inr ds" "ov_inv B (dsIndex ds)"
    using accepted_applies [OF val inv keys] by blast
  have same: "dsLedger ds = creditFees txs leader l" using ApplyDomainAll_ledger [OF ds(1)] ty by simp
  obtain b where b: "NewBlock cr cd now (i64 (BIndex latest + 1)) slot leader (sl (diGetIndexHash ?I (dsIndex ds)))
      (LedgerHash (dsLedger ds)) (CommitOverlayDigest (the (dsCommits ds))) txs (BHash latest)
      (StakeMapDigest (ssMap st')) (UnstakeQueueDigest (ssQueue st')) (GetAll (ssMap st')) priv = Inr b"
    "BIndex b = i64 (BIndex latest + 1)" "SlotNumber b = slot" "SlotLeader b = leader"
    "IndexHash b = sl (diGetIndexHash ?I (dsIndex ds))" "BalanceLedgerHash b = LedgerHash (dsLedger ds)"
    "CommitStoreHash b = CommitOverlayDigest (the (dsCommits ds))" "Transactions b = txs" "PrevHash b = BHash latest"
    "StakeMapHash b = StakeMapDigest (ssMap st')" "UnstakeQueueHash b = UnstakeQueueDigest (ssQueue st')"
    "VerifyBlock cr leader b" "SetupMerkleTree cd b = Inr (MerkleRootHash b)" "BHash b = ComputeHash b"
    by (rule NewBlock_ok [OF key ne])
  have head: "header_check cr cd b latest leader = Inr True" by (simp add: header_check_True b slot)
  have ctx: "block_ctx cr cd regs ?I b ledger ov co spd st = ?c" by (rule block_ctx_same) (simp_all add: b b0)
  have pur: "purge_check ec b" using purge by (simp add: purge_check_def b b0 split: option.splits)
  have ph: "phaseA cd txs slot (ledger, stagedStake st slot) = Inr (l, st')" by (simp add: phaseA_Inr l st')
  define s where "s = \<lparr>sbBlock = b, sbLedger = dsLedger ds, sbStake = st', sbCommits = the (dsCommits ds), sbIndex = dsIndex ds\<rparr>"
  have "SealBlock cr cd ?I now slot leader leader priv spd latest txs ledger st co ov = Inr s"
    using ds(1) b(1) by (simp add: SealBlock_def CloneLedger_def ph s_def)
  moreover have "ov_inv B (sbIndex s)" "Transactions (sbBlock s) = txs" by (simp_all add: s_def ds b)
  moreover have "ValidateBlock cr cd regs ?I (sbBlock s) (Some latest) leader ledger ov ec spd st cs =
      Inr (Some \<lparr>vbLedger = sbLedger s, vbStake = sbStake s, vbCommits = sbCommits s, vbIndex = ov'\<rparr>)"
    if "CommitOv B ord (sbIndex s) = Inr ov'" for ov'
  proof -
    have com: "diCommit ?I (dsIndex ds) = Inr ov'" using that by (simp add: IndexOverlayOps_def s_def)
    show ?thesis
      using head pur val l ds(1) st' com ctx b same co b0
      by (simp add: ValidateBlock_def CloneLedger_def s_def)
  qed
  ultimately show thesis by (rule that)
qed

subsection \<open>Ledgers keyed by public keys\<close>

lemma hex_keys_ops [simp]:
  "hex_keys (accounts (Credit l (hex k) n)) = hex_keys (accounts l)"
  "hex_keys (accounts (IncrementNonce l (hex k))) = hex_keys (accounts l)"
  "Debit l (hex k) n = Some l' \<Longrightarrow> hex_keys (accounts l') = hex_keys (accounts l)"
  by (auto simp: hex_keys_def Credit_def IncrementNonce_def Debit_def update_account_def ensureAccountUnsafe_def
      split: option.splits if_splits)

lemma hex_keys_stage:
  assumes "(if c then (case Debit l (hex k) a of None \<Rightarrow> sliced 8 (hex k) (Inr l) | Some m \<Rightarrow> Inr (f m)) else Inr l) = Inr l'"
    and "\<And>m. hex_keys (accounts (f m)) = hex_keys (accounts m)"
  shows "hex_keys (accounts l') = hex_keys (accounts l)"
proof (cases "c \<and> Debit l (hex k) a \<noteq> None")
  case True
  then obtain m where m: "Debit l (hex k) a = Some m" by blast
  with True assms(1) have "l' = f m" by simp
  then show ?thesis using assms(2) [of m] hex_keys_ops(3) [OF m] by simp
next
  case False
  then have "l' = l" using assms(1) by (cases c) simp_all
  then show ?thesis by simp
qed

lemma hex_keys_ApplyLedger:
  assumes "ApplyLedgerMutations tx l = Inr l'"
  shows "hex_keys (accounts l') = hex_keys (accounts l)"
proof (cases "length (sl (OwnerKey tx)) = 0")
  case True
  with assms show ?thesis by (simp add: ApplyLedgerMutations_def)
next
  case False
  with assms show ?thesis
    by (rule ApplyLedgerMutations_stages)
      ((drule hex_keys_stage, simp only: hex_keys_ops(1,2))+, simp only: hex_keys_ops(2))
qed

lemma hex_keys_ApplyLedgerAll:
  "ApplyLedgerAll txs l = Inr l' \<Longrightarrow> hex_keys (accounts l') = hex_keys (accounts l)"
proof (induction txs arbitrary: l)
  case (Cons tx txs)
  then obtain m where m: "ApplyLedgerMutations tx l = Inr m" "ApplyLedgerAll txs m = Inr l'" by (auto simp: bindR_eq_Inr)
  with Cons.IH [OF m(2)] hex_keys_ApplyLedger [OF m(1)] show ?case by simp
qed simp

lemma hex_keys_creditFees: "hex_keys (accounts (creditFees txs k l)) = hex_keys (accounts l)"
  by (simp add: creditFees_def)

lemma overlay_commits:
  assumes "ov_inv B ov" "enumerates ord" "inj_on HashDomain (fset (fmdom (journal ov)))"
  shows "\<exists>ov'. CommitOv B ord ov = Inr ov' \<and> im_inv B (real ov')"
proof -
  obtain d where "inj_on HashDomain (insert d (fset (fmdom (journal ov))))"
    using assms(3) by (metis insert_absorb ex_in_conv inj_on_insert inj_on_empty empty_Diff image_empty)
  with CommitOv_spec [OF assms(1,2)] show ?thesis by blast
qed

subsection \<open>Properties\<close>

text \<open>C8: The block an honest leader seals is accepted: for transactions that pass \<open>ValidateTransactions\<close>
  in the leader's state, with the purges due in this slot, \<open>SealBlock\<close> returns a block, and
  \<open>ValidateBlock\<close> of a node in the same state accepts it and arrives at the leader's ledger, stake,
  commits and index. Transactions of type BUY and equivocation proofs are left out; domains of the
  block must have different hashes, sender keys at least four bytes, and the coins of the ledger fit
  in 64 bits.
\<close>

theorem honest_block_accepted:
  fixes latest slot leader
  defines "b0 \<equiv> next_block latest slot leader"
  assumes "key_pair_ok cr priv leader" "SlotNumber latest < slot" "txs \<noteq> []"
    and "ValidateTransactions (block_ctx cr cd regs (IndexOverlayOps B ord) b0 ledger (NewIndexOverlay im)
           (stagedCommits cs (BIndex b0)) spd st) txs = Inr True"
    and "purge_check ec (b0\<lparr>Transactions := txs\<rparr>)"
    and "ledger_supply ledger < 2 ^ 64" "im_inv B im" "enumerates ord"
    and "\<forall>tx \<in> set txs. keyed tx \<longrightarrow> 4 \<le> length (sl (OwnerKey tx))"
    and "\<forall>tx \<in> set txs. TxType tx \<noteq> EQUIVOCATION_PROOF \<and> TxType tx \<noteq> BUY"
  shows "\<exists>s. SealBlock cr cd (IndexOverlayOps B ord) now slot leader leader priv spd latest txs ledger st
        (stagedCommits cs (BIndex b0)) (NewIndexOverlay im) = Inr s \<and>
     (inj_on HashDomain (fset (fmdom (journal (sbIndex s)))) \<longrightarrow>
       (\<exists>ov'. CommitOv B ord (sbIndex s) = Inr ov' \<and> im_inv B (real ov') \<and>
         ValidateBlock cr cd regs (IndexOverlayOps B ord) (sbBlock s) (Some latest) leader ledger (NewIndexOverlay im) ec spd st cs =
           Inr (Some \<lparr>vbLedger = sbLedger s, vbStake = sbStake s, vbCommits = sbCommits s, vbIndex = ov'\<rparr>)))"
proof -
  obtain s where s:
    "SealBlock cr cd (IndexOverlayOps B ord) now slot leader leader priv spd latest txs ledger st
        (stagedCommits cs (BIndex b0)) (NewIndexOverlay im) = Inr s" "ov_inv B (sbIndex s)"
    "\<And>ov'. CommitOv B ord (sbIndex s) = Inr ov' \<Longrightarrow>
       ValidateBlock cr cd regs (IndexOverlayOps B ord) (sbBlock s) (Some latest) leader ledger (NewIndexOverlay im) ec spd st cs =
         Inr (Some \<lparr>vbLedger = sbLedger s, vbStake = sbStake s, vbCommits = sbCommits s, vbIndex = ov'\<rparr>)"
    using sealed_block_accepted [OF assms(2-4) assms(5) [unfolded b0_def] refl assms(6) [unfolded b0_def] assms(7)
        ov_inv_New [OF assms(8)] assms(10,11)] unfolding b0_def by blast
  with overlay_commits [OF s(2) assms(9)] show ?thesis by blast
qed

definition sample_leader_stake :: StakeState where
  "sample_leader_stake = \<lparr>ssMap = NewStakeMap, ssQueue = NewUnstakeQueue, ssSlashed = {||}\<rparr>"

definition sample_im :: "string fset IndexManager" where
  "sample_im = NewIndexManager sample_bloom"

abbreviation sample_ledger :: BalanceLedger where
  "sample_ledger \<equiv> Seed NewBalanceLedger (hex [1, 2, 3, 4]) 1000"

lemma sample_block_validates:
  "ValidateTransactions (block_ctx sample_crypto cd [[1, 2, 3, 4]] (IndexOverlayOps sample_bloom sorted_keys)
     b sample_ledger (NewIndexOverlay sample_im) co spd sample_leader_stake) [sample_stake] = Inr True"
proof -
  have "\<exists>sh. validate_tx (block_ctx sample_crypto cd [[1, 2, 3, 4]] (IndexOverlayOps sample_bloom sorted_keys)
     b sample_ledger (NewIndexOverlay sample_im) co spd sample_leader_stake) sample_stake shadow0 = Inr sh"
    by (simp add: validate_tx_def front_gates_def key_gates_def front_defs key_defs Let_def ledger_simps shadow0_def
      MinFee_def current_stake_def stake_simps config_defs block_ctx_def sample_leader_stake_def del: hex.simps)
  then show ?thesis by (auto simp: accepted_loop)
qed

lemma sample_ledger_supply: "ledger_supply sample_ledger = 1000"
  by (simp add: ledger_supply_def Seed_def NewBalanceLedger_def fm_sum_def sorted_keys_def del: hex.simps)

lemma sample_im_inv: "im_inv sample_bloom sample_im"
  unfolding sample_im_def by (rule im_inv_New [OF sample_bloom_ok])

text \<open>The result of sealing, taken apart.\<close>

lemma SealBlock_Inr:
  assumes "SealBlock cr cd I now slot leader pub priv spd latest txs ledger st co im = Inr s"
  obtains l staged ds where "ApplyLedgerAll txs ledger = Inr l" "ApplyStakeAll cd txs slot (stagedStake st slot) = Inr staged"
    "ApplyDomainAll I CommitOverlayOps txs slot (i64 (BIndex latest + 1)) 0 spd
       \<lparr>dsLedger = creditFees txs pub l, dsIndex = im, dsCommits = Some co\<rparr> = Inr ds"
    "sbLedger s = dsLedger ds" "sbIndex s = dsIndex ds" "sbStake s = staged" "BalanceLedgerHash (sbBlock s) = LedgerHash (dsLedger ds)"
    "Transactions (sbBlock s) = txs" "SlotLeader (sbBlock s) = leader"
  using assms
  by (auto simp: SealBlock_def CloneLedger_def bindR_eq_Inr phaseA_Inr Let_def NewBlock_def simp del: CommitOps_simps)

lemma sample_seal_index:
  assumes "SealBlock cr cd I now slot leader pub priv spd latest [sample_stake] ledger st co im = Inr s"
  shows "sbIndex s = im"
  using assms
  by (rule SealBlock_Inr) (auto simp: bindR_eq_Inr ApplyDomainMutations_def done_with_def)

theorem honest_block_accepted_witness:
  "\<exists>s ov'. SealBlock sample_crypto sample_codec (IndexOverlayOps sample_bloom sorted_keys) 77 10 [7, 7] [7, 7] 3 10
        zero_Block [sample_stake] sample_ledger sample_leader_stake
        (stagedCommits NewCommitStore (BIndex (next_block zero_Block 10 [7, 7]))) (NewIndexOverlay sample_im) = Inr s \<and>
     ValidateBlock sample_crypto sample_codec [[1, 2, 3, 4]] (IndexOverlayOps sample_bloom sorted_keys) (sbBlock s)
       (Some zero_Block) [7, 7] sample_ledger (NewIndexOverlay sample_im) None 10 sample_leader_stake NewCommitStore =
       Inr (Some \<lparr>vbLedger = sbLedger s, vbStake = sbStake s, vbCommits = sbCommits s, vbIndex = ov'\<rparr>)"
proof -
  have slot: "SlotNumber zero_Block < 10" by (simp add: zero_Block_def)
  have sup: "ledger_supply sample_ledger < 2 ^ 64" unfolding sample_ledger_supply by simp
  have pur: "purge_check None (next_block zero_Block 10 [7, 7]\<lparr>Transactions := [sample_stake]\<rparr>)" by (simp add: purge_check_def)
  have ty: "\<forall>tx \<in> set [sample_stake]. keyed tx \<longrightarrow> 4 \<le> length (sl (OwnerKey tx))"
    "\<forall>tx \<in> set [sample_stake]. TxType tx \<noteq> EQUIVOCATION_PROOF \<and> TxType tx \<noteq> BUY" by simp_all
  from honest_block_accepted [OF sample_key_ok slot _ sample_block_validates [where cd = sample_codec and spd = 10] pur sup sample_im_inv enumerates_sorted_keys ty,
      of 77 3 NewCommitStore]
  obtain s where s: "SealBlock sample_crypto sample_codec (IndexOverlayOps sample_bloom sorted_keys) 77 10 [7, 7] [7, 7] 3 10
        zero_Block [sample_stake] sample_ledger sample_leader_stake
        (stagedCommits NewCommitStore (BIndex (next_block zero_Block 10 [7, 7]))) (NewIndexOverlay sample_im) = Inr s"
    "inj_on HashDomain (fset (fmdom (journal (sbIndex s)))) \<Longrightarrow>
       (\<exists>ov'. ValidateBlock sample_crypto sample_codec [[1, 2, 3, 4]] (IndexOverlayOps sample_bloom sorted_keys) (sbBlock s)
           (Some zero_Block) [7, 7] sample_ledger (NewIndexOverlay sample_im) None 10 sample_leader_stake NewCommitStore =
           Inr (Some \<lparr>vbLedger = sbLedger s, vbStake = sbStake s, vbCommits = sbCommits s, vbIndex = ov'\<rparr>))"
    by blast
  have "journal (sbIndex s) = fmempty" using sample_seal_index [OF s(1)] by (simp add: NewIndexOverlay_def)
  with s show ?thesis by auto
qed

text \<open>The leader's revocations satisfy the purge check: the block that starts with
  \<open>GenerateAutoRevocations\<close> for its slot holds every purge the validators expect of it.
\<close>

theorem auto_revocations_complete:
  assumes "sorts_names srt" "Transactions b = GenerateAutoRevocations srt im (SlotNumber b) txs @ txs"
  shows "purge_check (Some (GetPurgeableDomains im)) b"
  using assms by (rule revocations_complete)

lemma sort_key_sorts: "sorts_names (sort_key DomainName)"
  by (simp add: sorts_names_def)

theorem auto_revocations_complete_witness:
  "let im = sample_im\<lparr>purgeIndex := fmupd 5 [sample_domain] fmempty\<rparr> in
   Transactions (zero_Block\<lparr>SlotNumber := 5, Transactions := [revocation_of sample_domain]\<rparr>) =
     GenerateAutoRevocations (sort_key DomainName) im 5 [] @ [] \<and>
   purge_check (Some (GetPurgeableDomains im)) (zero_Block\<lparr>SlotNumber := 5, Transactions := [revocation_of sample_domain]\<rparr>)"
proof -
  define im where "im = sample_im\<lparr>purgeIndex := fmupd 5 [sample_domain] fmempty\<rparr>"
  define b where "b = zero_Block\<lparr>SlotNumber := 5, Transactions := [revocation_of sample_domain]\<rparr>"
  have "Transactions b = GenerateAutoRevocations (sort_key DomainName) im (SlotNumber b) [] @ []"
    by (simp add: b_def GenerateAutoRevocations_def GetPurgeableDomains_def scheduled_def im_def renewedInBlock_def)
  with auto_revocations_complete [OF sort_key_sorts this] show ?thesis
    by (simp add: Let_def im_def [symmetric] b_def [symmetric]) (simp add: b_def)
qed

text \<open>C36: Those revocations carry no signature, while \<open>ValidateTransactions\<close> asks for the slot leader's:
  a block with a revocation made by \<open>GenerateAutoRevocations\<close> is never accepted, by any node in any
  state.
\<close>

theorem auto_revocation_rejected:
  assumes "tx \<in> set (GenerateAutoRevocations srt im slot txs)" "sorts_names srt" "tx \<in> set (Transactions b)"
  shows "ValidateBlock cr cd regs I b old key ledger ix ec spd st cs \<noteq> Inr (Some r)"
proof
  assume "ValidateBlock cr cd regs I b old key ledger ix ec spd st cs = Inr (Some r)"
  then have val: "ValidateTransactions (block_ctx cr cd regs I b ledger ix (stagedCommits cs (BIndex b)) spd st)
      (Transactions b) = Inr True"
    by (rule ValidateBlock_accepts)
  obtain d where tx: "tx = revocation_of d" using assms(1) by (auto simp: set_GenerateAutoRevocations [OF assms(2)])
  obtain xs ys where "Transactions b = xs @ tx # ys" using assms(3) by (meson split_list)
  with val obtain s s' where
    "validate_tx (block_ctx cr cd regs I b ledger ix (stagedCommits cs (BIndex b)) spd st) tx s = Inr s'"
    by (metis accepted_split)
  from accepted_signature [OF this] show False by (simp add: tx revocation_unsigned)
qed

theorem auto_revocation_rejected_witness:
  "\<exists>b. Transactions b = GenerateAutoRevocations (sort_key DomainName) (sample_im\<lparr>purgeIndex := fmupd 5 [sample_domain] fmempty\<rparr>) 5 [] \<and>
     Transactions b = [revocation_of sample_domain] \<and> header_check sample_crypto sample_codec b zero_Block [7, 7] = Inr True \<and>
     (\<forall>r. ValidateBlock sample_crypto sample_codec [[1, 2, 3, 4]] (IndexOverlayOps sample_bloom sorted_keys) b (Some zero_Block) [7, 7]
       sample_ledger (NewIndexOverlay sample_im) None 10 sample_leader_stake NewCommitStore \<noteq> Inr (Some r))"
proof -
  let ?txs = "[revocation_of sample_domain]"
  obtain b where b: "NewBlock sample_crypto sample_codec 77 (i64 (BIndex zero_Block + 1)) 5 [7, 7] [] [] [] ?txs (BHash zero_Block) [] []
      fmempty 3 = Inr b"
    "BIndex b = i64 (BIndex zero_Block + 1)" "SlotNumber b = 5" "SlotLeader b = [7, 7]" "Transactions b = ?txs" "PrevHash b = BHash zero_Block"
    "VerifyBlock sample_crypto [7, 7] b" "SetupMerkleTree sample_codec b = Inr (MerkleRootHash b)" "BHash b = ComputeHash b"
    by (rule NewBlock_ok [OF sample_key_ok, where txs = ?txs and cd = sample_codec and now = 77 and idx = "i64 (BIndex zero_Block + 1)" and slot = 5
        and ih = "[]" and bh = "[]" and ch = "[]" and prev = "BHash zero_Block" and smh = "[]" and uqh = "[]" and sd = fmempty])
      (simp, blast)
  have gen: "GenerateAutoRevocations (sort_key DomainName) (sample_im\<lparr>purgeIndex := fmupd 5 [sample_domain] fmempty\<rparr>) 5 [] = ?txs"
    by (simp add: GenerateAutoRevocations_def GetPurgeableDomains_def scheduled_def renewedInBlock_def)
  then have "revocation_of sample_domain \<in> set (GenerateAutoRevocations (sort_key DomainName)
      (sample_im\<lparr>purgeIndex := fmupd 5 [sample_domain] fmempty\<rparr>) 5 [])" by simp
  note rejected = auto_revocation_rejected [OF this sort_key_sorts]
  have "SlotNumber zero_Block < 5" by (simp add: zero_Block_def)
  then have "header_check sample_crypto sample_codec b zero_Block [7, 7] = Inr True" using b by (simp add: header_check_True)
  with gen b(5) rejected [of b] show ?thesis by (intro exI [of _ b] conjI allI) simp_all
qed

text \<open>C37: A block in which exactly one transaction is a purchase, and it takes effect, is not accepted unless SHA-256
  collides. The leader hashes the ledger after the domain phase, in which the price is paid; \<open>ValidateBlock\<close> compares
  the hash before that phase. The two hashed texts differ, and a validator with the same ledger accepts the block only if
  SHA-256 gives the same digest for both. There may be any number of other transactions before and after the purchase, of any
  type but BUY: the payments of several purchases may cancel each other. The accounts of the ledger are filed under
  public keys in hexadecimal.
\<close>

theorem buy_block_rejected:
  fixes pre post and tx :: Transaction
  defines "txs \<equiv> pre @ tx # post"
  assumes "SealBlock cr cd (IndexOverlayOps B ord) now slot leader leader priv spd latest txs ledger st co ov = Inr s"
    and "\<forall>t \<in> set (pre @ post). TxType t \<noteq> BUY" "TxType tx = BUY" "OwnerKey tx = Some k" "ov_inv B ov" "hex_keys (accounts ledger)"
    and "ApplyLedgerAll txs ledger = Inr l"
    and "ApplyDomainAll (IndexOverlayOps B ord) CommitOverlayOps pre slot (i64 (BIndex latest + 1)) 0 spd
           \<lparr>dsLedger = creditFees txs leader l, dsIndex = ov, dsCommits = Some co\<rparr> = Inr before"
    and "ApplyDomainMutations (IndexOverlayOps B ord) CommitOverlayOps tx before slot (i64 (BIndex latest + 1)) (int (length pre)) spd =
           Inr (bought, None)"
  shows "ledger_text (creditFees txs leader l) \<noteq> ledger_text (sbLedger s) \<and>
    (ValidateBlock cr cd regs I (sbBlock s) old key ledger ov' ec spd' st' cs = Inr (Some r) \<longrightarrow>
       sha256 (bytes_of_string (ledger_text (creditFees txs leader l))) =
       sha256 (bytes_of_string (ledger_text (sbLedger s))))"
proof
  let ?l = "creditFees txs leader l" and ?I = "IndexOverlayOps B ord"
  obtain ds where ds: "ApplyDomainAll ?I CommitOverlayOps txs slot (i64 (BIndex latest + 1)) 0 spd
       \<lparr>dsLedger = ?l, dsIndex = ov, dsCommits = Some co\<rparr> = Inr ds"
    "sbLedger s = dsLedger ds" "BalanceLedgerHash (sbBlock s) = LedgerHash (dsLedger ds)"
    "Transactions (sbBlock s) = txs" "SlotLeader (sbBlock s) = leader"
    using assms(2,8) by (elim SealBlock_Inr) simp
  have pre: "dsLedger before = ?l" "ov_inv B (dsIndex before)"
    using ApplyDomainAll_ledger [OF assms(9)] ApplyDomainAll_inv [OF assms(9)] assms(3,6) by auto
  have "ApplyDomainAll ?I CommitOverlayOps post slot (i64 (BIndex latest + 1)) (int (length pre) + 1) spd bought = Inr ds"
    using ds(1) assms(9,10) by (simp add: txs_def ApplyDomainAll_append)
  from ApplyDomainAll_ledger [OF this] assms(3) have after: "dsLedger ds = dsLedger bought" by simp
  have buy: "applyBuyDomain ?I tx before (hex k) slot spd = Inr (bought, None)"
    using assms(4,5,10) by (simp add: ApplyDomainMutations_def)
  note spec = ovx.buy_spec [OF pre(2) assms(5) buy]
  obtain m where m: "Debit ?l (hex k) (diGetListPrice ?I (dsIndex before) (DomainName tx)) = Some m"
    "dsLedger bought = Credit m (hex (sl (diGetOwner ?I (dsIndex before) (DomainName tx))))
       (diGetListPrice ?I (dsIndex before) (DomainName tx))"
    using spec(5) pre(1) by auto
  have "GetBalance (sbLedger s) (hex k) \<noteq> GetBalance ?l (hex k)"
    using spec(2,4) Debit_SomeD [OF m(1)] by (simp add: ds(2) after m(2) ledger_simps)
  then have "?l \<noteq> sbLedger s" by auto
  moreover have "hex_keys (accounts ?l)" "hex_keys (accounts (sbLedger s))"
    using assms(7) hex_keys_ApplyLedgerAll [OF assms(8)] m(1) by (simp_all add: hex_keys_creditFees ds(2) after m(2))
  ultimately show "ledger_text ?l \<noteq> ledger_text (sbLedger s)" using ledger_text_inject by blast
  show "ValidateBlock cr cd regs I (sbBlock s) old key ledger ov' ec spd' st' cs = Inr (Some r) \<longrightarrow>
       sha256 (bytes_of_string (ledger_text ?l)) = sha256 (bytes_of_string (ledger_text (sbLedger s)))"
  proof
    assume "ValidateBlock cr cd regs I (sbBlock s) old key ledger ov' ec spd' st' cs = Inr (Some r)"
    then obtain l' where "ApplyLedgerAll txs ledger = Inr l'" "BalanceLedgerHash (sbBlock s) = LedgerHash (creditFees txs leader l')"
      using ds(4,5) by (elim ValidateBlock_accepts) simp
    with assms(8) ds(2,3) show "sha256 (bytes_of_string (ledger_text ?l)) = sha256 (bytes_of_string (ledger_text (sbLedger s)))"
      by (simp add: LedgerHash_def)
  qed
qed

lemma sample_purchase:
  "\<exists>ds'. applyBuyDomain (IndexOverlayOps sample_bloom sorted_keys) (sample_market BUY [5, 6, 7, 8])
     \<lparr>dsLedger = IncrementNonce (dsLedger sample_state) (hex [5, 6, 7, 8]), dsIndex = dsIndex sample_state, dsCommits = c\<rparr>
     (hex [5, 6, 7, 8]) 10 10 = Inr (ds', None) \<and> GetOwnerO (dsIndex ds') ''a.com'' = Some [5, 6, 7, 8]"
proof -
  have "\<not> GetBalance (IncrementNonce (dsLedger sample_state) (hex [5, 6, 7, 8])) (hex [5, 6, 7, 8]) < 30"
    by (simp add: sample_state_ledger ledger_simps del: hex.simps)
  then obtain l where l: "Debit (IncrementNonce (dsLedger sample_state) (hex [5, 6, 7, 8])) (hex [5, 6, 7, 8]) 30 = Some l"
    using Debit_None_iff by (metis not_None_eq)
  then show ?thesis by (simp add: sample_eval applyBuyDomain_def Let_def sample_domain_def del: hex.simps)
qed

theorem buy_block_rejected_witness:
  "\<exists>s. SealBlock sample_crypto sample_codec (IndexOverlayOps sample_bloom sorted_keys) 77 10 [7, 7] [7, 7] 3 10
        zero_Block [sample_market BUY [5, 6, 7, 8]] (dsLedger sample_state) sample_leader_stake
        (stagedCommits NewCommitStore 1) (dsIndex sample_state) = Inr s \<and>
     ledger_text (IncrementNonce (dsLedger sample_state) (hex [5, 6, 7, 8])) \<noteq> ledger_text (sbLedger s)"
proof -
  let ?tx = "sample_market BUY [5, 6, 7, 8]" and ?I = "IndexOverlayOps sample_bloom sorted_keys"
  let ?l = "IncrementNonce (dsLedger sample_state) (hex [5, 6, 7, 8])" and ?co = "stagedCommits NewCommitStore 1"
  obtain ds where ds: "applyBuyDomain ?I ?tx \<lparr>dsLedger = ?l, dsIndex = dsIndex sample_state, dsCommits = Some ?co\<rparr>
     (hex [5, 6, 7, 8]) 10 10 = Inr (ds, None)" "GetOwnerO (dsIndex ds) ''a.com'' = Some [5, 6, 7, 8]"
    using sample_purchase [of "Some ?co"] by blast
  have led: "ApplyLedgerAll [?tx] (dsLedger sample_state) = Inr ?l"
    by (simp add: ApplyLedgerMutations_def Let_def zero_Transaction_def del: hex.simps)
  have fee: "creditFees [?tx] [7, 7] ?l = ?l"
    by (simp add: creditFees_def totalFees_def zero_Transaction_def del: hex.simps)
  have stk: "ApplyStakeAll sample_codec [?tx] 10 (stagedStake sample_leader_stake 10) = Inr (stagedStake sample_leader_stake 10)"
    by (simp add: ApplyStakeMutations_def)
  have dom: "ApplyDomainAll ?I CommitOverlayOps [?tx] 10 1 0 10
      \<lparr>dsLedger = ?l, dsIndex = dsIndex sample_state, dsCommits = Some ?co\<rparr> = Inr ds"
    using ds(1) by (simp add: ApplyDomainMutations_def del: hex.simps)
  have i: "i64 (BIndex zero_Block + 1) = 1" by (simp add: zero_Block_def i64_def)
  obtain s where s: "SealBlock sample_crypto sample_codec ?I 77 10 [7, 7] [7, 7] 3 10 zero_Block [?tx] (dsLedger sample_state)
      sample_leader_stake ?co (dsIndex sample_state) = Inr s" "sbIndex s = dsIndex ds"
    using SealBlock_total [OF sample_key_ok list.distinct(2) led stk, of ?I zero_Block 10 "[7, 7]"] unfolding fee i using dom by fast
  have eff: "ApplyDomainMutations ?I CommitOverlayOps ?tx \<lparr>dsLedger = ?l, dsIndex = dsIndex sample_state, dsCommits = Some ?co\<rparr> 10 1
      (int (length [])) 10 = Inr (ds, None)"
    using ds(1) by (simp add: ApplyDomainMutations_def del: hex.simps)
  have hk: "hex_keys (accounts (dsLedger sample_state))"
    by (simp add: sample_state_def Seed_def NewBalanceLedger_def hex_keys_def del: hex.simps)
  have "ledger_text (creditFees [?tx] [7, 7] ?l) \<noteq> ledger_text (sbLedger s)"
    using buy_block_rejected [where pre = "[]" and post = "[]", unfolded append_Nil, OF s(1) _ _ _ sample_state_views(5) hk led, unfolded fee i,
        OF _ _ _ ApplyDomainAll.simps(1) eff, THEN conjunct1] fee
    by (simp del: hex.simps)
  with s(1) show ?thesis unfolding fee by blast
qed

text \<open>\<open>ChooseTxFromPool\<close> takes at most \<open>limit\<close> transactions, each once, and removes exactly those from
  the pool; it takes fewer only when the pool is empty afterwards. This holds for every order in
  which Go may visit the pool.
\<close>

theorem ChooseTxFromPool_exact:
  assumes "pool_ok pool" "set (ord pool) = fset (fmdom pool)" "distinct (ord pool)"
    and "ChooseTxFromPool ord pool limit = (txs, pool')"
  shows "length txs \<le> limit \<and> distinct (map TID txs) \<and> (\<forall>tx \<in> set txs. fmlookup pool (TID tx) = Some tx) \<and>
    pool' = fmdrop_set (TID ` set txs) pool \<and> (length txs < limit \<longrightarrow> pool' = fmempty)"
proof (cases "pool = fmempty")
  case True
  with assms(4) show ?thesis by (simp add: ChooseTxFromPool_def)
next
  case False
  then have "choose_loop limit (ord pool) [] pool = (txs, pool')" using assms(4) by (simp add: ChooseTxFromPool_def)
  from choose_loop_spec [OF assms(1,3) this] have sp: "distinct (map TID txs)" "pool' = fmdrop_set (TID ` set txs) pool"
    "\<forall>tx \<in> set txs. fmlookup pool (TID tx) = Some tx" "length txs \<le> limit"
    "length txs < limit \<Longrightarrow> \<forall>k \<in> set (ord pool). fmlookup pool' k = None"
    by auto
  have "pool' = fmempty" if "length txs < limit"
  proof (rule fmap_ext)
    fix k
    show "fmlookup pool' k = fmlookup fmempty k"
      using sp(5) [OF that] assms(2) by (cases "k |\<in>| fmdom pool") (auto simp: sp(2) fmdom_notD)
  qed
  with sp show ?thesis by blast
qed

theorem ChooseTxFromPool_exact_witness:
  "let p = fmupd (11 :: int) sample_stake (fmupd 12 sample_revoke fmempty) in
   ChooseTxFromPool sorted_keys p 1 = ([sample_stake], fmupd 12 sample_revoke fmempty) \<and>
   fmupd 12 sample_revoke fmempty = fmdrop_set (TID ` set [sample_stake]) p"
proof -
  define p where "p = fmupd (11 :: int) sample_stake (fmupd 12 sample_revoke fmempty)"
  have tid: "TID sample_stake = 11" "TID sample_revoke = 12" by (simp_all add: sample_stake_def sample_revoke_def)
  have "sorted_keys p = [11, 12]" by (simp add: p_def sorted_keys_def sorted_list_of_fset.rep_eq)
  moreover have "fmdrop 11 p = fmupd 12 sample_revoke fmempty" by (rule fmap_ext) (simp add: p_def)
  ultimately have c: "ChooseTxFromPool sorted_keys p 1 = ([sample_stake], fmupd 12 sample_revoke fmempty)"
    by (simp add: ChooseTxFromPool_def tid) (simp add: p_def tid)
  have "pool_ok p" by (auto simp: pool_ok_def p_def tid split: if_split_asm)
  from ChooseTxFromPool_exact [OF this set_sorted_keys distinct_sorted_keys c] c show ?thesis
    unfolding p_def [symmetric] Let_def by blast
qed

subsection \<open>Accepted blocks\<close>

abbreviation sample_validate :: "Block \<Rightarrow> panic + string fset IndexOverlay vb_result option" where
  "sample_validate b \<equiv> ValidateBlock sample_crypto sample_codec [[1, 2, 3, 4]] (IndexOverlayOps sample_bloom sorted_keys) b
     (Some zero_Block) [7, 7] sample_ledger (NewIndexOverlay sample_im) None 10 sample_leader_stake NewCommitStore"

lemma sample_block_accepted:
  obtains b r where "sample_validate b = Inr (Some r)" "Transactions b = [sample_stake]"
proof -
  let ?I = "IndexOverlayOps sample_bloom sorted_keys"
  have slot: "SlotNumber zero_Block < 10" by (simp add: zero_Block_def)
  have sup: "ledger_supply sample_ledger < 2 ^ 64" unfolding sample_ledger_supply by simp
  have pur: "purge_check None (next_block zero_Block 10 [7, 7]\<lparr>Transactions := [sample_stake]\<rparr>)" by (simp add: purge_check_def)
  have ty: "\<forall>tx \<in> set [sample_stake]. keyed tx \<longrightarrow> 4 \<le> length (sl (OwnerKey tx))"
    "\<forall>tx \<in> set [sample_stake]. TxType tx \<noteq> EQUIVOCATION_PROOF \<and> TxType tx \<noteq> BUY" by simp_all
  obtain s where s: "SealBlock sample_crypto sample_codec ?I 77 10 [7, 7] [7, 7] 3 10
        zero_Block [sample_stake] sample_ledger sample_leader_stake
        (stagedCommits NewCommitStore (BIndex (next_block zero_Block 10 [7, 7]))) (NewIndexOverlay sample_im) = Inr s"
    "ov_inv sample_bloom (sbIndex s)" "Transactions (sbBlock s) = [sample_stake]"
    "\<And>ov'. CommitOv sample_bloom sorted_keys (sbIndex s) = Inr ov' \<Longrightarrow> sample_validate (sbBlock s) =
       Inr (Some \<lparr>vbLedger = sbLedger s, vbStake = sbStake s, vbCommits = sbCommits s, vbIndex = ov'\<rparr>)"
    by (rule sealed_block_accepted [where cs = NewCommitStore, OF sample_key_ok slot list.distinct(2) sample_block_validates [where cd = sample_codec and spd = 10] refl pur sup
          ov_inv_New [OF sample_im_inv] ty]) blast
  have "inj_on HashDomain (fset (fmdom (journal (sbIndex s))))"
    using sample_seal_index [OF s(1)] by (simp add: NewIndexOverlay_def)
  then obtain ov' where "CommitOv sample_bloom sorted_keys (sbIndex s) = Inr ov'"
    using overlay_commits [OF s(2) enumerates_sorted_keys] by blast
  with s(3,4) that show thesis by blast
qed

text \<open>C10: A block that \<open>ValidateBlock\<close> accepts extends the node's latest block (index, slot, hash), is signed
  by the expected slot leader, carries the Merkle root of its transactions and its own hash, holds the
  purges due in its slot and only transactions that pass \<open>ValidateTransactions\<close>; its stake, queue and
  commit digests are those of the state the node moves to.
\<close>

theorem accepted_block_sound:
  assumes "ValidateBlock cr cd regs I b old key ledger im ec spd st cs = Inr (Some r)"
  shows "\<exists>prev. old = Some prev \<and> i64 (BIndex prev + 1) = BIndex b \<and> SlotNumber prev < SlotNumber b \<and>
    PrevHash b = BHash prev \<and> SlotLeader b = key \<and> VerifyBlock cr key b \<and>
    SetupMerkleTree cd b = Inr (MerkleRootHash b) \<and> BHash b = ComputeHash b \<and> purge_check ec b \<and>
    ValidateTransactions (block_ctx cr cd regs I b ledger im (stagedCommits cs (BIndex b)) spd st) (Transactions b) = Inr True \<and>
    StakeMapHash b = StakeMapDigest (ssMap (vbStake r)) \<and> UnstakeQueueHash b = UnstakeQueueDigest (ssQueue (vbStake r)) \<and>
    CommitStoreHash b = CommitOverlayDigest (vbCommits r)"
  using assms by (rule ValidateBlock_accepts) (simp add: header_check_True)

theorem accepted_block_sound_witness:
  "\<exists>b r. sample_validate b = Inr (Some r) \<and> PrevHash b = BHash zero_Block \<and> BHash b = ComputeHash b \<and>
     StakeMapHash b = StakeMapDigest (ssMap (vbStake r))"
proof -
  obtain b r where b: "sample_validate b = Inr (Some r)" by (rule sample_block_accepted)
  from accepted_block_sound [OF b] b show ?thesis by blast
qed

text \<open>C11: The coins of an accepted block without equivocation proofs: balances, stakes and pending unstakes
  together change only by what the code creates or drops. The fee of a keyless revocation is credited
  to the leader although nobody pays it, and the amounts that mature in this slot leave the queue
  without being credited to anyone.
\<close>

theorem block_coin_accounting:
  assumes "ValidateBlock cr cd regs I b old key ledger im ec spd st cs = Inr (Some r)"
    and "\<forall>tx \<in> set (Transactions b). TxType tx \<noteq> EQUIVOCATION_PROOF"
    and "all_coins ledger st + unpaid_fees (Transactions b) < 2 ^ 64"
  shows "all_coins (vbLedger r) (vbStake r) + matured_coins st (SlotNumber b) =
    all_coins ledger st + unpaid_fees (Transactions b)"
  using assms by (rule block_coins)

theorem block_coin_accounting_witness:
  "\<exists>b r. sample_validate b = Inr (Some r) \<and>
     all_coins (vbLedger r) (vbStake r) + matured_coins sample_leader_stake (SlotNumber b) = 1000"
proof -
  obtain b r where b: "sample_validate b = Inr (Some r)" "Transactions b = [sample_stake]" by (rule sample_block_accepted)
  have "unpaid_fees [sample_stake] = 0" by (simp add: unpaid_fees_def)
  moreover have "all_coins sample_ledger sample_leader_stake = 1000"
    unfolding all_coins_def sample_ledger_supply
    by (simp add: stake_coins_def sample_leader_stake_def stake_supply_def NewStakeMap_def queue_supply_def
        NewUnstakeQueue_def pending_of_def)
  ultimately have "all_coins (vbLedger r) (vbStake r) + matured_coins sample_leader_stake (SlotNumber b) = 1000"
    using block_coin_accounting [OF b(1)] unfolding b(2) by simp
  with b(1) show ?thesis by blast
qed

end
