(* ===== verification/Chain.thy ===== *)
theory Chain
  imports Block
begin

text \<open>
  \<^verbatim>\<open>internal/blockchain/blockchain.go\<close>: the chain of blocks in its database. The bolt package is a
  record of what the code uses of a bucket: a fresh bucket, \<^verbatim>\<open>Get\<close> (\<open>None\<close> for nil) and \<^verbatim>\<open>Put\<close>
  (\<open>None\<close> for an error); \<open>bolt_ok\<close> is the documented behaviour relied on. A loop over the iterator ends
  at a block of index 0; on a broken chain it need not end, so these loops are
  \<^theory_text>\<open>partial_function\<close>s, with \<open>None\<close> for a run that never returns. A \<^verbatim>\<open>Put\<close> succeeds within
  the documented sizes of keys and values. Opening and closing the
  database files is not modelled.
\<close>

record 'd bolt =
  boltNew :: 'd
  boltGet :: "'d \<Rightarrow> bytes \<Rightarrow> bytes option"
  boltPut :: "'d \<Rightarrow> bytes \<Rightarrow> bytes \<Rightarrow> 'd option"

record 'd Blockchain =
  tip :: bytes
  blocks :: 'd
  spent_txs :: 'd

definition last_key :: bytes where
  "last_key = bytes_of_string ''l''"

definition CreateBlockchain :: "'d bolt \<Rightarrow> 'd Blockchain" where
  "CreateBlockchain D = \<lparr>tip = [], blocks = boltNew D, spent_txs = boltNew D\<rparr>"

definition OpenBlockchain :: "'d bolt \<Rightarrow> 'd \<Rightarrow> 'd \<Rightarrow> 'd Blockchain" where
  "OpenBlockchain D bs spent = \<lparr>tip = sl (boltGet D bs last_key), blocks = bs, spent_txs = spent\<rparr>"

definition put :: "'d bolt \<Rightarrow> 'd \<Rightarrow> bytes \<Rightarrow> bytes \<Rightarrow> panic + 'd" where
  "put D b k v = (case boltPut D b k v of None \<Rightarrow> Inl LogPanic | Some b' \<Rightarrow> Inr b')"

text \<open>The last block as the tip comparison reads it: \<open>None\<close> when there is none to compare with.\<close>

definition last_block :: "'d bolt \<Rightarrow> codec \<Rightarrow> 'd \<Rightarrow> panic + Block option" where
  "last_block D cd b =
     (case boltGet D b last_key of
        None \<Rightarrow> Inr None
      | Some lastHash \<Rightarrow>
          (case boltGet D b lastHash of
             None \<Rightarrow> Inr None
           | Some lastBlockData \<Rightarrow> bindR (DeserializeBlock cd lastBlockData) (\<lambda>lastBlock. Inr (Some lastBlock))))"

definition AddBlock :: "'d bolt \<Rightarrow> codec \<Rightarrow> 'd Blockchain \<Rightarrow> Block \<Rightarrow> panic + 'd Blockchain" where
  "AddBlock D cd bc block =
     (case boltGet D (blocks bc) (BHash block) of
        Some _ \<Rightarrow> Inr bc
      | None \<Rightarrow>
          bindR (put D (blocks bc) (BHash block) (gobBlock cd block)) (\<lambda>b.
          bindR (last_block D cd b) (\<lambda>last.
          if (case last of
                None \<Rightarrow> False
              | Some lastBlock \<Rightarrow> PrevHash block \<noteq> BHash lastBlock \<or> BIndex block \<noteq> i64 (BIndex lastBlock + 1))
            then Inr (bc\<lparr>blocks := b\<rparr>)
          else
            bindR (put D b last_key (BHash block)) (\<lambda>b.
              Inr (bc\<lparr>blocks := b, tip := BHash block\<rparr>)))))"

text \<open>\<^verbatim>\<open>Next\<close>: the block at the cursor; the cursor moves to its predecessor.\<close>

definition Next :: "'d bolt \<Rightarrow> codec \<Rightarrow> 'd \<Rightarrow> bytes \<Rightarrow> panic + Block \<times> bytes" where
  "Next D cd b currentHash =
     bindR (DeserializeBlock cd (sl (boltGet D b currentHash))) (\<lambda>block. Inr (block, PrevHash block))"

text \<open>
  Every walk from the tip has the same shape: a step on each block that may stop with a result, and a
  result for a walk that reaches the genesis block.
\<close>

partial_function (option) walk ::
    "'d bolt \<Rightarrow> codec \<Rightarrow> 'd \<Rightarrow> ('a \<Rightarrow> Block \<Rightarrow> 'r + 'a) \<Rightarrow> ('a \<Rightarrow> 'r) \<Rightarrow> bytes \<Rightarrow> 'a \<Rightarrow> (panic + 'r) option" where
  "walk D cd b visit finish h acc =
     (case Next D cd b h of
        Inl p \<Rightarrow> Some (Inl p)
      | Inr (block, prev) \<Rightarrow>
          (case visit acc block of
             Inl r \<Rightarrow> Some (Inr r)
           | Inr acc \<Rightarrow>
               if BIndex block = 0 then Some (Inr (finish acc))
               else walk D cd b visit finish prev acc))"

declare walk.simps [code]

fun find_tx :: "int \<Rightarrow> Transaction list \<Rightarrow> Transaction option" where
  "find_tx tid [] = None"
| "find_tx tid (tx # txs) = (if TID tx = tid then Some tx else find_tx tid txs)"

definition FindTransaction ::
    "'d bolt \<Rightarrow> codec \<Rightarrow> 'd Blockchain \<Rightarrow> int \<Rightarrow> (panic + Transaction option) option" where
  "FindTransaction D cd bc tid =
     walk D cd (blocks bc) (\<lambda>acc block. case find_tx tid (Transactions block) of
         Some tx \<Rightarrow> Inl (Some tx) | None \<Rightarrow> Inr acc) (\<lambda>_. None) (tip bc) ()"

definition GetBestHeight :: "'d bolt \<Rightarrow> codec \<Rightarrow> 'd Blockchain \<Rightarrow> panic + int" where
  "GetBestHeight D cd bc =
     (let lastHash = sl (boltGet D (blocks bc) last_key);
          blockData = sl (boltGet D (blocks bc) lastHash)
      in bindR (DeserializeBlock cd blockData) (\<lambda>lastBlock. Inr (BIndex lastBlock)))"

definition GetBlock :: "'d bolt \<Rightarrow> codec \<Rightarrow> 'd Blockchain \<Rightarrow> bytes \<Rightarrow> panic + Block option" where
  "GetBlock D cd bc blockHash =
     (case boltGet D (blocks bc) blockHash of
        None \<Rightarrow> Inr None
      | Some blockData \<Rightarrow> bindR (DeserializeBlock cd blockData) (\<lambda>block. Inr (Some block)))"

definition GetBlockHashes :: "'d bolt \<Rightarrow> codec \<Rightarrow> 'd Blockchain \<Rightarrow> (panic + bytes list) option" where
  "GetBlockHashes D cd bc =
     walk D cd (blocks bc) (\<lambda>hs block. Inr (hs @ [BHash block])) (\<lambda>hs. hs) (tip bc) []"

definition GetLatestBlock :: "'d bolt \<Rightarrow> codec \<Rightarrow> 'd Blockchain \<Rightarrow> panic + Block option" where
  "GetLatestBlock D cd bc = last_block D cd (blocks bc)"

definition GetBlocksFrom :: "'d bolt \<Rightarrow> codec \<Rightarrow> 'd Blockchain \<Rightarrow> int \<Rightarrow> (panic + Block list) option" where
  "GetBlocksFrom D cd bc startHeight =
     walk D cd (blocks bc) (\<lambda>bs block. Inr (if BIndex block \<ge> startHeight then block # bs else bs)) (\<lambda>bs. bs) (tip bc) []"

definition MarkAsSpentDB :: "'d bolt \<Rightarrow> 'd Blockchain \<Rightarrow> int \<Rightarrow> 'd Blockchain option" where
  "MarkAsSpentDB D bc txID =
     map_option (\<lambda>s. bc\<lparr>spent_txs := s\<rparr>) (boltPut D (spent_txs bc) (IntToByteArr txID) [1])"

definition IsSpentDB :: "'d bolt \<Rightarrow> 'd Blockchain \<Rightarrow> int \<Rightarrow> bool" where
  "IsSpentDB D bc txID \<longleftrightarrow> boltGet D (spent_txs bc) (IntToByteArr txID) \<noteq> None"

definition GetBlockByIndex :: "'d bolt \<Rightarrow> codec \<Rightarrow> 'd Blockchain \<Rightarrow> int64 \<Rightarrow> (panic + Block option) option" where
  "GetBlockByIndex D cd bc index =
     walk D cd (blocks bc) (\<lambda>acc block. if BIndex block = index then Inl (Some block) else Inr acc) (\<lambda>_. None) (tip bc) ()"

text \<open>\<^verbatim>\<open>ValidateRedemption\<close> of \<^verbatim>\<open>transaction.go\<close>, which reads the stored chain.\<close>

definition redemption_ok :: "Transaction \<Rightarrow> Transaction \<Rightarrow> int64 \<Rightarrow> int64 \<Rightarrow> bool" where
  "redemption_ok tx prevTx currentSlot slotsPerDay =
     (if DomainName prevTx \<noteq> DomainName tx then False
      else if sl (OwnerKey prevTx) \<noteq> sl (OwnerKey tx) then False
      else
        (let phase = GetDomainPhase currentSlot (ExpirySlot prevTx) slotsPerDay in
         if TxType tx = UPDATE \<and> phase \<noteq> ''active'' then False
         else if TxType tx = RENEW \<and> phase = ''purged'' then False
         else if TxType tx = REVOKE \<and> phase = ''purged'' \<and> TxSignature tx \<noteq> None then False
         else True))"

definition ValidateRedemption ::
    "'d bolt \<Rightarrow> codec \<Rightarrow> Transaction \<Rightarrow> 'd Blockchain \<Rightarrow> int64 \<Rightarrow> int64 \<Rightarrow> (panic + bool) option" where
  "ValidateRedemption D cd tx bc currentSlot slotsPerDay =
     (if TxType tx = REGISTER then Some (Inr True)
      else if RedeemsTxID tx = 0 then Some (Inr False)
      else if IsSpentDB D bc (RedeemsTxID tx) then Some (Inr False)
      else
        map_option (\<lambda>found. bindR found (\<lambda>prev.
          case prev of
            None \<Rightarrow> Inr False
          | Some prevTx \<Rightarrow> Inr (redemption_ok tx prevTx currentSlot slotsPerDay)))
          (FindTransaction D cd bc (RedeemsTxID tx)))"

subsection \<open>The stored chain\<close>

definition bolt_ok :: "'d bolt \<Rightarrow> bool" where
  "bolt_ok D \<longleftrightarrow> (\<forall>k. boltGet D (boltNew D) k = None) \<and>
     (\<forall>b k v. k \<noteq> [] \<and> length k \<le> 32768 \<and> length v \<le> 2147483646 \<longrightarrow>
        (\<exists>b'. boltPut D b k v = Some b' \<and> (\<forall>j. boltGet D b' j = (if j = k then Some v else boltGet D b j))))"

text \<open>A block that survives encoding and fits into the database.\<close>

definition gob_ok :: "codec \<Rightarrow> Block \<Rightarrow> bool" where
  "gob_ok cd b \<longleftrightarrow> gobBlockDec cd (gobBlock cd b) = Some b \<and> length (gobBlock cd b) \<le> 2147483646"

text \<open>The blocks from the tip down to the genesis block, each the successor of the next.\<close>

fun linked :: "Block list \<Rightarrow> bool" where
  "linked [] = False"
| "linked [g] = (BIndex g = 0)"
| "linked (b # c # bs) = (BIndex b \<noteq> 0 \<and> BIndex b = i64 (BIndex c + 1) \<and> PrevHash b = BHash c \<and> linked (c # bs))"

definition stored :: "'d bolt \<Rightarrow> codec \<Rightarrow> 'd \<Rightarrow> Block \<Rightarrow> bool" where
  "stored D cd d b \<longleftrightarrow> boltGet D d (BHash b) = Some (gobBlock cd b) \<and> gob_ok cd b \<and> length (BHash b) = 32"

definition chain :: "'d bolt \<Rightarrow> codec \<Rightarrow> 'd Blockchain \<Rightarrow> Block list \<Rightarrow> bool" where
  "chain D cd bc bs \<longleftrightarrow> linked bs \<and> tip bc = BHash (hd bs) \<and> boltGet D (blocks bc) last_key = Some (tip bc) \<and>
     (\<forall>b \<in> set bs. stored D cd (blocks bc) b)"

lemma linked_nonempty [simp]: "linked bs \<Longrightarrow> bs \<noteq> []"
  by (cases bs) auto

lemma last_key_length [simp]: "length last_key = 1"
  by (simp add: last_key_def)

lemma stored_key: "stored D cd d b \<Longrightarrow> BHash b \<noteq> last_key"
  by (auto simp: stored_def)

lemma put_ok:
  assumes "bolt_ok D" "k \<noteq> []" "length k \<le> 32768" "length v \<le> 2147483646"
  obtains d' where "put D d k v = Inr d'" "\<forall>j. boltGet D d' j = (if j = k then Some v else boltGet D d j)"
proof -
  obtain d' where "boltPut D d k v = Some d'" "\<forall>j. boltGet D d' j = (if j = k then Some v else boltGet D d j)"
    using assms unfolding bolt_ok_def by blast
  then show thesis by (intro that [of d']) (simp_all add: put_def)
qed

lemma last_block_chain:
  assumes "boltGet D d last_key = Some (BHash b)" "stored D cd d b"
  shows "last_block D cd d = Inr (Some b)"
  using assms by (simp add: last_block_def stored_def gob_ok_def DeserializeBlock_def)

lemma Next_stored: "stored D cd d b \<Longrightarrow> Next D cd d (BHash b) = Inr (b, PrevHash b)"
  by (simp add: Next_def stored_def gob_ok_def DeserializeBlock_def)

text \<open>A walk over a stored chain visits its blocks from the tip and returns.\<close>

fun visit_all :: "('a \<Rightarrow> Block \<Rightarrow> 'r + 'a) \<Rightarrow> ('a \<Rightarrow> 'r) \<Rightarrow> 'a \<Rightarrow> Block list \<Rightarrow> 'r" where
  "visit_all visit finish acc [] = finish acc"
| "visit_all visit finish acc (b # bs) = (case visit acc b of Inl r \<Rightarrow> r | Inr acc \<Rightarrow> visit_all visit finish acc bs)"

lemma walk_chain:
  assumes "linked bs" "\<forall>b \<in> set bs. stored D cd d b"
  shows "walk D cd d visit finish (BHash (hd bs)) acc = Some (Inr (visit_all visit finish acc bs))"
  using assms
proof (induction bs arbitrary: acc rule: linked.induct)
  case (2 g)
  then show ?case by (subst walk.simps) (simp add: Next_stored split: sum.split)
next
  case (3 b c bs)
  then show ?case by (subst walk.simps) (simp add: Next_stored split: sum.split)
qed simp

lemma chain_walk:
  "chain D cd bc bs \<Longrightarrow> walk D cd (blocks bc) visit finish (tip bc) acc = Some (Inr (visit_all visit finish acc bs))"
  by (simp add: chain_def walk_chain)

subsection \<open>Appending\<close>

definition extends :: "Block \<Rightarrow> Block \<Rightarrow> bool" where
  "extends b prev \<longleftrightarrow> PrevHash b = BHash prev \<and> BIndex b = i64 (BIndex prev + 1)"

lemma AddBlock_chain:
  assumes D: "bolt_ok D" and bc: "chain D cd bc bs" and b: "gob_ok cd b" "length (BHash b) = 32" "BIndex b \<noteq> 0"
  shows "\<exists>bc'. AddBlock D cd bc b = Inr bc' \<and>
    chain D cd bc' (if boltGet D (blocks bc) (BHash b) = None \<and> extends b (hd bs) then b # bs else bs) \<and>
    spent_txs bc' = spent_txs bc"
proof (cases "boltGet D (blocks bc) (BHash b)")
  case (Some x)
  with bc show ?thesis by (simp add: AddBlock_def)
next
  case None
  have top: "hd bs \<in> set bs" "stored D cd (blocks bc) (hd bs)" using bc by (simp_all add: chain_def)
  have "BHash b \<noteq> []" using b(2) by auto
  then obtain d where d: "put D (blocks bc) (BHash b) (gobBlock cd b) = Inr d"
    "\<forall>j. boltGet D d j = (if j = BHash b then Some (gobBlock cd b) else boltGet D (blocks bc) j)"
    using put_ok [OF D, of "BHash b" "gobBlock cd b" "blocks bc"] b by (auto simp: gob_ok_def)
  have keep: "stored D cd d c" if "stored D cd (blocks bc) c" for c
    using that d(2) None by (auto simp: stored_def)
  have new: "stored D cd d b" using d(2) b by (simp add: stored_def)
  have nl: "BHash b \<noteq> last_key" using b(2) by (metis last_key_length numeral_eq_one_iff verit_eq_simplify(11))
  have "boltGet D d last_key = Some (BHash (hd bs))" using bc d(2) nl by (simp add: chain_def)
  with keep [OF top(2)] have last: "last_block D cd d = Inr (Some (hd bs))" by (intro last_block_chain)
  show ?thesis
  proof (cases "extends b (hd bs)")
    case True
    have "last_key \<noteq> []" by (metis last_key_length list.size(3) zero_neq_one)
    then obtain e where e: "put D d last_key (BHash b) = Inr e"
      "\<forall>j. boltGet D e j = (if j = last_key then Some (BHash b) else boltGet D d j)"
      using put_ok [OF D, of last_key "BHash b" d] b by auto
    have "stored D cd e c" if "stored D cd d c" for c
      using that e(2) stored_key [OF that] by (simp add: stored_def)
    with keep new bc have "\<forall>c \<in> set (b # bs). stored D cd e c" by (auto simp: chain_def)
    moreover have "linked (b # bs)"
      using bc True b(3) by (cases bs) (auto simp: chain_def extends_def)
    ultimately have "chain D cd (bc\<lparr>blocks := e, tip := BHash b\<rparr>) (b # bs)"
      using e(2) by (simp add: chain_def)
    with None d(1) last e(1) True show ?thesis by (simp add: AddBlock_def extends_def)
  next
    case False
    have "chain D cd (bc\<lparr>blocks := d\<rparr>) bs" using bc keep d(2) nl by (simp add: chain_def)
    with None d(1) last False show ?thesis by (auto simp: AddBlock_def extends_def)
  qed
qed

lemma visit_all_find:
  "visit_all (\<lambda>acc b. if P b then Inl (Some b) else Inr acc) (\<lambda>_. None) acc bs = find P bs"
  by (induction bs) simp_all

lemma visit_all_prepend:
  "visit_all (\<lambda>bs b. Inr (if P b then b # bs else bs)) (\<lambda>bs. bs) acc cs = rev (filter P cs) @ acc"
  by (induction cs arbitrary: acc) simp_all

lemma visit_all_hashes: "visit_all (\<lambda>hs b. Inr (hs @ [BHash b])) (\<lambda>hs. hs) acc cs = acc @ map BHash cs"
  by (induction cs arbitrary: acc) simp_all

lemma find_tx_append: "find_tx t (xs @ ys) = (case find_tx t xs of Some x \<Rightarrow> Some x | None \<Rightarrow> find_tx t ys)"
  by (induction xs) simp_all

lemma visit_all_tx:
  "visit_all (\<lambda>acc b. case find_tx t (Transactions b) of Some tx \<Rightarrow> Inl (Some tx) | None \<Rightarrow> Inr acc) (\<lambda>_. None) acc bs =
   find_tx t (concat (map Transactions bs))"
  by (induction bs) (simp_all add: find_tx_append split: option.split)

subsection \<open>Properties\<close>

text \<open>C31: \<open>AddBlock\<close> keeps the stored chain a chain: a new block that extends the tip is appended, any other
  block, including one already stored, leaves the chain from the tip to the genesis block as it was,
  and no call panics, given the documented behaviour of the database and an encoding that can be read
  back. The block is not a genesis block (its index is not 0) and its hash has 32 bytes.\<close>

theorem AddBlock_extends_chain:
  assumes "bolt_ok D" "chain D cd bc bs" "gob_ok cd b" "length (BHash b) = 32" "BIndex b \<noteq> 0"
  shows "\<exists>bc'. AddBlock D cd bc b = Inr bc' \<and>
    chain D cd bc' (if boltGet D (blocks bc) (BHash b) = None \<and> extends b (hd bs) then b # bs else bs)"
  using AddBlock_chain [OF assms] by blast

text \<open>A database held in a finite map, and a chain of a genesis block, for the examples.\<close>

definition sample_bolt :: "(bytes, bytes) fmap bolt" where
  "sample_bolt = \<lparr>boltNew = fmempty, boltGet = fmlookup, boltPut = (\<lambda>m k v. if k = [] then None else Some (fmupd k v m))\<rparr>"

lemma sample_bolt_ok: "bolt_ok sample_bolt"
  by (auto simp: bolt_ok_def sample_bolt_def)

definition sample_genesis :: Block where
  "sample_genesis = zero_Block\<lparr>BHash := replicate 32 5\<rparr>"

definition sample_next :: Block where
  "sample_next = zero_Block\<lparr>BIndex := 1, BHash := replicate 32 6, PrevHash := replicate 32 5\<rparr>"

definition sample_block_codec :: codec where
  "sample_block_codec = sample_codec\<lparr>gobBlock := (\<lambda>b. if b = sample_next then [1] else [0]),
     gobBlockDec := (\<lambda>d. if d = [1] then Some sample_next else if d = [0] then Some sample_genesis else None)\<rparr>"

definition sample_chain :: "(bytes, bytes) fmap Blockchain" where
  "sample_chain = \<lparr>tip = replicate 32 5, blocks = fmupd last_key (replicate 32 5) (fmupd (replicate 32 5) [0] fmempty),
     spent_txs = fmempty\<rparr>"

lemma sample_gob:
  "gob_ok sample_block_codec sample_genesis" "gob_ok sample_block_codec sample_next"
  by (simp_all add: gob_ok_def sample_block_codec_def)

lemma last_key_short: "last_key \<noteq> replicate 32 x"
  by (metis last_key_length length_replicate numeral_eq_one_iff verit_eq_simplify(11))

lemma sample_chain_ok: "chain sample_bolt sample_block_codec sample_chain [sample_genesis]"
proof -
  note last_key_short [of 5]
  moreover have "sample_genesis \<noteq> sample_next" by (simp add: sample_genesis_def sample_next_def zero_Block_def)
  ultimately show ?thesis
    using sample_gob(1)
    by (simp add: chain_def stored_def sample_bolt_def sample_chain_def sample_block_codec_def)
      (simp add: sample_genesis_def zero_Block_def)
qed

theorem AddBlock_extends_chain_witness:
  "\<exists>bc'. AddBlock sample_bolt sample_block_codec sample_chain sample_next = Inr bc' \<and>
     chain sample_bolt sample_block_codec bc' [sample_next, sample_genesis]"
proof -
  have "boltGet sample_bolt (blocks sample_chain) (BHash sample_next) = None"
    using last_key_short [of 6] by (simp add: sample_bolt_def sample_chain_def sample_next_def)
  moreover have "extends sample_next sample_genesis"
    by (simp add: extends_def sample_next_def sample_genesis_def zero_Block_def i64_def)
  ultimately show ?thesis
    using AddBlock_extends_chain [OF sample_bolt_ok sample_chain_ok sample_gob(2)]
    by (simp add: sample_next_def)
qed

lemma chain_latest: "chain D cd bc bs \<Longrightarrow> GetLatestBlock D cd bc = Inr (Some (hd bs))"
  by (simp add: chain_def GetLatestBlock_def last_block_chain)

lemma chain_by_index:
  "chain D cd bc bs \<Longrightarrow> GetBlockByIndex D cd bc i = Some (Inr (find (\<lambda>b. BIndex b = i) bs))"
  by (simp add: GetBlockByIndex_def chain_walk visit_all_find)

text \<open>In a stored chain the block at position \<open>i\<close> from the genesis block has index \<open>i\<close>, and different blocks
  have different hashes.\<close>

lemma linked_index:
  assumes "linked bs" "is_i64 (int (length bs))" "i < length bs"
  shows "BIndex (rev bs ! i) = int i"
  using assms
proof (induction bs arbitrary: i rule: linked.induct)
  case (3 b c bs)
  define xs where "xs = rev (c # bs)"
  have len: "length xs = Suc (length bs)" by (simp add: xs_def)
  have ih: "BIndex (xs ! j) = int j" if "j < length xs" for j
    using "3.IH" [of j] "3.prems" that by (simp add: is_i64_def len xs_def)
  have "xs ! length bs = c" by (simp add: xs_def nth_append)
  then have "BIndex c = int (length bs)" using ih [of "length bs"] by (simp add: len)
  moreover have "is_i64 (int (length bs) + 1)" using "3.prems"(2) by (simp add: is_i64_def)
  ultimately have "BIndex b = int (length xs)" using "3.prems"(1) by (simp add: len)
  moreover have "rev (b # c # bs) = xs @ [b]" by (simp add: xs_def)
  ultimately show ?case using ih [of i] "3.prems"(3) len by (auto simp: nth_append less_Suc_eq)
qed auto

lemma stored_get: "stored D cd d b \<Longrightarrow> boltGet D d (BHash b) = Some (gobBlock cd b)"
  unfolding stored_def by (elim conjE)

lemma stored_decodes: "stored D cd d b \<Longrightarrow> gobBlockDec cd (gobBlock cd b) = Some b"
  unfolding stored_def gob_ok_def by (elim conjE)

lemma stored_hash:
  assumes "stored D cd d b" "stored D cd d c" "BHash b = BHash c"
  shows "b = c"
proof -
  have "Some (gobBlock cd b) = Some (gobBlock cd c)"
    using stored_get [OF assms(1)] stored_get [OF assms(2)] unfolding assms(3) by (rule trans [OF sym])
  then have "gobBlock cd b = gobBlock cd c" by (rule option.inject [THEN iffD1])
  then have "Some b = Some c" using stored_decodes [OF assms(1)] stored_decodes [OF assms(2)] by (metis (no_types))
  then show ?thesis by (rule option.inject [THEN iffD1])
qed

lemma chain_hashes:
  assumes "chain D cd bc bs" "is_i64 (int (length bs))" "i < length bs" "j < length bs" "BHash (rev bs ! i) = BHash (rev bs ! j)"
  shows "i = j"
proof -
  have l: "linked bs" and s: "\<And>b. b \<in> set bs \<Longrightarrow> stored D cd (blocks bc) b" using assms(1) by (simp_all add: chain_def)
  have "rev bs ! i \<in> set bs" "rev bs ! j \<in> set bs"
    using nth_mem [of i "rev bs"] nth_mem [of j "rev bs"] assms(3,4) by simp_all
  then have "rev bs ! i = rev bs ! j" by (intro stored_hash [OF s s assms(5)])
  then have "BIndex (rev bs ! i) = BIndex (rev bs ! j)" by (rule arg_cong)
  then show ?thesis using linked_index [OF l assms(2,3)] linked_index [OF l assms(2,4)] by simp
qed

lemma find_index:
  assumes "linked bs" "is_i64 (int (length bs))" "i < length bs"
  shows "find (\<lambda>b. BIndex b = int i) bs = Some (rev bs ! i)"
proof (cases "find (\<lambda>b. BIndex b = int i) bs")
  case None
  then show ?thesis using linked_index [OF assms] assms(3) nth_mem [of i "rev bs"] by (auto simp: find_None_iff)
next
  case (Some b)
  then obtain j where j: "j < length bs" "b = bs ! j" "BIndex b = int i" by (auto simp: find_Some_iff)
  then have "b = rev bs ! (length bs - Suc j)" by (simp add: rev_nth)
  moreover from this j(1,3) have "length bs - Suc j = i" using linked_index [OF assms(1,2), of "length bs - Suc j"] by fastforce
  ultimately show ?thesis using Some by simp
qed

lemma linked_prev: "linked bs \<Longrightarrow> Suc i < length bs \<Longrightarrow> PrevHash (rev bs ! Suc i) = BHash (rev bs ! i)"
proof (induction bs arbitrary: i rule: linked.induct)
  case (3 b c bs)
  define xs where "xs = rev (c # bs)"
  have len: "length xs = Suc (length bs)" "xs ! length bs = c" by (simp_all add: xs_def nth_append)
  have "rev (b # c # bs) = xs @ [b]" by (simp add: xs_def)
  moreover have "PrevHash (xs ! Suc i) = BHash (xs ! i)" if "Suc i < length xs" using "3.IH" [of i] "3.prems"(1) that by (simp add: xs_def)
  moreover have "PrevHash b = BHash c" using "3.prems"(1) by simp
  ultimately show ?case using "3.prems"(2) len by (auto simp: nth_append less_Suc_eq)
qed auto

lemma chain_top:
  assumes "chain D cd bc bs" "is_i64 (int (length bs))"
  shows "BIndex (hd bs) = int (length bs) - 1" "0 < length bs"
proof -
  have l: "linked bs" using assms(1) by (simp add: chain_def)
  then obtain b cs where bs: "bs = b # cs" by (cases bs) auto
  have "rev bs ! length cs = b" by (simp add: bs nth_append)
  then show "BIndex (hd bs) = int (length bs) - 1" using linked_index [OF l assms(2), of "length cs"] by (simp add: bs)
  show "0 < length bs" by (simp add: bs)
qed

text \<open>C32: on a stored chain every reader ends and gives what the list of its blocks gives: the latest
  block, the hashes from the tip, the block of an index, the blocks from a height in ascending order,
  and the first transaction with an identifier counting from the tip.\<close>

theorem chain_readers:
  assumes "chain D cd bc bs"
  shows "GetLatestBlock D cd bc = Inr (Some (hd bs)) \<and> GetBestHeight D cd bc = Inr (BIndex (hd bs)) \<and>
    GetBlockHashes D cd bc = Some (Inr (map BHash bs)) \<and>
    GetBlockByIndex D cd bc i = Some (Inr (find (\<lambda>b. BIndex b = i) bs)) \<and>
    GetBlocksFrom D cd bc i = Some (Inr (rev (filter (\<lambda>b. BIndex b \<ge> i) bs))) \<and>
    FindTransaction D cd bc t = Some (Inr (find_tx t (concat (map Transactions bs))))"
proof -
  have top: "boltGet D (blocks bc) last_key = Some (BHash (hd bs))" "stored D cd (blocks bc) (hd bs)"
    using assms by (simp_all add: chain_def)
  then have "GetBestHeight D cd bc = Inr (BIndex (hd bs))"
    by (simp add: GetBestHeight_def stored_def gob_ok_def DeserializeBlock_def)
  then show ?thesis
    by (simp add: chain_latest [OF assms] chain_by_index [OF assms] GetBlockHashes_def GetBlocksFrom_def FindTransaction_def chain_walk [OF assms]
        visit_all_prepend visit_all_hashes visit_all_tx)
qed

theorem chain_readers_witness:
  "GetLatestBlock sample_bolt sample_block_codec sample_chain = Inr (Some sample_genesis) \<and>
   GetBlockByIndex sample_bolt sample_block_codec sample_chain 3 = Some (Inr None)"
  using chain_readers [OF sample_chain_ok, of 3] by (simp add: sample_genesis_def zero_Block_def)

end
