(* ===== verification/Consensus.thy ===== *)
theory Consensus
  imports Stake
begin

text \<open>
  \<^verbatim>\<open>internal/consensus/drg.go\<close> and \<^verbatim>\<open>pos.go\<close>: the commit-reveal randomness and the election of the
  slot leader. Floating-point numbers are a record of the operations used, so that every result
  below holds for IEEE arithmetic with its rounding. The order in which Go visits a map is the
  argument \<open>ord\<close>. What \<^verbatim>\<open>rand.Read\<close> gives is an argument; \<open>None\<close> is its error.
\<close>

unbundle bit_operations_syntax

definition DRGSecretBytes :: nat where "DRGSecretBytes = 32"

record SecretValues =
  svU :: slice
  svR :: slice
  svCommitment :: slice

record RevealData =
  rdU :: slice
  rdR :: slice

definition CommitmentPhase :: "bytes option \<Rightarrow> bytes option \<Rightarrow> bytes \<Rightarrow> SecretValues option" where
  "CommitmentPhase randU randR senderPubKey =
     (case randU of
        None \<Rightarrow> None
      | Some u \<Rightarrow>
          (case randR of
             None \<Rightarrow> None
           | Some r \<Rightarrow> Some \<lparr>svU = Some u, svR = Some r, svCommitment = Some (sha256 (senderPubKey @ r @ u))\<rparr>))"

definition VerifyCommitment :: "bytes \<Rightarrow> SecretValues \<Rightarrow> bool" where
  "VerifyCommitment senderPubKey sv =
     (if length (sl (svR sv)) \<noteq> DRGSecretBytes \<or> length (sl (svU sv)) \<noteq> DRGSecretBytes then False
      else sha256 (senderPubKey @ sl (svR sv) @ sl (svU sv)) = sl (svCommitment sv))"

fun collect_loop ::
    "(string, RevealData) fmap \<Rightarrow> (string, slice) fmap \<Rightarrow> (string, slice) fmap \<Rightarrow> string list
     \<Rightarrow> (string, slice) fmap \<Rightarrow> (string, slice) fmap" where
  "collect_loop reveals commitments pubKeys [] validated = validated"
| "collect_loop reveals commitments pubKeys (sender # rest) validated =
     collect_loop reveals commitments pubKeys rest
       (case (fmlookup commitments sender, fmlookup pubKeys sender) of
          (Some commitment, Some pubKey) \<Rightarrow>
            (let rd = the (fmlookup reveals sender);
                 sv = \<lparr>svU = rdU rd, svR = rdR rd, svCommitment = commitment\<rparr>
             in if VerifyCommitment (sl pubKey) sv then fmupd sender (rdU rd) validated else validated)
        | _ \<Rightarrow> validated)"

definition VerifyAndCollectReveals ::
    "((string, RevealData) fmap \<Rightarrow> string list) \<Rightarrow> (string, RevealData) fmap \<Rightarrow> (string, slice) fmap
     \<Rightarrow> (string, slice) fmap \<Rightarrow> (string, slice) fmap \<times> bool" where
  "VerifyAndCollectReveals ord reveals commitments pubKeys =
     (let validated = collect_loop reveals commitments pubKeys (ord reveals) fmempty
      in (validated, length (sorted_keys validated) > 0))"

text \<open>One round of the exclusive-or: a value of the wrong length is skipped.\<close>

definition xor_u :: "bytes \<Rightarrow> bytes \<Rightarrow> bytes" where
  "xor_u xored u = (if length u = DRGSecretBytes then map2 (XOR) xored u else xored)"

definition xor_all :: "((string, slice) fmap \<Rightarrow> string list) \<Rightarrow> (string, slice) fmap \<Rightarrow> bytes" where
  "xor_all ord us = foldl (\<lambda>x k. xor_u x (sl (the (fmlookup us k)))) (replicate DRGSecretBytes 0) (ord us)"

text \<open>Big-endian value of the first eight bytes.\<close>

definition be64 :: "bytes \<Rightarrow> uint64" where
  "be64 bs = foldl (\<lambda>v b. push_bit 8 v OR ucast b) 0 (take 8 bs)"

record 'r float64 =
  fOfU64 :: "uint64 \<Rightarrow> 'r"
  fOfInt :: "nat \<Rightarrow> 'r"
  fAdd :: "'r \<Rightarrow> 'r \<Rightarrow> 'r"
  fDiv :: "'r \<Rightarrow> 'r \<Rightarrow> 'r"
  fLe :: "'r \<Rightarrow> 'r \<Rightarrow> bool"
  fZero :: 'r
  fOne :: 'r

definition normalize :: "'r float64 \<Rightarrow> uint64 \<Rightarrow> 'r" where
  "normalize F v = fDiv F (fOfU64 F v) (fOfU64 F (- 1))"

definition RecoveryPhase :: "'r float64 \<Rightarrow> ((string, slice) fmap \<Rightarrow> string list) \<Rightarrow> (string, slice) fmap \<Rightarrow> 'r" where
  "RecoveryPhase F ord validatedUs =
     (if length (sorted_keys validatedUs) = 0 then fZero F
      else normalize F (be64 (xor_all ord validatedUs)))"

text \<open>An empty public key makes \<^verbatim>\<open>i%len(pubkey)\<close> divide by zero.\<close>

fun mock_loop :: "bytes list \<Rightarrow> bytes \<Rightarrow> panic + bytes" where
  "mock_loop [] seed = Inr seed"
| "mock_loop (pubkey # rest) seed =
     (if pubkey = [] then Inl DivideByZero
      else mock_loop rest (map2 (XOR) seed (map (\<lambda>i. pubkey ! (i mod length pubkey)) [0..<length seed])))"

definition DRGMockSeed :: "bytes list \<Rightarrow> int64 \<Rightarrow> panic + bytes" where
  "DRGMockSeed validators slot =
     bindR (mock_loop validators (replicate 32 0)) (\<lambda>seed.
       Inr (map2 (XOR) (take 8 seed) (IntToByteArr slot) @ drop 8 seed))"

definition stake_of :: "(string, uint64) fmap \<Rightarrow> bytes \<Rightarrow> uint64" where
  "stake_of stakeData key = (case fmlookup stakeData (hex key) of None \<Rightarrow> 0 | Some s \<Rightarrow> s)"

definition stake_sum :: "bytes list \<Rightarrow> (string, uint64) fmap \<Rightarrow> uint64" where
  "stake_sum registryKeys stakeData = foldl (\<lambda>s key. s + stake_of stakeData key) 0 registryKeys"

definition GetStakes :: "'r float64 \<Rightarrow> bytes list \<Rightarrow> (string, uint64) fmap \<Rightarrow> (string, 'r) fmap" where
  "GetStakes F registryKeys stakeData =
     (let sum = stake_sum registryKeys stakeData in
      if sum = 0 then
        (if length registryKeys = 0 then fmempty
         else foldl (\<lambda>m key. fmupd (hex key) (fDiv F (fOne F) (fOfInt F (length registryKeys))) m) fmempty registryKeys)
      else foldl (\<lambda>m key. fmupd (hex key) (fDiv F (fOfU64 F (stake_of stakeData key)) (fOfU64 F sum)) m) fmempty registryKeys)"

fun cdf_loop :: "'r float64 \<Rightarrow> (string, 'r) fmap \<Rightarrow> bytes list \<Rightarrow> 'r \<Rightarrow> 'r list" where
  "cdf_loop F probs [] cumulative = []"
| "cdf_loop F probs (key # rest) cumulative =
     (let c = fAdd F cumulative (case fmlookup probs (hex key) of None \<Rightarrow> fZero F | Some p \<Rightarrow> p)
      in c # cdf_loop F probs rest c)"

fun cdf_walk :: "'r float64 \<Rightarrow> 'r \<Rightarrow> bytes list \<Rightarrow> 'r list \<Rightarrow> bytes option" where
  "cdf_walk F seed (key # keys) (c # cdf) = (if fLe F seed c then Some key else cdf_walk F seed keys cdf)"
| "cdf_walk F seed _ _ = None"

definition GetSlotLeaderUtil ::
    "'r float64 \<Rightarrow> ((string, slice) fmap \<Rightarrow> string list) \<Rightarrow> bytes list \<Rightarrow> (string, uint64) fmap
     \<Rightarrow> (string, slice) fmap \<Rightarrow> bytes \<Rightarrow> int64 \<Rightarrow> panic + string \<times> 'r" where
  "GetSlotLeaderUtil F ord registryKeys stakeData epochRandoms prevBlockHash slot =
     (if length registryKeys = 0 then Inr ([], fZero F)
      else
        (let probs = GetStakes F registryKeys stakeData;
             cdf = cdf_loop F probs registryKeys (fZero F)
         in
         bindR (if length (sorted_keys epochRandoms) > 0 then Inr (normalize F (be64 (xor_all ord epochRandoms)))
                else bindR (DRGMockSeed registryKeys slot) (\<lambda>seedBytes. Inr (normalize F (be64 seedBytes)))) (\<lambda>seed.
         case cdf_walk F seed registryKeys cdf of
           Some key \<Rightarrow> Inr (hex key, seed)
         | None \<Rightarrow> Inr (hex (last registryKeys), seed))))"

subsection \<open>The randomness\<close>

text \<open>The orders in which Go may visit a map with string keys.\<close>

definition visits :: "((string, 'v) fmap \<Rightarrow> string list) \<Rightarrow> bool" where
  "visits ord \<longleftrightarrow> (\<forall>m. set (ord m) = fset (fmdom m) \<and> distinct (ord m))"

lemma visits_sorted_keys: "visits sorted_keys"
  by (simp add: visits_def)

lemma visits_mset: "visits ord \<Longrightarrow> visits ord' \<Longrightarrow> mset (ord m) = mset (ord' m)"
  by (metis visits_def set_eq_iff_mset_eq_distinct)

lemma length_sorted_keys_0 [simp]: "sorted_keys m = [] \<longleftrightarrow> m = fmempty"
  by (metis fmap_eq_of_keys list.distinct(1) list.set_cases sorted_keys_empty)

lemma map2_xor_left_commute:
  "length a = length b \<Longrightarrow> length b = length c \<Longrightarrow>
     map2 (XOR) (map2 (XOR) a b) c = map2 (XOR) (map2 (XOR) a c) (b :: bytes)"
  by (rule nth_equalityI) (simp_all add: ac_simps)

lemma length_xor_u [simp]: "length x = 32 \<Longrightarrow> length (xor_u x u) = 32"
  by (simp add: xor_u_def DRGSecretBytes_def)

lemma xor_u_commute: "length x = 32 \<Longrightarrow> xor_u (xor_u x u) v = xor_u (xor_u x v) u"
  by (auto simp: xor_u_def DRGSecretBytes_def map2_xor_left_commute)

lemma xor_u_cancel: "length x = 32 \<Longrightarrow> length u = 32 \<Longrightarrow> xor_u (xor_u x u) u = x"
  by (rule nth_equalityI) (simp_all add: xor_u_def DRGSecretBytes_def xor.assoc)

lemma length_xor_fold [simp]:
  "length x = 32 \<Longrightarrow> length (foldl (\<lambda>x k. xor_u x (g k)) x ks) = 32"
  by (induction ks arbitrary: x) simp_all

lemma xor_fold_step:
  "length x = 32 \<Longrightarrow> foldl (\<lambda>x k. xor_u x (g k)) (xor_u x u) ks = xor_u (foldl (\<lambda>x k. xor_u x (g k)) x ks) u"
  by (induction ks arbitrary: x) (simp_all add: xor_u_commute [where u = u])

lemma xor_fold_remove1:
  "length x = 32 \<Longrightarrow> k \<in> set ks \<Longrightarrow>
     foldl (\<lambda>x k. xor_u x (g k)) x ks = xor_u (foldl (\<lambda>x k. xor_u x (g k)) x (remove1 k ks)) (g k)"
proof (induction ks arbitrary: x)
  case (Cons a ks)
  then show ?case
    using xor_u_commute [of "foldl (\<lambda>x k. xor_u x (g k)) x (remove1 k ks)" "g k" "g a"]
    by (auto simp: xor_fold_step)
qed simp

lemma xor_fold_mset:
  "length x = 32 \<Longrightarrow> mset ks = mset ks' \<Longrightarrow>
     foldl (\<lambda>x k. xor_u x (g k)) x ks = foldl (\<lambda>x k. xor_u x (g k)) x ks'"
proof (induction ks arbitrary: x ks')
  case (Cons k ks)
  from Cons.prems have k: "k \<in> set ks'" and "mset ks = mset (remove1 k ks')"
    by (metis list.set_intros(1) mset_eq_setD, metis mset_remove1 add_mset_remove_trivial mset.simps(2))
  with Cons.IH [of x "remove1 k ks'"] Cons.prems(1) show ?case
    by (simp add: xor_fold_step xor_fold_remove1 [OF _ k])
qed simp

lemma xor_all_order: "visits ord \<Longrightarrow> visits ord' \<Longrightarrow> xor_all ord us = xor_all ord' us"
  unfolding xor_all_def using xor_fold_mset [OF _ visits_mset [of ord ord' us]]
  by (simp add: DRGSecretBytes_def)

lemma length_xor_all [simp]: "length (xor_all ord us) = 32"
  by (simp add: xor_all_def DRGSecretBytes_def)

text \<open>The value with one validator set apart.\<close>

lemma xor_all_fmupd:
  assumes "visits ord"
  shows "xor_all ord (fmupd v (Some u) us) = xor_u (xor_all ord (fmdrop v us)) u"
proof -
  let ?m = "fmupd v (Some u) us" and ?d = "fmdrop v us"
  have "xor_all ord ?m = xor_u (foldl (\<lambda>x k. xor_u x (sl (the (fmlookup ?m k)))) (replicate 32 0) (remove1 v (ord ?m))) u"
    using assms unfolding xor_all_def DRGSecretBytes_def by (subst xor_fold_remove1 [where k = v]) (auto simp: visits_def)
  also have "foldl (\<lambda>x k. xor_u x (sl (the (fmlookup ?m k)))) (replicate 32 0) (remove1 v (ord ?m)) =
      foldl (\<lambda>x k. xor_u x (sl (the (fmlookup ?d k)))) (replicate 32 0) (remove1 v (ord ?m))"
    using assms by (intro foldl_cong) (auto simp: visits_def)
  also have "\<dots> = xor_all ord ?d"
    unfolding xor_all_def DRGSecretBytes_def
    using assms by (intro xor_fold_mset iffD1 [OF set_eq_iff_mset_eq_distinct]) (auto simp: visits_def)
  finally show ?thesis .
qed

text \<open>What the batch check keeps: for every sender the revealed value if and only if it opens the
  sender's commitment.\<close>

definition opened ::
    "(string, RevealData) fmap \<Rightarrow> (string, slice) fmap \<Rightarrow> (string, slice) fmap \<Rightarrow> string \<Rightarrow> slice option" where
  "opened reveals commitments pubKeys s =
     (case (fmlookup reveals s, fmlookup commitments s, fmlookup pubKeys s) of
        (Some rd, Some c, Some pk) \<Rightarrow>
          if VerifyCommitment (sl pk) \<lparr>svU = rdU rd, svR = rdR rd, svCommitment = c\<rparr> then Some (rdU rd) else None
      | _ \<Rightarrow> None)"

lemma opened_SomeE:
  assumes "opened reveals commitments pubKeys s = Some u"
  obtains rd c pk where "fmlookup reveals s = Some rd" "fmlookup commitments s = Some c" "fmlookup pubKeys s = Some pk"
    "u = rdU rd" "VerifyCommitment (sl pk) \<lparr>svU = rdU rd, svR = rdR rd, svCommitment = c\<rparr>"
  using assms by (auto simp: opened_def split: option.splits if_splits)

lemma collect_loop_lookup:
  "set ss \<subseteq> fset (fmdom reveals) \<Longrightarrow>
     fmlookup (collect_loop reveals commitments pubKeys ss validated) s =
     (if s \<in> set ss \<and> opened reveals commitments pubKeys s \<noteq> None
      then opened reveals commitments pubKeys s else fmlookup validated s)"
  by (induction ss arbitrary: validated)
    (auto simp: opened_def Let_def fmlookup_dom_iff split: option.splits)

lemma collect_lookup:
  assumes "visits ord"
  shows "fmlookup (fst (VerifyAndCollectReveals ord reveals commitments pubKeys)) s =
     opened reveals commitments pubKeys s"
proof -
  have "s \<notin> set (ord reveals) \<Longrightarrow> opened reveals commitments pubKeys s = None"
    using assms by (auto simp: visits_def opened_def fmdom_notD)
  with assms show ?thesis
    by (auto simp: VerifyAndCollectReveals_def Let_def collect_loop_lookup visits_def)
qed

lemma collect_order:
  assumes "visits ord" "visits ord'"
  shows "VerifyAndCollectReveals ord reveals commitments pubKeys = VerifyAndCollectReveals ord' reveals commitments pubKeys"
proof -
  have "fst (VerifyAndCollectReveals ord reveals commitments pubKeys) =
      fst (VerifyAndCollectReveals ord' reveals commitments pubKeys)"
    by (rule fmap_ext) (simp add: collect_lookup assms)
  then show ?thesis by (simp add: VerifyAndCollectReveals_def Let_def)
qed

lemma RecoveryPhase_order: "visits ord \<Longrightarrow> visits ord' \<Longrightarrow> RecoveryPhase F ord us = RecoveryPhase F ord' us"
  by (simp add: RecoveryPhase_def xor_all_order [of ord ord'])

lemma length_sha256_open: "VerifyCommitment pk sv \<Longrightarrow> length (sl (svU sv)) = 32 \<and> length (sl (svR sv)) = 32"
  by (simp add: VerifyCommitment_def DRGSecretBytes_def split: if_splits)

text \<open>Two openings of one commitment are the same or a collision of SHA-256.\<close>

lemma commitment_binding:
  assumes "VerifyCommitment pk sv" "VerifyCommitment pk sv'" "sl (svCommitment sv) = sl (svCommitment sv')"
    and "inj_on sha256 {pk @ sl (svR sv) @ sl (svU sv), pk @ sl (svR sv') @ sl (svU sv')}"
  shows "sl (svU sv) = sl (svU sv') \<and> sl (svR sv) = sl (svR sv')"
proof -
  from assms have "pk @ sl (svR sv) @ sl (svU sv) = pk @ sl (svR sv') @ sl (svU sv')"
    by (auto simp: VerifyCommitment_def inj_on_def split: if_splits)
  with length_sha256_open [OF assms(1)] length_sha256_open [OF assms(2)] show ?thesis by simp
qed

subsection \<open>The election\<close>

lemma mock_loop_panics: "(\<exists>p. mock_loop ks seed = Inl p) \<longleftrightarrow> [] \<in> set ks"
  by (induction ks arbitrary: seed) auto

lemma mock_loop_length: "mock_loop ks seed = Inr s \<Longrightarrow> length s = length seed"
  by (induction ks arbitrary: seed) (auto split: if_splits)

lemma DRGMockSeed_total: "[] \<notin> set ks \<Longrightarrow> \<exists>s. DRGMockSeed ks slot = Inr s \<and> length s = 32"
proof -
  assume "[] \<notin> set ks"
  then obtain s where "mock_loop ks (replicate 32 0) = Inr s"
    by (metis mock_loop_panics obj_sumE)
  then show ?thesis using mock_loop_length [of ks "replicate 32 0" s] by (simp add: DRGMockSeed_def)
qed

lemma cdf_walk_mem: "cdf_walk F seed ks cdf = Some k \<Longrightarrow> k \<in> set ks"
  by (induction F seed ks cdf rule: cdf_walk.induct) (auto split: if_splits)

text \<open>The walk stops at the first key whose cumulative weight reaches the seed.\<close>

lemma cdf_walk_first:
  assumes "cdf_walk F seed ks cdf = Some k" "length cdf = length ks"
  shows "\<exists>i < length ks. ks ! i = k \<and> fLe F seed (cdf ! i) \<and> (\<forall>j < i. \<not> fLe F seed (cdf ! j))"
  using assms
proof (induction F seed ks cdf rule: cdf_walk.induct)
  case (1 F seed key keys c cdf)
  show ?case
  proof (cases "fLe F seed c")
    case True
    with 1 show ?thesis by (intro exI [of _ 0]) simp
  next
    case False
    with 1 obtain i where "i < length keys" "keys ! i = k" "fLe F seed (cdf ! i)" "\<forall>j < i. \<not> fLe F seed (cdf ! j)"
      by auto
    with False show ?thesis by (intro exI [of _ "Suc i"]) (auto simp: less_Suc_eq_0_disj)
  qed
qed simp_all

lemma cdf_walk_None: "cdf_walk F seed ks cdf = None \<Longrightarrow> length cdf = length ks \<Longrightarrow> \<forall>c \<in> set cdf. \<not> fLe F seed c"
  by (induction F seed ks cdf rule: cdf_walk.induct) (auto split: if_splits)

lemma length_cdf_loop [simp]: "length (cdf_loop F probs ks c) = length ks"
  by (induction ks arbitrary: c) (simp_all add: Let_def)

lemma GetSlotLeaderUtil_order:
  "visits ord \<Longrightarrow> visits ord' \<Longrightarrow>
     GetSlotLeaderUtil F ord ks stakes us prev slot = GetSlotLeaderUtil F ord' ks stakes us prev slot"
  by (simp add: GetSlotLeaderUtil_def xor_all_order [of ord ord'])

lemma GetSlotLeaderUtil_total:
  assumes "[] \<notin> set ks"
  shows "\<exists>leader seed. GetSlotLeaderUtil F ord ks stakes us prev slot = Inr (leader, seed) \<and>
     (ks \<noteq> [] \<longrightarrow> leader \<in> hex ` set ks)"
proof -
  obtain s where "DRGMockSeed ks slot = Inr s" using DRGMockSeed_total [OF assms] by blast
  then show ?thesis
    by (auto simp: GetSlotLeaderUtil_def Let_def dest: cdf_walk_mem split: option.splits)
qed

lemma stakes_fold_dom:
  "fmdom' (foldl (\<lambda>m key. fmupd (hex key) (g key) m) m ks) = hex ` set ks \<union> fmdom' m"
  by (induction ks arbitrary: m) auto

lemma GetStakes_dom: "fmdom' (GetStakes F ks stakes) = hex ` set ks"
  by (simp add: GetStakes_def Let_def stakes_fold_dom)

subsection \<open>Agreement on the leader\<close>

text \<open>Nodes that hold the same commitments, reveals, keys and stakes elect the same leader, whatever
  the orders in which their maps are visited while the reveals are collected and combined and however
  floating-point operations round; the election always returns, and the leader is one of the
  registry keys.
\<close>

theorem election_agreed:
  assumes "visits ordR" "visits ordR'" "visits ordU" "visits ordU'" "registryKeys \<noteq> []" "[] \<notin> set registryKeys"
  shows "\<exists>leader seed. leader \<in> hex ` set registryKeys \<and>
     GetSlotLeaderUtil F ordU registryKeys stakeData
       (fst (VerifyAndCollectReveals ordR reveals commitments pubKeys)) prev slot = Inr (leader, seed) \<and>
     GetSlotLeaderUtil F ordU' registryKeys stakeData
       (fst (VerifyAndCollectReveals ordR' reveals commitments pubKeys)) prev' slot = Inr (leader, seed)"
proof -
  let ?us = "fst (VerifyAndCollectReveals ordR reveals commitments pubKeys)"
  let ?elect = "GetSlotLeaderUtil F ordU registryKeys stakeData ?us prev slot"
  have us: "fst (VerifyAndCollectReveals ordR' reveals commitments pubKeys) = ?us"
    by (simp only: collect_order [OF assms(2) assms(1)])
  have x: "xor_all ordU' ?us = xor_all ordU ?us" by (rule xor_all_order [OF assms(4) assms(3)])
  have "GetSlotLeaderUtil F ordU' registryKeys stakeData ?us prev' slot = ?elect"
    by (simp only: GetSlotLeaderUtil_def x)
  moreover obtain leader seed where "?elect = Inr (leader, seed)" "leader \<in> hex ` set registryKeys"
    using GetSlotLeaderUtil_total [OF assms(6), of F ordU stakeData ?us prev slot] assms(5) by (elim exE conjE) simp
  ultimately show ?thesis unfolding us by (intro exI [of _ leader] exI [of _ seed]) simp
qed

definition sample_float :: "nat float64" where
  "sample_float = \<lparr>fOfU64 = unat, fOfInt = id, fAdd = (+), fDiv = (div), fLe = (\<le>), fZero = 0, fOne = 1\<rparr>"

theorem election_agreed_witness:
  "\<exists>leader seed. leader \<in> hex ` set [[1], [2]] \<and>
     GetSlotLeaderUtil sample_float sorted_keys [[1], [2]] fmempty
       (fst (VerifyAndCollectReveals sorted_keys fmempty fmempty fmempty)) [] 5 = Inr (leader, seed) \<and>
     GetSlotLeaderUtil sample_float (\<lambda>m. rev (sorted_keys m)) [[1], [2]] fmempty
       (fst (VerifyAndCollectReveals (\<lambda>m. rev (sorted_keys m)) fmempty fmempty fmempty)) [] 5 = Inr (leader, seed)"
  by (rule election_agreed) (simp_all add: visits_def)

text \<open>One honest validator is enough for an unbiased seed: whatever the others reveal, each
  32-byte outcome of the combined randomness is reached by exactly one value of that validator.
\<close>

theorem seed_unbiased:
  assumes "visits ord" "length target = 32"
  shows "\<exists>!u. length u = DRGSecretBytes \<and> xor_all ord (fmupd v (Some u) us) = target"
proof (rule ex1I [of _ "xor_u target (xor_all ord (fmdrop v us))"])
  let ?o = "xor_all ord (fmdrop v us)"
  have swap: "xor_u a b = xor_u b a" if "length a = 32" "length b = 32" for a b
    using that by (intro nth_equalityI) (simp_all add: xor_u_def DRGSecretBytes_def xor.commute)
  show "length (xor_u target ?o) = DRGSecretBytes \<and> xor_all ord (fmupd v (Some (xor_u target ?o)) us) = target"
    using assms by (simp add: xor_all_fmupd DRGSecretBytes_def swap [of ?o "xor_u target ?o"] xor_u_cancel)
  fix u
  assume u: "length u = DRGSecretBytes \<and> xor_all ord (fmupd v (Some u) us) = target"
  then have "target = xor_u u ?o"
    using assms(1) swap [of ?o u] by (simp add: xor_all_fmupd DRGSecretBytes_def)
  with u show "u = xor_u target ?o" by (simp add: DRGSecretBytes_def xor_u_cancel)
qed

theorem seed_unbiased_witness:
  "\<exists>!u. length u = DRGSecretBytes \<and> xor_all sorted_keys (fmupd ''v'' (Some u) fmempty) = replicate 32 7"
  by (rule seed_unbiased) (simp_all add: visits_sorted_keys)

text \<open>What a validator commits to opens: the values of its commitment phase pass the check and are
  collected from the reveal under any visiting order. A second, different opening of the same
  commitment would be a collision of SHA-256.
\<close>

theorem commitment_opens_once:
  assumes "CommitmentPhase (Some u) (Some r) pk = Some sv" "length u = DRGSecretBytes" "length r = DRGSecretBytes"
    and "visits ord" "fmlookup commitments s = Some (svCommitment sv)" "fmlookup pubKeys s = Some (Some pk)"
  shows "VerifyCommitment pk sv \<and>
     (fmlookup reveals s = Some \<lparr>rdU = svU sv, rdR = svR sv\<rparr> \<longrightarrow>
        fmlookup (fst (VerifyAndCollectReveals ord reveals commitments pubKeys)) s = Some (Some u)) \<and>
     (\<forall>u'. fmlookup (fst (VerifyAndCollectReveals ord reveals commitments pubKeys)) s = Some u' \<longrightarrow> sl u' \<noteq> u \<longrightarrow>
        (\<exists>r'. length r' = DRGSecretBytes \<and> sha256 (pk @ r' @ sl u') = sha256 (pk @ r @ u)))"
proof (intro conjI impI allI)
  have sv: "sv = \<lparr>svU = Some u, svR = Some r, svCommitment = Some (sha256 (pk @ r @ u))\<rparr>"
    using assms(1) by (simp add: CommitmentPhase_def)
  show ok: "VerifyCommitment pk sv"
    using assms(2,3) by (simp add: sv VerifyCommitment_def)
  show "fmlookup (fst (VerifyAndCollectReveals ord reveals commitments pubKeys)) s = Some (Some u)"
    if "fmlookup reveals s = Some \<lparr>rdU = svU sv, rdR = svR sv\<rparr>"
    using that ok assms(5,6) by (simp add: collect_lookup [OF assms(4)] opened_def sv)
  fix u'
  assume "fmlookup (fst (VerifyAndCollectReveals ord reveals commitments pubKeys)) s = Some u'" "sl u' \<noteq> u"
  then have "opened reveals commitments pubKeys s = Some u'" by (simp add: collect_lookup [OF assms(4)])
  then obtain rd c pk' where "fmlookup reveals s = Some rd" and c: "fmlookup commitments s = Some c" "fmlookup pubKeys s = Some pk'"
    and rd: "u' = rdU rd" "VerifyCommitment (sl pk') \<lparr>svU = rdU rd, svR = rdR rd, svCommitment = c\<rparr>"
    by (rule opened_SomeE)
  have "c = svCommitment sv" "pk' = Some pk" using c assms(5,6) by simp_all
  with rd length_sha256_open [OF rd(2)] \<open>sl u' \<noteq> u\<close> assms(2,3) show "\<exists>r'. length r' = DRGSecretBytes \<and> sha256 (pk @ r' @ sl u') = sha256 (pk @ r @ u)"
    by (intro exI [of _ "sl (rdR rd)"])
      (simp add: VerifyCommitment_def sv DRGSecretBytes_def split: if_splits)
qed

definition sample_secret :: SecretValues where
  "sample_secret = the (CommitmentPhase (Some (replicate 32 3)) (Some (replicate 32 4)) [9])"

lemma sample_secret_phase:
  "CommitmentPhase (Some (replicate 32 3)) (Some (replicate 32 4)) [9] = Some sample_secret"
  by (simp only: sample_secret_def CommitmentPhase_def option.case option.sel)

theorem commitment_opens_once_witness:
  "VerifyCommitment [9] sample_secret \<and>
   fmlookup (fst (VerifyAndCollectReveals sorted_keys
     (fmupd ''v'' \<lparr>rdU = svU sample_secret, rdR = svR sample_secret\<rparr> fmempty)
     (fmupd ''v'' (svCommitment sample_secret) fmempty) (fmupd ''v'' (Some [9]) fmempty))) ''v'' = Some (Some (replicate 32 3))"
  using commitment_opens_once [OF sample_secret_phase, of sorted_keys
      "fmupd ''v'' (svCommitment sample_secret) fmempty" "''v''" "fmupd ''v'' (Some [9]) fmempty"
      "fmupd ''v'' \<lparr>rdU = svU sample_secret, rdR = svR sample_secret\<rparr> fmempty"]
  by (simp add: visits_sorted_keys DRGSecretBytes_def)

subsection \<open>The fallback seed\<close>

lemma mock_loop_prefix:
  assumes "mock_loop ks seed = Inr s" "length p = 8" "\<forall>k \<in> set ks. take 8 k = p" "8 \<le> length seed"
  shows "take 8 s = (if even (length ks) then take 8 seed else map2 (XOR) (take 8 seed) p)"
  using assms
proof (induction ks arbitrary: seed)
  case (Cons k ks)
  let ?seed = "map2 (XOR) seed (map (\<lambda>i. k ! (i mod length k)) [0..<length seed])"
  have k: "k \<noteq> []" "mock_loop ks ?seed = Inr s" using Cons.prems(1) by (auto split: if_splits)
  have p: "take 8 k = p" "8 \<le> length k" using Cons.prems(2,3) by auto
  have step: "take 8 ?seed = map2 (XOR) (take 8 seed) p"
  proof (rule nth_equalityI)
    show "take 8 ?seed ! i = map2 (XOR) (take 8 seed) p ! i" if "i < length (take 8 ?seed)" for i
      using that p Cons.prems(2,4) by (auto simp: nth_append simp flip: p(1))
  qed (use Cons.prems(2,4) in simp)
  have "map2 (XOR) (map2 (XOR) (take 8 seed) p) p = take 8 seed"
    using Cons.prems(2,4) by (intro nth_equalityI) (simp_all add: xor.assoc)
  with Cons.IH [OF k(2) Cons.prems(2)] Cons.prems(3,4) show ?case by (simp add: step)
qed simp

text \<open>The fallback seed of the election does not depend on the validators: when their keys start with the same
  eight bytes, as the encodings of all P-256 keys do, the part of the seed that decides is the slot
  number, combined with those fixed bytes when the number of validators is odd.
\<close>

theorem fallback_seed_constant:
  assumes "length p = 8" "\<forall>k \<in> set ks. take 8 k = p"
  shows "\<exists>s. DRGMockSeed ks slot = Inr s \<and> be64 s = be64 (map2 (XOR) (if even (length ks) then replicate 8 0 else p) (IntToByteArr slot))"
proof -
  have "[] \<notin> set ks" using assms by force
  then obtain t where t: "mock_loop ks (replicate 32 0) = Inr t" by (metis mock_loop_panics obj_sumE)
  have "map2 (XOR) (replicate 8 0) p = p" using assms(1) by (intro nth_equalityI) simp_all
  with mock_loop_prefix [OF t assms] have "take 8 t = (if even (length ks) then replicate 8 0 else p)" by simp
  with t assms(1) show ?thesis by (simp add: DRGMockSeed_def be64_def)
qed

theorem fallback_seed_constant_witness:
  "\<exists>s. DRGMockSeed [replicate 8 48 @ [1], replicate 8 48 @ [2]] 5 = Inr s \<and>
     be64 s = be64 (map2 (XOR) (replicate 8 0) (IntToByteArr 5))"
  using fallback_seed_constant [of "replicate 8 48" "[replicate 8 48 @ [1], replicate 8 48 @ [2]]" 5] by simp

end
