(* ===== verification/Drg.thy ===== *)
theory Drg
  imports Consensus Transaction
begin

text \<open>
  The randomness protocol of \<^verbatim>\<open>internal/network/node.go\<close>: the part of a node's state it uses, the
  handlers of commitment and reveal messages, the two broadcasts and the pruning of old epochs. Each
  handler is one step. \<^verbatim>\<open>ecdsa.SignASN1\<close> and \<^verbatim>\<open>VerifyASN1\<close> are the record \<open>asn1\<close>.
\<close>

record asn1 =
  SignASN1 :: "PrivateKey \<Rightarrow> bytes \<Rightarrow> bytes option"
  VerifyASN1 :: "PublicKey \<Rightarrow> bytes \<Rightarrow> bytes \<Rightarrow> bool"

record CommitmentMsg =
  cEpoch :: int64
  cCommitment :: slice
  cSender :: string
  cSignature :: slice

record RevealMsg =
  rEpoch :: int64
  rU :: slice
  rR :: slice
  rSender :: string
  rSignature :: slice

datatype drg_error =
  InvalidSenderHex | InvalidSignature | CommitmentMismatch | RandFailed | SignFailed | NoCommitmentFound

record drg =
  EpochRandoms :: "(int64, (string, slice) fmap) fmap"
  EpochCommitments :: "(int64, (string, slice) fmap) fmap"
  MySecrets :: "(int64, SecretValues) fmap"
  PendingReveals :: "(int64, (string, RevealData) fmap) fmap"
  DRGDedupCache :: "(string, uint64) fmap"

definition NewDrg :: drg where
  "NewDrg = \<lparr>EpochRandoms = fmempty, EpochCommitments = fmempty, MySecrets = fmempty, PendingReveals = fmempty,
     DRGDedupCache = fmempty\<rparr>"

text \<open>A map of maps: a missing inner map reads as empty and is created by a write.\<close>

definition inner :: "(int64, (string, 'v) fmap) fmap \<Rightarrow> int64 \<Rightarrow> (string, 'v) fmap" where
  "inner m e = (case fmlookup m e of None \<Rightarrow> fmempty | Some x \<Rightarrow> x)"

definition get2 :: "(int64, (string, 'v) fmap) fmap \<Rightarrow> int64 \<Rightarrow> string \<Rightarrow> 'v option" where
  "get2 m e s = fmlookup (inner m e) s"

definition put2 :: "(int64, (string, 'v) fmap) fmap \<Rightarrow> int64 \<Rightarrow> string \<Rightarrow> 'v \<Rightarrow> (int64, (string, 'v) fmap) fmap" where
  "put2 m e s v = fmupd e (fmupd s v (inner m e)) m"

definition del2 :: "(int64, (string, 'v) fmap) fmap \<Rightarrow> int64 \<Rightarrow> string \<Rightarrow> (int64, (string, 'v) fmap) fmap" where
  "del2 m e s = (case fmlookup m e of None \<Rightarrow> m | Some x \<Rightarrow> fmupd e (fmdrop s x) m)"

definition HasSeenDRGMessage :: "drg \<Rightarrow> string \<Rightarrow> uint64 \<Rightarrow> bool" where
  "HasSeenDRGMessage n msgKey epoch = (case fmlookup (DRGDedupCache n) msgKey of None \<Rightarrow> False | Some cachedEpoch \<Rightarrow> cachedEpoch = epoch)"

definition MarkDRGMessageSeen :: "drg \<Rightarrow> string \<Rightarrow> uint64 \<Rightarrow> drg" where
  "MarkDRGMessageSeen n msgKey epoch = n\<lparr>DRGDedupCache := fmupd msgKey epoch (DRGDedupCache n)\<rparr>"

definition commit_key :: "int64 \<Rightarrow> string \<Rightarrow> string" where
  "commit_key epoch sender = ''commit:'' @ show_int epoch @ '':'' @ sender"

definition reveal_msg_key :: "int64 \<Rightarrow> string \<Rightarrow> string" where
  "reveal_msg_key epoch sender = ''reveal:'' @ show_int epoch @ '':'' @ sender"

definition commit_payload :: "int64 \<Rightarrow> slice \<Rightarrow> string \<Rightarrow> bytes" where
  "commit_payload epoch commitment sender = IntToByteArr epoch @ sl commitment @ bytes_of_string sender"

definition reveal_payload :: "int64 \<Rightarrow> slice \<Rightarrow> slice \<Rightarrow> string \<Rightarrow> bytes" where
  "reveal_payload epoch u r sender = IntToByteArr epoch @ sl u @ sl r @ bytes_of_string sender"

definition signed_by :: "crypto \<Rightarrow> asn1 \<Rightarrow> bytes \<Rightarrow> bytes \<Rightarrow> slice \<Rightarrow> bool" where
  "signed_by cr A pubKeyBytes payload sig =
     (case BytesToPublicKey cr pubKeyBytes of
        None \<Rightarrow> False
      | Some pub \<Rightarrow> VerifyASN1 A pub (sha256 payload) (sl sig))"

definition CommitmentHandler :: "crypto \<Rightarrow> asn1 \<Rightarrow> CommitmentMsg \<Rightarrow> drg \<Rightarrow> panic + drg \<times> drg_error option" where
  "CommitmentHandler cr A msg n =
     (let msgKey = commit_key (cEpoch msg) (cSender msg); epoch = word_of_int (cEpoch msg) in
      if HasSeenDRGMessage n msgKey epoch then Inr (n, None)
      else
        (let (pubKeyBytes, ok) = hex_decode (cSender msg) in
         if \<not> ok then Inr (n, Some InvalidSenderHex)
         else if \<not> signed_by cr A pubKeyBytes (commit_payload (cEpoch msg) (cCommitment msg) (cSender msg)) (cSignature msg)
         then sliced 8 (cSender msg) (Inr (n, Some InvalidSignature))
         else
           (let n = MarkDRGMessageSeen n msgKey epoch;
                n = n\<lparr>EpochCommitments := put2 (EpochCommitments n) (cEpoch msg) (cSender msg) (cCommitment msg)\<rparr>
            in
            case get2 (PendingReveals n) (cEpoch msg) (cSender msg) of
              None \<Rightarrow> Inr (n, None)
            | Some pendingForSender \<Rightarrow>
                if rdU pendingForSender = None then Inr (n, None)
                else if VerifyCommitment pubKeyBytes \<lparr>svU = rdU pendingForSender, svR = rdR pendingForSender, svCommitment = cCommitment msg\<rparr>
                then Inr (n\<lparr>EpochRandoms := put2 (EpochRandoms n) (cEpoch msg) (cSender msg) (rdU pendingForSender),
                            PendingReveals := del2 (PendingReveals n) (cEpoch msg) (cSender msg)\<rparr>, None)
                else Inr (n, None))))"

definition RevealHandler :: "crypto \<Rightarrow> asn1 \<Rightarrow> RevealMsg \<Rightarrow> drg \<Rightarrow> panic + drg \<times> drg_error option" where
  "RevealHandler cr A msg n =
     (let msgKey = reveal_msg_key (rEpoch msg) (rSender msg); epoch = word_of_int (rEpoch msg) in
      if HasSeenDRGMessage n msgKey epoch then Inr (n, None)
      else
        (let (pubKeyBytes, ok) = hex_decode (rSender msg) in
         if \<not> ok then Inr (n, Some InvalidSenderHex)
         else if \<not> signed_by cr A pubKeyBytes (reveal_payload (rEpoch msg) (rU msg) (rR msg) (rSender msg)) (rSignature msg)
         then sliced 8 (rSender msg) (Inr (n, Some InvalidSignature))
         else
           (let n = MarkDRGMessageSeen n msgKey epoch in
            case (case get2 (EpochCommitments n) (rEpoch msg) (rSender msg) of None \<Rightarrow> None | Some c \<Rightarrow> c) of
              None \<Rightarrow>
                Inr (n\<lparr>PendingReveals := put2 (PendingReveals n) (rEpoch msg) (rSender msg) \<lparr>rdU = rU msg, rdR = rR msg\<rparr>\<rparr>, None)
            | Some commitment \<Rightarrow>
                if \<not> VerifyCommitment pubKeyBytes \<lparr>svU = rU msg, svR = rR msg, svCommitment = Some commitment\<rparr>
                then sliced 8 (rSender msg) (Inr (n, Some CommitmentMismatch))
                else Inr (n\<lparr>EpochRandoms := put2 (EpochRandoms n) (rEpoch msg) (rSender msg) (rU msg)\<rparr>, None))))"

definition PruneDRGEpochState :: "int64 \<Rightarrow> drg \<Rightarrow> drg" where
  "PruneDRGEpochState currentEpoch n =
     (let kept = (\<lambda>epoch. \<not> epoch < i64 (currentEpoch - 2)) in
      n\<lparr>EpochRandoms := fmfilter kept (EpochRandoms n), EpochCommitments := fmfilter kept (EpochCommitments n),
        MySecrets := fmfilter kept (MySecrets n), PendingReveals := fmfilter kept (PendingReveals n),
        DRGDedupCache := fmfilter (\<lambda>k. kept (sint (the (fmlookup (DRGDedupCache n) k)))) (DRGDedupCache n)\<rparr>)"

text \<open>The broadcasts give the message that is sent; the commitment phase reads random bytes twice.\<close>

definition BroadcastCommitment ::
    "asn1 \<Rightarrow> bytes option \<Rightarrow> bytes option \<Rightarrow> KeyPair \<Rightarrow> int64 \<Rightarrow> drg \<Rightarrow> drg \<times> (drg_error + CommitmentMsg)" where
  "BroadcastCommitment A randU randR kp epoch n =
     (case CommitmentPhase randU randR (kpPublicKey kp) of
        None \<Rightarrow> (n, Inl RandFailed)
      | Some sv \<Rightarrow>
          (let n = n\<lparr>MySecrets := fmupd epoch sv (MySecrets n)\<rparr>;
               senderHex = hex (kpPublicKey kp);
               h = sha256 (commit_payload epoch (svCommitment sv) senderHex)
           in
           case SignASN1 A (kpPrivateKey kp) h of
             None \<Rightarrow> (n, Inl SignFailed)
           | Some sig \<Rightarrow> (n, Inr \<lparr>cEpoch = epoch, cCommitment = svCommitment sv, cSender = senderHex, cSignature = Some sig\<rparr>)))"

definition BroadcastReveal :: "asn1 \<Rightarrow> KeyPair \<Rightarrow> int64 \<Rightarrow> drg \<Rightarrow> drg_error + RevealMsg" where
  "BroadcastReveal A kp epoch n =
     (case fmlookup (MySecrets n) epoch of
        None \<Rightarrow> Inl NoCommitmentFound
      | Some sv \<Rightarrow>
          (let senderHex = hex (kpPublicKey kp);
               h = sha256 (reveal_payload epoch (svU sv) (svR sv) senderHex)
           in
           case SignASN1 A (kpPrivateKey kp) h of
             None \<Rightarrow> Inl SignFailed
           | Some sig \<Rightarrow> Inr \<lparr>rEpoch = epoch, rU = svU sv, rR = svR sv, rSender = senderHex, rSignature = Some sig\<rparr>))"

text \<open>The legacy handler, which nothing calls: it reserves an entry without a value.\<close>

definition RandomNumberHandler :: "int64 \<Rightarrow> string \<Rightarrow> drg \<Rightarrow> drg" where
  "RandomNumberHandler epoch sender n =
     (let n = n\<lparr>EpochRandoms := fmupd epoch (inner (EpochRandoms n) epoch) (EpochRandoms n)\<rparr> in
      if get2 (EpochRandoms n) epoch sender = None
      then n\<lparr>EpochRandoms := put2 (EpochRandoms n) epoch sender None\<rparr> else n)"

subsection \<open>Maps of maps and message keys\<close>

lemma inner_fmempty [simp]: "inner fmempty e = fmempty"
  by (simp add: inner_def)

lemma get2_fmempty [simp]: "get2 fmempty e s = None"
  by (simp add: get2_def)

lemma get2_put2 [simp]: "get2 (put2 m e s v) e' s' = (if e' = e \<and> s' = s then Some v else get2 m e' s')"
  by (simp add: get2_def put2_def inner_def)

lemma get2_del2: "get2 (del2 m e s) e' s' = (if e' = e \<and> s' = s then None else get2 m e' s')"
  by (auto simp: get2_def del2_def inner_def split: option.splits)

lemma get2_fmfilter [simp]: "get2 (fmfilter P m) e s = (if P e then get2 m e s else None)"
  by (simp add: get2_def inner_def)

lemma show_int_no_colon [simp]: "CHR '':'' \<notin> set (show_int i)"
  by (simp add: show_int_def)

lemma show_nat_not_minus: "show_nat n \<noteq> CHR ''-'' # x"
proof
  assume "show_nat n = CHR ''-'' # x"
  then have "CHR ''-'' \<in> set (show_nat n)" by simp
  then show False by (auto dest: show_nat_digits simp: is_digit_def)
qed

lemma show_int_inject [simp]: "show_int i = show_int j \<longleftrightarrow> i = j"
  by (auto simp: show_int_def show_nat_not_minus show_nat_not_minus [symmetric] dest: sym split: if_splits)

lemma commit_key_inject [simp]: "commit_key e s = commit_key e' s' \<longleftrightarrow> e = e' \<and> s = s'"
  by (auto simp: commit_key_def dest: split_at_separator)

lemma reveal_msg_key_inject [simp]: "reveal_msg_key e s = reveal_msg_key e' s' \<longleftrightarrow> e = e' \<and> s = s'"
  by (auto simp: reveal_msg_key_def dest: split_at_separator)

lemma keys_disjoint [simp]: "commit_key e s \<noteq> reveal_msg_key e' s'" "reveal_msg_key e' s' \<noteq> commit_key e s"
  by (simp_all add: commit_key_def reveal_msg_key_def)

lemma HasSeen_Mark [simp]:
  "HasSeenDRGMessage (MarkDRGMessageSeen n k e) k' e' = (if k' = k then e = e' else HasSeenDRGMessage n k' e')"
  by (simp add: HasSeenDRGMessage_def MarkDRGMessageSeen_def)

subsection \<open>One message\<close>

lemma CommitmentHandler_step:
  assumes "CommitmentHandler cr A msg n = Inr (n', err)" "n' \<noteq> n"
  obtains pk where "hex_decode (cSender msg) = (pk, True)"
    and "\<not> HasSeenDRGMessage n (commit_key (cEpoch msg) (cSender msg)) (word_of_int (cEpoch msg))"
    and "signed_by cr A pk (commit_payload (cEpoch msg) (cCommitment msg) (cSender msg)) (cSignature msg)"
    and "DRGDedupCache n' = fmupd (commit_key (cEpoch msg) (cSender msg)) (word_of_int (cEpoch msg)) (DRGDedupCache n)"
    and "EpochCommitments n' = put2 (EpochCommitments n) (cEpoch msg) (cSender msg) (cCommitment msg)"
    and "MySecrets n' = MySecrets n"
    and "(EpochRandoms n' = EpochRandoms n \<and> PendingReveals n' = PendingReveals n) \<or>
      (\<exists>rd. get2 (PendingReveals n) (cEpoch msg) (cSender msg) = Some rd \<and>
         VerifyCommitment pk \<lparr>svU = rdU rd, svR = rdR rd, svCommitment = cCommitment msg\<rparr> \<and>
         EpochRandoms n' = put2 (EpochRandoms n) (cEpoch msg) (cSender msg) (rdU rd) \<and>
         PendingReveals n' = del2 (PendingReveals n) (cEpoch msg) (cSender msg))"
  using assms
  by (auto simp: CommitmentHandler_def Let_def sliced_def MarkDRGMessageSeen_def
      split: if_split_asm option.split_asm prod.split_asm)

lemma RevealHandler_step:
  assumes "RevealHandler cr A msg n = Inr (n', err)" "n' \<noteq> n"
  obtains pk where "hex_decode (rSender msg) = (pk, True)"
    and "\<not> HasSeenDRGMessage n (reveal_msg_key (rEpoch msg) (rSender msg)) (word_of_int (rEpoch msg))"
    and "signed_by cr A pk (reveal_payload (rEpoch msg) (rU msg) (rR msg) (rSender msg)) (rSignature msg)"
    and "DRGDedupCache n' = fmupd (reveal_msg_key (rEpoch msg) (rSender msg)) (word_of_int (rEpoch msg)) (DRGDedupCache n)"
    and "EpochCommitments n' = EpochCommitments n"
    and "MySecrets n' = MySecrets n"
    and "(EpochRandoms n' = EpochRandoms n \<and> PendingReveals n' = PendingReveals n) \<or>
      (EpochRandoms n' = EpochRandoms n \<and>
         PendingReveals n' = put2 (PendingReveals n) (rEpoch msg) (rSender msg) \<lparr>rdU = rU msg, rdR = rR msg\<rparr>) \<or>
      (\<exists>c. get2 (EpochCommitments n) (rEpoch msg) (rSender msg) = Some (Some c) \<and>
         VerifyCommitment pk \<lparr>svU = rU msg, svR = rR msg, svCommitment = Some c\<rparr> \<and>
         EpochRandoms n' = put2 (EpochRandoms n) (rEpoch msg) (rSender msg) (rU msg) \<and>
         PendingReveals n' = PendingReveals n)"
  using assms
  by (auto simp: RevealHandler_def Let_def sliced_def MarkDRGMessageSeen_def
      split: if_split_asm option.split_asm prod.split_asm)

subsection \<open>What a reachable state holds\<close>

inductive drg_reachable :: "crypto \<Rightarrow> asn1 \<Rightarrow> drg \<Rightarrow> bool" for cr A where
  start: "drg_reachable cr A NewDrg"
| commitment: "drg_reachable cr A n \<Longrightarrow> is_i64 (cEpoch cm) \<Longrightarrow> CommitmentHandler cr A cm n = Inr (n', err) \<Longrightarrow> drg_reachable cr A n'"
| reveal: "drg_reachable cr A n \<Longrightarrow> is_i64 (rEpoch rm) \<Longrightarrow> RevealHandler cr A rm n = Inr (n', err) \<Longrightarrow> drg_reachable cr A n'"
| own: "drg_reachable cr A n \<Longrightarrow> BroadcastCommitment A randU randR kp epoch n = (n', res) \<Longrightarrow> drg_reachable cr A n'"
| prune: "drg_reachable cr A n \<Longrightarrow> drg_reachable cr A (PruneDRGEpochState epoch n)"

text \<open>The invariant: an entry of an epoch has its message in the cache of seen messages, a commitment
  is signed by its sender, and a contribution opens the commitment stored beside it.\<close>

definition contribution_ok ::
    "crypto \<Rightarrow> asn1 \<Rightarrow> int64 \<Rightarrow> string \<Rightarrow> slice option \<Rightarrow> RevealData option \<Rightarrow> slice option \<Rightarrow> uint64 option
     \<Rightarrow> uint64 option \<Rightarrow> bool" where
  "contribution_ok cr A e s c p u seenC seenR \<longleftrightarrow>
     (c = None \<or> is_i64 e \<and> seenC = Some (word_of_int e) \<and>
        (\<exists>pk sig. hex_decode s = (pk, True) \<and> signed_by cr A pk (commit_payload e (the c) s) sig)) \<and>
     (p = None \<or> is_i64 e \<and> seenR = Some (word_of_int e)) \<and>
     (u = None \<or> is_i64 e \<and> seenR = Some (word_of_int e) \<and> c \<noteq> None \<and>
        (\<exists>pk r. hex_decode s = (pk, True) \<and> VerifyCommitment pk \<lparr>svU = the u, svR = r, svCommitment = the c\<rparr>))"

definition drg_ok :: "crypto \<Rightarrow> asn1 \<Rightarrow> drg \<Rightarrow> bool" where
  "drg_ok cr A n \<longleftrightarrow>
     (\<forall>e s. contribution_ok cr A e s (get2 (EpochCommitments n) e s) (get2 (PendingReveals n) e s) (get2 (EpochRandoms n) e s)
        (fmlookup (DRGDedupCache n) (commit_key e s)) (fmlookup (DRGDedupCache n) (reveal_msg_key e s)))"

text \<open>A message that is not yet seen has no entry.\<close>

lemma unseen_commitment:
  "drg_ok cr A n \<Longrightarrow> \<not> HasSeenDRGMessage n (commit_key e s) (word_of_int e) \<Longrightarrow>
     get2 (EpochCommitments n) e s = None \<and> get2 (EpochRandoms n) e s = None"
  unfolding drg_ok_def contribution_ok_def HasSeenDRGMessage_def by (metis (mono_tags) option.simps(5))

lemma unseen_reveal:
  "drg_ok cr A n \<Longrightarrow> \<not> HasSeenDRGMessage n (reveal_msg_key e s) (word_of_int e) \<Longrightarrow>
     get2 (PendingReveals n) e s = None \<and> get2 (EpochRandoms n) e s = None"
  unfolding drg_ok_def contribution_ok_def HasSeenDRGMessage_def by (metis (mono_tags) option.simps(5))

lemma drg_ok_CommitmentHandler:
  assumes ok: "drg_ok cr A n" and e: "is_i64 (cEpoch cm)" and h: "CommitmentHandler cr A cm n = Inr (n', err)"
  shows "drg_ok cr A n'"
proof (cases "n' = n")
  case False
  let ?e = "cEpoch cm" and ?s = "cSender cm"
  obtain pk where pk: "hex_decode ?s = (pk, True)" and new: "\<not> HasSeenDRGMessage n (commit_key ?e ?s) (word_of_int ?e)"
    and sig: "signed_by cr A pk (commit_payload ?e (cCommitment cm) ?s) (cSignature cm)"
    and D: "DRGDedupCache n' = fmupd (commit_key ?e ?s) (word_of_int ?e) (DRGDedupCache n)"
    and C: "EpochCommitments n' = put2 (EpochCommitments n) ?e ?s (cCommitment cm)"
    and R: "(EpochRandoms n' = EpochRandoms n \<and> PendingReveals n' = PendingReveals n) \<or>
      (\<exists>rd. get2 (PendingReveals n) ?e ?s = Some rd \<and>
         VerifyCommitment pk \<lparr>svU = rdU rd, svR = rdR rd, svCommitment = cCommitment cm\<rparr> \<and>
         EpochRandoms n' = put2 (EpochRandoms n) ?e ?s (rdU rd) \<and>
         PendingReveals n' = del2 (PendingReveals n) ?e ?s)"
    by (rule CommitmentHandler_step [OF h False]) blast
  show ?thesis
    unfolding drg_ok_def
  proof (intro allI)
    fix e s
    note old = ok [unfolded drg_ok_def, rule_format, of e s]
    show "contribution_ok cr A e s (get2 (EpochCommitments n') e s) (get2 (PendingReveals n') e s) (get2 (EpochRandoms n') e s)
        (fmlookup (DRGDedupCache n') (commit_key e s)) (fmlookup (DRGDedupCache n') (reveal_msg_key e s))"
    proof (cases "e = ?e \<and> s = ?s")
      case True
      with old R unseen_commitment [OF ok new] sig pk e show ?thesis
        by (auto simp: C D contribution_ok_def get2_del2)
    next
      case False
      with old R show ?thesis by (auto simp: C D get2_del2)
    qed
  qed
qed (use ok in simp)

lemma drg_ok_RevealHandler:
  assumes ok: "drg_ok cr A n" and e: "is_i64 (rEpoch rm)" and h: "RevealHandler cr A rm n = Inr (n', err)"
  shows "drg_ok cr A n'"
proof (cases "n' = n")
  case False
  let ?e = "rEpoch rm" and ?s = "rSender rm"
  obtain pk where pk: "hex_decode ?s = (pk, True)"
    and new: "\<not> HasSeenDRGMessage n (reveal_msg_key ?e ?s) (word_of_int ?e)"
    and D: "DRGDedupCache n' = fmupd (reveal_msg_key ?e ?s) (word_of_int ?e) (DRGDedupCache n)"
    and C: "EpochCommitments n' = EpochCommitments n"
    and R: "(EpochRandoms n' = EpochRandoms n \<and> PendingReveals n' = PendingReveals n) \<or>
      (EpochRandoms n' = EpochRandoms n \<and>
         PendingReveals n' = put2 (PendingReveals n) ?e ?s \<lparr>rdU = rU rm, rdR = rR rm\<rparr>) \<or>
      (\<exists>c. get2 (EpochCommitments n) ?e ?s = Some (Some c) \<and>
         VerifyCommitment pk \<lparr>svU = rU rm, svR = rR rm, svCommitment = Some c\<rparr> \<and>
         EpochRandoms n' = put2 (EpochRandoms n) ?e ?s (rU rm) \<and> PendingReveals n' = PendingReveals n)"
    by (rule RevealHandler_step [OF h False]) blast
  show ?thesis
    unfolding drg_ok_def
  proof (intro allI)
    fix e s
    note old = ok [unfolded drg_ok_def, rule_format, of e s]
    show "contribution_ok cr A e s (get2 (EpochCommitments n') e s) (get2 (PendingReveals n') e s) (get2 (EpochRandoms n') e s)
        (fmlookup (DRGDedupCache n') (commit_key e s)) (fmlookup (DRGDedupCache n') (reveal_msg_key e s))"
    proof (cases "e = ?e \<and> s = ?s")
      case True
      with old R unseen_reveal [OF ok new] pk e show ?thesis
        by (auto simp: C D contribution_ok_def)
    next
      case False
      with old R show ?thesis by (auto simp: C D)
    qed
  qed
qed (use ok in simp)

lemma sint_epoch: "is_i64 e \<Longrightarrow> sint (word_of_int e :: uint64) = e"
  by (simp add: is_i64_def signed_take_bit_int_eq_self sint_sbintrunc')

lemma drg_ok_prune:
  assumes ok: "drg_ok cr A n"
  shows "drg_ok cr A (PruneDRGEpochState epoch n)"
  unfolding drg_ok_def
proof (intro allI)
  fix e s
  let ?n = "PruneDRGEpochState epoch n"
  from ok [unfolded drg_ok_def, rule_format, of e s]
  show "contribution_ok cr A e s (get2 (EpochCommitments ?n) e s) (get2 (PendingReveals ?n) e s) (get2 (EpochRandoms ?n) e s)
      (fmlookup (DRGDedupCache ?n) (commit_key e s)) (fmlookup (DRGDedupCache ?n) (reveal_msg_key e s))"
    by (auto simp: contribution_ok_def PruneDRGEpochState_def Let_def sint_epoch)
qed

lemma drg_ok_own:
  assumes ok: "drg_ok cr A n" and h: "BroadcastCommitment A randU randR kp epoch n = (n', res)"
  shows "drg_ok cr A n'"
proof -
  from h have "EpochCommitments n' = EpochCommitments n" "EpochRandoms n' = EpochRandoms n"
    "PendingReveals n' = PendingReveals n" "DRGDedupCache n' = DRGDedupCache n"
    by (auto simp: BroadcastCommitment_def Let_def split: option.splits)
  with ok show ?thesis by (simp add: drg_ok_def)
qed

lemma drg_reachable_ok: "drg_reachable cr A n \<Longrightarrow> drg_ok cr A n"
proof (induction rule: drg_reachable.induct)
  case start
  show ?case by (simp add: drg_ok_def contribution_ok_def NewDrg_def)
qed (blast intro: drg_ok_CommitmentHandler drg_ok_RevealHandler drg_ok_own drg_ok_prune)+

lemma drg_ok_opens:
  assumes "drg_ok cr A n" "get2 (EpochRandoms n) e s = Some u"
  obtains pk r c sig where "hex_decode s = (pk, True)" "get2 (EpochCommitments n) e s = Some c"
    "VerifyCommitment pk \<lparr>svU = u, svR = r, svCommitment = c\<rparr>" "signed_by cr A pk (commit_payload e c s) sig"
  using assms unfolding drg_ok_def contribution_ok_def by (metis Pair_inject option.collapse option.distinct(1) option.sel)

lemma drg_ok_length: "drg_ok cr A n \<Longrightarrow> get2 (EpochRandoms n) e s = Some u \<Longrightarrow> length (sl u) = DRGSecretBytes"
  by (erule drg_ok_opens) (auto dest: length_sha256_open simp: DRGSecretBytes_def)

text \<open>A handler never changes an entry that is there.\<close>

lemma CommitmentHandler_keeps:
  assumes ok: "drg_ok cr A n" and d: "CommitmentHandler cr A cm n = Inr (n', err)"
  shows "get2 (EpochCommitments n) e s = Some c \<Longrightarrow> get2 (EpochCommitments n') e s = Some c"
    and "get2 (EpochRandoms n) e s = Some u \<Longrightarrow> get2 (EpochRandoms n') e s = Some u"
proof -
  have "(get2 (EpochCommitments n) e s = Some c \<longrightarrow> get2 (EpochCommitments n') e s = Some c) \<and>
    (get2 (EpochRandoms n) e s = Some u \<longrightarrow> get2 (EpochRandoms n') e s = Some u)"
  proof (cases "n' = n")
    case False
    then obtain pk where "\<not> HasSeenDRGMessage n (commit_key (cEpoch cm) (cSender cm)) (word_of_int (cEpoch cm))"
      and *: "EpochCommitments n' = put2 (EpochCommitments n) (cEpoch cm) (cSender cm) (cCommitment cm)"
        "EpochRandoms n' = EpochRandoms n \<or> (\<exists>v. EpochRandoms n' = put2 (EpochRandoms n) (cEpoch cm) (cSender cm) v)"
      by (rule CommitmentHandler_step [OF d]) blast
    with unseen_commitment [OF ok this(1)] show ?thesis by auto
  qed simp
  then show "get2 (EpochCommitments n) e s = Some c \<Longrightarrow> get2 (EpochCommitments n') e s = Some c"
    "get2 (EpochRandoms n) e s = Some u \<Longrightarrow> get2 (EpochRandoms n') e s = Some u" by simp_all
qed

lemma RevealHandler_keeps:
  assumes ok: "drg_ok cr A n" and d: "RevealHandler cr A rm n = Inr (n', err)"
  shows "get2 (EpochCommitments n) e s = Some c \<Longrightarrow> get2 (EpochCommitments n') e s = Some c"
    and "get2 (EpochRandoms n) e s = Some u \<Longrightarrow> get2 (EpochRandoms n') e s = Some u"
proof -
  have "EpochCommitments n' = EpochCommitments n \<and>
    (get2 (EpochRandoms n) e s = Some u \<longrightarrow> get2 (EpochRandoms n') e s = Some u)"
  proof (cases "n' = n")
    case False
    then obtain pk where "\<not> HasSeenDRGMessage n (reveal_msg_key (rEpoch rm) (rSender rm)) (word_of_int (rEpoch rm))"
      and *: "EpochCommitments n' = EpochCommitments n"
        "EpochRandoms n' = EpochRandoms n \<or> (\<exists>v. EpochRandoms n' = put2 (EpochRandoms n) (rEpoch rm) (rSender rm) v)"
      by (rule RevealHandler_step [OF d]) blast
    with unseen_reveal [OF ok this(1)] show ?thesis by auto
  qed simp
  then show "get2 (EpochCommitments n) e s = Some c \<Longrightarrow> get2 (EpochCommitments n') e s = Some c"
    "get2 (EpochRandoms n) e s = Some u \<Longrightarrow> get2 (EpochRandoms n') e s = Some u" by simp_all
qed

subsection \<open>Sequences of messages\<close>

datatype drg_message = DrgCommitment CommitmentMsg | DrgReveal RevealMsg

fun deliver :: "crypto \<Rightarrow> asn1 \<Rightarrow> drg_message \<Rightarrow> drg \<Rightarrow> panic + drg \<times> drg_error option" where
  "deliver cr A (DrgCommitment cm) n = CommitmentHandler cr A cm n"
| "deliver cr A (DrgReveal rm) n = RevealHandler cr A rm n"

text \<open>The dispatcher logs the error of a handler and goes on; a panic ends the process.\<close>

fun deliver_all :: "crypto \<Rightarrow> asn1 \<Rightarrow> drg_message list \<Rightarrow> drg \<Rightarrow> panic + drg" where
  "deliver_all cr A [] n = Inr n"
| "deliver_all cr A (m # ms) n = bindR (deliver cr A m n) (\<lambda>(n', _). deliver_all cr A ms n')"

fun drg_sender :: "drg_message \<Rightarrow> string" where
  "drg_sender (DrgCommitment cm) = cSender cm"
| "drg_sender (DrgReveal rm) = rSender rm"

definition commit_valid :: "crypto \<Rightarrow> asn1 \<Rightarrow> CommitmentMsg \<Rightarrow> bool" where
  "commit_valid cr A cm =
     (let (pk, ok) = hex_decode (cSender cm)
      in ok \<and> signed_by cr A pk (commit_payload (cEpoch cm) (cCommitment cm) (cSender cm)) (cSignature cm))"

definition reveal_valid :: "crypto \<Rightarrow> asn1 \<Rightarrow> RevealMsg \<Rightarrow> bool" where
  "reveal_valid cr A rm =
     (let (pk, ok) = hex_decode (rSender rm)
      in ok \<and> signed_by cr A pk (reveal_payload (rEpoch rm) (rU rm) (rR rm) (rSender rm)) (rSignature rm))"

lemma CommitmentHandler_returns: "8 \<le> length (cSender cm) \<Longrightarrow> \<exists>n' err. CommitmentHandler cr A cm n = Inr (n', err)"
  by (auto simp: CommitmentHandler_def Let_def sliced_def split: option.splits prod.splits)

lemma RevealHandler_returns: "8 \<le> length (rSender rm) \<Longrightarrow> \<exists>n' err. RevealHandler cr A rm n = Inr (n', err)"
  by (auto simp: RevealHandler_def Let_def sliced_def split: option.splits prod.splits)

lemma deliver_returns: "8 \<le> length (drg_sender m) \<Longrightarrow> \<exists>n' err. deliver cr A m n = Inr (n', err)"
  by (cases m) (simp_all add: CommitmentHandler_returns RevealHandler_returns)

lemma deliver_all_returns: "\<forall>m \<in> set ms. 8 \<le> length (drg_sender m) \<Longrightarrow> \<exists>n'. deliver_all cr A ms n = Inr n'"
proof (induction ms arbitrary: n)
  case (Cons m ms)
  obtain n' err where "deliver cr A m n = Inr (n', err)" using deliver_returns Cons.prems by force
  with Cons show ?case by simp
qed simp

lemma deliver_all_snoc:
  "deliver_all cr A (ms @ [m]) n = bindR (deliver_all cr A ms n) (\<lambda>n'. bindR (deliver cr A m n') (\<lambda>(n'', _). Inr n''))"
  by (induction ms arbitrary: n) (auto simp: bindR_def split: sum.splits)

text \<open>The messages of one sender for one epoch and, when all of them carry the same commitment \<open>c\<close> and the
  same values \<open>rd\<close>, what the state holds for this sender after any sequence of messages.\<close>

definition committed :: "crypto \<Rightarrow> asn1 \<Rightarrow> int64 \<Rightarrow> string \<Rightarrow> drg_message set \<Rightarrow> bool" where
  "committed cr A e s M \<longleftrightarrow> (\<exists>cm. DrgCommitment cm \<in> M \<and> cEpoch cm = e \<and> cSender cm = s \<and> commit_valid cr A cm)"

definition revealed :: "crypto \<Rightarrow> asn1 \<Rightarrow> int64 \<Rightarrow> string \<Rightarrow> drg_message set \<Rightarrow> bool" where
  "revealed cr A e s M \<longleftrightarrow> (\<exists>rm. DrgReveal rm \<in> M \<and> rEpoch rm = e \<and> rSender rm = s \<and> reveal_valid cr A rm)"

definition consistent :: "crypto \<Rightarrow> asn1 \<Rightarrow> int64 \<Rightarrow> string \<Rightarrow> slice \<Rightarrow> RevealData \<Rightarrow> drg_message set \<Rightarrow> bool" where
  "consistent cr A e s c rd M \<longleftrightarrow>
     (\<forall>cm. DrgCommitment cm \<in> M \<and> cEpoch cm = e \<and> cSender cm = s \<and> commit_valid cr A cm \<longrightarrow> cCommitment cm = c) \<and>
     (\<forall>rm. DrgReveal rm \<in> M \<and> rEpoch rm = e \<and> rSender rm = s \<and> reveal_valid cr A rm \<longrightarrow> \<lparr>rdU = rU rm, rdR = rR rm\<rparr> = rd)"

definition holds :: "int64 \<Rightarrow> string \<Rightarrow> slice \<Rightarrow> RevealData \<Rightarrow> bool \<Rightarrow> bool \<Rightarrow> drg \<Rightarrow> bool" where
  "holds e s c rd C R n \<longleftrightarrow>
     HasSeenDRGMessage n (commit_key e s) (word_of_int e) = C \<and>
     HasSeenDRGMessage n (reveal_msg_key e s) (word_of_int e) = R \<and>
     get2 (EpochCommitments n) e s = (if C then Some c else None) \<and>
     get2 (EpochRandoms n) e s =
       (if C \<and> R \<and> VerifyCommitment (fst (hex_decode s)) \<lparr>svU = rdU rd, svR = rdR rd, svCommitment = c\<rparr>
        then Some (rdU rd) else None) \<and>
     (\<not> C \<longrightarrow> get2 (PendingReveals n) e s = (if R then Some rd else None)) \<and>
     (\<not> R \<longrightarrow> get2 (PendingReveals n) e s = None)"

lemma VerifyCommitment_None [simp]:
  "\<not> VerifyCommitment pk \<lparr>svU = None, svR = r, svCommitment = c\<rparr>" "\<not> VerifyCommitment pk \<lparr>svU = u, svR = r, svCommitment = None\<rparr>"
  by (auto simp: VerifyCommitment_def DRGSecretBytes_def dest!: arg_cong [where f = length])

lemma CommitmentHandler_new:
  assumes "\<not> HasSeenDRGMessage n (commit_key (cEpoch cm) (cSender cm)) (word_of_int (cEpoch cm))"
    and "hex_decode (cSender cm) = (pk, True)"
    and "signed_by cr A pk (commit_payload (cEpoch cm) (cCommitment cm) (cSender cm)) (cSignature cm)"
  shows "CommitmentHandler cr A cm n =
     (let stored = n\<lparr>DRGDedupCache := fmupd (commit_key (cEpoch cm) (cSender cm)) (word_of_int (cEpoch cm)) (DRGDedupCache n),
        EpochCommitments := put2 (EpochCommitments n) (cEpoch cm) (cSender cm) (cCommitment cm)\<rparr> in
      case get2 (PendingReveals n) (cEpoch cm) (cSender cm) of
        None \<Rightarrow> Inr (stored, None)
      | Some rd \<Rightarrow>
          if VerifyCommitment pk \<lparr>svU = rdU rd, svR = rdR rd, svCommitment = cCommitment cm\<rparr>
          then Inr (stored\<lparr>EpochRandoms := put2 (EpochRandoms n) (cEpoch cm) (cSender cm) (rdU rd),
                      PendingReveals := del2 (PendingReveals n) (cEpoch cm) (cSender cm)\<rparr>, None)
          else Inr (stored, None))"
  using assms by (simp add: CommitmentHandler_def Let_def MarkDRGMessageSeen_def split: option.split)

lemma holds_commit_new:
  assumes h: "holds (cEpoch cm) (cSender cm) (cCommitment cm) rd False R n"
    and d: "CommitmentHandler cr A cm n = Inr (n', err)" and v: "commit_valid cr A cm"
  shows "holds (cEpoch cm) (cSender cm) (cCommitment cm) rd True R n'"
proof -
  obtain pk where pk: "hex_decode (cSender cm) = (pk, True)"
    and sig: "signed_by cr A pk (commit_payload (cEpoch cm) (cCommitment cm) (cSender cm)) (cSignature cm)"
    using v by (auto simp: commit_valid_def split: prod.split_asm)
  have new: "\<not> HasSeenDRGMessage n (commit_key (cEpoch cm) (cSender cm)) (word_of_int (cEpoch cm))"
    and p: "get2 (PendingReveals n) (cEpoch cm) (cSender cm) = (if R then Some rd else None)"
    using h by (simp_all add: holds_def)
  show ?thesis
  proof (cases "R \<and> VerifyCommitment pk \<lparr>svU = rdU rd, svR = rdR rd, svCommitment = cCommitment cm\<rparr>")
    case True
    with h d show ?thesis unfolding CommitmentHandler_new [OF new pk sig]
      by (clarsimp simp: p holds_def HasSeenDRGMessage_def get2_del2 pk)
  next
    case False
    with h d show ?thesis unfolding CommitmentHandler_new [OF new pk sig]
      by (cases R) (clarsimp simp: p holds_def HasSeenDRGMessage_def pk)+
  qed
qed

lemma holds_frame:
  assumes "holds e s c rd C R n"
    and "HasSeenDRGMessage n' (commit_key e s) (word_of_int e) = HasSeenDRGMessage n (commit_key e s) (word_of_int e)"
    and "HasSeenDRGMessage n' (reveal_msg_key e s) (word_of_int e) = HasSeenDRGMessage n (reveal_msg_key e s) (word_of_int e)"
    and "get2 (EpochCommitments n') e s = get2 (EpochCommitments n) e s"
    and "get2 (EpochRandoms n') e s = get2 (EpochRandoms n) e s"
    and "get2 (PendingReveals n') e s = get2 (PendingReveals n) e s"
  shows "holds e s c rd C R n'"
  using assms unfolding holds_def by simp

lemma holds_CommitmentHandler:
  assumes h: "holds e s c rd C R n" and d: "CommitmentHandler cr A cm n = Inr (n', err)"
    and same: "cEpoch cm = e \<Longrightarrow> cSender cm = s \<Longrightarrow> commit_valid cr A cm \<Longrightarrow> cCommitment cm = c"
  shows "holds e s c rd (C \<or> cEpoch cm = e \<and> cSender cm = s \<and> commit_valid cr A cm) R n'"
proof (cases "\<not> C \<and> cEpoch cm = e \<and> cSender cm = s \<and> commit_valid cr A cm")
  case True
  with same have eqs: "e = cEpoch cm" "s = cSender cm" "c = cCommitment cm" and v: "commit_valid cr A cm" and no: "\<not> C" by auto
  from h no have "holds (cEpoch cm) (cSender cm) (cCommitment cm) rd False R n" by (simp add: eqs)
  from holds_commit_new [OF this d v] show ?thesis using v by (simp add: eqs)
next
  case old: False
  show ?thesis
  proof (cases "n' = n")
    case True
    with h old show ?thesis by (cases C) auto
  next
    case False
    have seen: "HasSeenDRGMessage n (commit_key e s) (word_of_int e) = C" using h by (simp add: holds_def)
    have other: "\<not> (cEpoch cm = e \<and> cSender cm = s)"
      by (rule CommitmentHandler_step [OF d False]) (use old seen in \<open>auto simp: commit_valid_def\<close>)
    then have "holds e s c rd C R n'"
      by - (rule CommitmentHandler_step [OF d False], rule holds_frame [OF h],
        auto simp: HasSeenDRGMessage_def get2_del2)
    with other show ?thesis by auto
  qed
qed

lemma RevealHandler_new:
  assumes "\<not> HasSeenDRGMessage n (reveal_msg_key (rEpoch rm) (rSender rm)) (word_of_int (rEpoch rm))"
    and "hex_decode (rSender rm) = (pk, True)"
    and "signed_by cr A pk (reveal_payload (rEpoch rm) (rU rm) (rR rm) (rSender rm)) (rSignature rm)"
  shows "RevealHandler cr A rm n =
     (let seen = n\<lparr>DRGDedupCache := fmupd (reveal_msg_key (rEpoch rm) (rSender rm)) (word_of_int (rEpoch rm)) (DRGDedupCache n)\<rparr> in
      case get2 (EpochCommitments n) (rEpoch rm) (rSender rm) of
        Some (Some c) \<Rightarrow>
          if VerifyCommitment pk \<lparr>svU = rU rm, svR = rR rm, svCommitment = Some c\<rparr>
          then Inr (seen\<lparr>EpochRandoms := put2 (EpochRandoms n) (rEpoch rm) (rSender rm) (rU rm)\<rparr>, None)
          else sliced 8 (rSender rm) (Inr (seen, Some CommitmentMismatch))
      | _ \<Rightarrow> Inr (seen\<lparr>PendingReveals := put2 (PendingReveals n) (rEpoch rm) (rSender rm) \<lparr>rdU = rU rm, rdR = rR rm\<rparr>\<rparr>, None))"
  using assms by (simp add: RevealHandler_def Let_def MarkDRGMessageSeen_def split: option.split)

lemma holds_reveal_new:
  assumes h: "holds (rEpoch rm) (rSender rm) c \<lparr>rdU = rU rm, rdR = rR rm\<rparr> C False n"
    and d: "RevealHandler cr A rm n = Inr (n', err)" and v: "reveal_valid cr A rm"
  shows "holds (rEpoch rm) (rSender rm) c \<lparr>rdU = rU rm, rdR = rR rm\<rparr> C True n'"
proof -
  obtain pk where pk: "hex_decode (rSender rm) = (pk, True)"
    and sig: "signed_by cr A pk (reveal_payload (rEpoch rm) (rU rm) (rR rm) (rSender rm)) (rSignature rm)"
    using v by (auto simp: reveal_valid_def split: prod.split_asm)
  have new: "\<not> HasSeenDRGMessage n (reveal_msg_key (rEpoch rm) (rSender rm)) (word_of_int (rEpoch rm))"
    and g: "get2 (EpochCommitments n) (rEpoch rm) (rSender rm) = (if C then Some c else None)"
    using h by (simp_all add: holds_def)
  show ?thesis
  proof (cases "C \<and> VerifyCommitment pk \<lparr>svU = rU rm, svR = rR rm, svCommitment = c\<rparr>")
    case True
    then obtain c' where "c = Some c'" by (cases c) simp_all
    with h d True show ?thesis unfolding RevealHandler_new [OF new pk sig]
      by (clarsimp simp: g holds_def HasSeenDRGMessage_def pk)
  next
    case False
    with h d show ?thesis unfolding RevealHandler_new [OF new pk sig]
      by (cases C; cases c) (clarsimp simp: g holds_def HasSeenDRGMessage_def pk sliced_def split: if_split_asm)+
  qed
qed

lemma holds_RevealHandler:
  assumes h: "holds e s c rd C R n" and d: "RevealHandler cr A rm n = Inr (n', err)"
    and same: "rEpoch rm = e \<Longrightarrow> rSender rm = s \<Longrightarrow> reveal_valid cr A rm \<Longrightarrow> \<lparr>rdU = rU rm, rdR = rR rm\<rparr> = rd"
  shows "holds e s c rd C (R \<or> rEpoch rm = e \<and> rSender rm = s \<and> reveal_valid cr A rm) n'"
proof (cases "\<not> R \<and> rEpoch rm = e \<and> rSender rm = s \<and> reveal_valid cr A rm")
  case True
  with same have eqs: "e = rEpoch rm" "s = rSender rm" "rd = \<lparr>rdU = rU rm, rdR = rR rm\<rparr>" and v: "reveal_valid cr A rm" and no: "\<not> R" by auto
  from h no have "holds (rEpoch rm) (rSender rm) c \<lparr>rdU = rU rm, rdR = rR rm\<rparr> C False n" by (simp add: eqs)
  from holds_reveal_new [OF this d v] show ?thesis using v by (simp add: eqs)
next
  case old: False
  show ?thesis
  proof (cases "n' = n")
    case True
    with h old show ?thesis by (cases R) auto
  next
    case False
    have seen: "HasSeenDRGMessage n (reveal_msg_key e s) (word_of_int e) = R" using h by (simp add: holds_def)
    have other: "\<not> (rEpoch rm = e \<and> rSender rm = s)"
      by (rule RevealHandler_step [OF d False]) (use old seen in \<open>auto simp: reveal_valid_def\<close>)
    then have "holds e s c rd C R n'"
      by - (rule RevealHandler_step [OF d False], rule holds_frame [OF h],
        auto simp: HasSeenDRGMessage_def get2_del2)
    with other show ?thesis by auto
  qed
qed

lemma consistent_mono: "consistent cr A e s c rd M \<Longrightarrow> N \<subseteq> M \<Longrightarrow> consistent cr A e s c rd N"
  unfolding consistent_def by blast

lemma committed_insert:
  "committed cr A e s (insert (DrgCommitment cm) M) \<longleftrightarrow> committed cr A e s M \<or> cEpoch cm = e \<and> cSender cm = s \<and> commit_valid cr A cm"
  "committed cr A e s (insert (DrgReveal rm) M) \<longleftrightarrow> committed cr A e s M"
  unfolding committed_def by auto

lemma revealed_insert:
  "revealed cr A e s (insert (DrgReveal rm) M) \<longleftrightarrow> revealed cr A e s M \<or> rEpoch rm = e \<and> rSender rm = s \<and> reveal_valid cr A rm"
  "revealed cr A e s (insert (DrgCommitment cm) M) \<longleftrightarrow> revealed cr A e s M"
  unfolding revealed_def by auto

lemma deliver_all_holds:
  assumes "deliver_all cr A ms NewDrg = Inr n" "consistent cr A e s c rd (set ms)"
  shows "holds e s c rd (committed cr A e s (set ms)) (revealed cr A e s (set ms)) n"
  using assms
proof (induction ms arbitrary: n rule: rev_induct)
  case Nil
  then show ?case by (auto simp: holds_def NewDrg_def HasSeenDRGMessage_def committed_def revealed_def)
next
  case (snoc m ms)
  then obtain n1 err where n1: "deliver_all cr A ms NewDrg = Inr n1" and d: "deliver cr A m n1 = Inr (n, err)"
    by (auto simp: deliver_all_snoc bindR_eq_Inr)
  have h: "holds e s c rd (committed cr A e s (set ms)) (revealed cr A e s (set ms)) n1"
    by (rule snoc.IH [OF n1 consistent_mono [OF snoc.prems(2)]]) auto
  show ?case
  proof (cases m)
    case (DrgCommitment cm)
    with snoc.prems(2) have "cEpoch cm = e \<Longrightarrow> cSender cm = s \<Longrightarrow> commit_valid cr A cm \<Longrightarrow> cCommitment cm = c"
      by (simp add: consistent_def)
    from holds_CommitmentHandler [OF h _ this] d DrgCommitment show ?thesis
      by (simp add: committed_insert revealed_insert)
  next
    case (DrgReveal rm)
    with snoc.prems(2) have "rEpoch rm = e \<Longrightarrow> rSender rm = s \<Longrightarrow> reveal_valid cr A rm \<Longrightarrow> \<lparr>rdU = rU rm, rdR = rR rm\<rparr> = rd"
      by (simp add: consistent_def)
    from holds_RevealHandler [OF h _ this] d DrgReveal show ?thesis
      by (simp add: committed_insert revealed_insert)
  qed
qed

subsection \<open>The protocol\<close>

text \<open>A platform whose ASN.1 signatures verify for one key pair.\<close>

definition asn1_ok :: "crypto \<Rightarrow> asn1 \<Rightarrow> KeyPair \<Rightarrow> bool" where
  "asn1_ok cr A kp \<longleftrightarrow>
     (\<exists>pk. BytesToPublicKey cr (kpPublicKey kp) = Some pk \<and>
       (\<forall>h. \<exists>sig. SignASN1 A (kpPrivateKey kp) h = Some sig \<and> VerifyASN1 A pk h sig))"

text \<open>A concrete platform and the two messages of one validator.\<close>

definition sample_asn1 :: asn1 where
  "sample_asn1 = \<lparr>SignASN1 = (\<lambda>k h. Some [1]), VerifyASN1 = (\<lambda>pk h sig. sig = [1])\<rparr>"

definition sample_key_pair :: KeyPair where
  "sample_key_pair = \<lparr>kpPrivateKey = 7, kpPublicKey = [1, 2, 3, 4]\<rparr>"

lemma sample_asn1_ok: "asn1_ok sample_crypto sample_asn1 sample_key_pair"
  by (simp add: asn1_ok_def sample_crypto_def sample_asn1_def sample_key_pair_def BytesToPublicKey_def)

definition sample_commitment_msg :: CommitmentMsg where
  "sample_commitment_msg = \<lparr>cEpoch = 5, cCommitment = Some (sha256 ([1, 2, 3, 4] @ replicate 32 4 @ replicate 32 3)),
     cSender = hex [1, 2, 3, 4], cSignature = Some [1]\<rparr>"

definition sample_reveal_msg :: RevealMsg where
  "sample_reveal_msg = \<lparr>rEpoch = 5, rU = Some (replicate 32 3), rR = Some (replicate 32 4), rSender = hex [1, 2, 3, 4],
     rSignature = Some [1]\<rparr>"

lemma sample_messages_consistent:
  assumes "M \<subseteq> {DrgCommitment sample_commitment_msg, DrgReveal sample_reveal_msg}"
  shows "consistent cr A e s (cCommitment sample_commitment_msg) \<lparr>rdU = rU sample_reveal_msg, rdR = rR sample_reveal_msg\<rparr> M"
  unfolding consistent_def using assms by blast

lemma sample_messages_long:
  "M \<subseteq> {DrgCommitment sample_commitment_msg, DrgReveal sample_reveal_msg} \<Longrightarrow> \<forall>m \<in> M. 8 \<le> length (drg_sender m)"
  by (auto simp: sample_commitment_msg_def sample_reveal_msg_def)

lemma sample_delivers:
  "set ms \<subseteq> {DrgCommitment sample_commitment_msg, DrgReveal sample_reveal_msg} \<Longrightarrow> \<exists>n'. deliver_all cr A ms n = Inr n'"
  by (rule deliver_all_returns) (rule sample_messages_long)

lemma sample_broadcasts:
  "\<exists>n'. BroadcastCommitment sample_asn1 (Some (replicate 32 3)) (Some (replicate 32 4)) sample_key_pair 5 NewDrg = (n', Inr sample_commitment_msg) \<and>
     BroadcastReveal sample_asn1 sample_key_pair 5 n' = Inr sample_reveal_msg"
  by (simp add: BroadcastCommitment_def BroadcastReveal_def CommitmentPhase_def sample_asn1_def sample_key_pair_def
      sample_commitment_msg_def sample_reveal_msg_def del: hex.simps replicate.simps)

text \<open>C16: The order of delivery does not matter: two nodes that receive the same commitment and reveal messages, in
  any two orders and any number of times each, with reveals before or after their commitments, end
  with the same contributions for every epoch and elect the same leader from them, provided that no
  validator signs two different commitments or two different reveals for one epoch and that every
  sender field has at least eight characters (a shorter one panics in the text of an error).
\<close>

theorem drg_agreement:
  assumes "\<forall>e s. \<exists>c rd. consistent cr A e s c rd (set ms)" and "set ms' = set ms"
    and "\<forall>m \<in> set ms. 8 \<le> length (drg_sender m)" and "visits ord" "visits ord'"
  shows "\<exists>n n'. deliver_all cr A ms NewDrg = Inr n \<and> deliver_all cr A ms' NewDrg = Inr n' \<and>
     (\<forall>e. inner (EpochRandoms n) e = inner (EpochRandoms n') e \<and>
        GetSlotLeaderUtil F ord registryKeys stakes (inner (EpochRandoms n) e) prev slot =
        GetSlotLeaderUtil F ord' registryKeys stakes (inner (EpochRandoms n') e) prev slot)"
proof -
  obtain n n' where n: "deliver_all cr A ms NewDrg = Inr n" and n': "deliver_all cr A ms' NewDrg = Inr n'"
    using deliver_all_returns [of ms] deliver_all_returns [of ms'] assms(2,3) by metis
  have same: "inner (EpochRandoms n) e = inner (EpochRandoms n') e" for e
  proof (rule fmap_ext)
    fix s
    obtain c rd where c: "consistent cr A e s c rd (set ms)" using assms(1) by blast
    then have "consistent cr A e s c rd (set ms')" by (simp add: assms(2))
    from deliver_all_holds [OF n c] deliver_all_holds [OF n' this]
    show "fmlookup (inner (EpochRandoms n) e) s = fmlookup (inner (EpochRandoms n') e) s"
      by (simp add: holds_def assms(2) flip: get2_def)
  qed
  with n n' GetSlotLeaderUtil_order [OF assms(4,5)] show ?thesis by auto
qed

theorem drg_agreement_witness:
  "\<exists>n n'. deliver_all sample_crypto sample_asn1 [DrgCommitment sample_commitment_msg, DrgReveal sample_reveal_msg] NewDrg = Inr n \<and>
     deliver_all sample_crypto sample_asn1 [DrgReveal sample_reveal_msg, DrgCommitment sample_commitment_msg, DrgReveal sample_reveal_msg] NewDrg = Inr n' \<and>
     inner (EpochRandoms n) 5 = inner (EpochRandoms n') 5"
proof -
  let ?ms = "[DrgCommitment sample_commitment_msg, DrgReveal sample_reveal_msg]"
    and ?ms' = "[DrgReveal sample_reveal_msg, DrgCommitment sample_commitment_msg, DrgReveal sample_reveal_msg]"
  have "\<forall>e s. \<exists>c rd. consistent sample_crypto sample_asn1 e s c rd (set ?ms)"
    by (intro allI exI, rule sample_messages_consistent) simp
  from drg_agreement [OF this, of ?ms' sorted_keys sorted_keys]
  show ?thesis using sample_messages_long [of "set ?ms"] visits_sorted_keys
    by (simp del: deliver_all.simps add: insert_commute) blast
qed

lemma broadcasts:
  assumes "asn1_ok cr A kp"
  obtains n' cm rm where "BroadcastCommitment A (Some u) (Some r) kp e n = (n', Inr cm)" "BroadcastReveal A kp e n' = Inr rm"
    and "cEpoch cm = e" "cSender cm = hex (kpPublicKey kp)" "cCommitment cm = Some (sha256 (kpPublicKey kp @ r @ u))"
    and "rEpoch rm = e" "rSender rm = hex (kpPublicKey kp)" "rU rm = Some u" "rR rm = Some r"
    and "commit_valid cr A cm" "reveal_valid cr A rm"
proof -
  obtain pk where pk: "BytesToPublicKey cr (kpPublicKey kp) = Some pk"
    and sgn: "\<And>h. \<exists>sig. SignASN1 A (kpPrivateKey kp) h = Some sig \<and> VerifyASN1 A pk h sig"
    using assms unfolding asn1_ok_def by blast
  let ?s = "hex (kpPublicKey kp)" and ?c = "Some (sha256 (kpPublicKey kp @ r @ u))"
  obtain sig where sig: "SignASN1 A (kpPrivateKey kp) (sha256 (commit_payload e ?c ?s)) = Some sig"
    "VerifyASN1 A pk (sha256 (commit_payload e ?c ?s)) sig" using sgn by blast
  obtain sig' where sig': "SignASN1 A (kpPrivateKey kp) (sha256 (reveal_payload e (Some u) (Some r) ?s)) = Some sig'"
    "VerifyASN1 A pk (sha256 (reveal_payload e (Some u) (Some r) ?s)) sig'" using sgn by blast
  show thesis
    by (rule that [of "n\<lparr>MySecrets := fmupd e \<lparr>svU = Some u, svR = Some r, svCommitment = ?c\<rparr> (MySecrets n)\<rparr>"
          "\<lparr>cEpoch = e, cCommitment = ?c, cSender = ?s, cSignature = Some sig\<rparr>"
          "\<lparr>rEpoch = e, rU = Some u, rR = Some r, rSender = ?s, rSignature = Some sig'\<rparr>"])
      (simp_all add: BroadcastCommitment_def BroadcastReveal_def CommitmentPhase_def commit_valid_def reveal_valid_def
        signed_by_def sig sig' pk)
qed

text \<open>C17: The contribution of an honest validator counts: what \<open>BroadcastCommitment\<close> and \<open>BroadcastReveal\<close> send is
  accepted by every node that receives both messages, in either order and among any other messages,
  as long as nobody forges the validator's signature; the node then holds the validator's secret.
\<close>

theorem honest_contribution_counts:
  assumes "asn1_ok cr A kp" "length u = DRGSecretBytes" "length r = DRGSecretBytes"
    and "BroadcastCommitment A (Some u) (Some r) kp e m = (m', Inr cm)" "BroadcastReveal A kp e m' = Inr rm"
    and "DrgCommitment cm \<in> set ms" "DrgReveal rm \<in> set ms"
    and "consistent cr A e (hex (kpPublicKey kp)) (cCommitment cm) \<lparr>rdU = rU rm, rdR = rR rm\<rparr> (set ms)"
    and "deliver_all cr A ms NewDrg = Inr n"
  shows "get2 (EpochRandoms n) e (hex (kpPublicKey kp)) = Some (Some u)"
proof -
  let ?s = "hex (kpPublicKey kp)"
  obtain n' cm' rm' where b: "BroadcastCommitment A (Some u) (Some r) kp e m = (n', Inr cm')" "BroadcastReveal A kp e n' = Inr rm'"
    and c: "cEpoch cm' = e" "cSender cm' = ?s" "cCommitment cm' = Some (sha256 (kpPublicKey kp @ r @ u))"
    and rv: "rEpoch rm' = e" "rSender rm' = ?s" "rU rm' = Some u" "rR rm' = Some r"
    and v: "commit_valid cr A cm'" "reveal_valid cr A rm'"
    by (rule broadcasts [OF assms(1), of u r e m])
  from b assms(4,5) have eqs: "cm' = cm" "rm' = rm" by auto
  have "committed cr A e ?s (set ms)" using assms(6) c v eqs by (auto simp: committed_def)
  moreover have "revealed cr A e ?s (set ms)" using assms(7) rv v eqs by (auto simp: revealed_def)
  moreover have "VerifyCommitment (kpPublicKey kp) \<lparr>svU = rU rm, svR = rR rm, svCommitment = cCommitment cm\<rparr>"
    using c rv assms(2,3) by (simp add: VerifyCommitment_def eqs)
  ultimately show ?thesis
    using deliver_all_holds [OF assms(9,8)] rv eqs by (simp add: holds_def)
qed

theorem honest_contribution_counts_witness:
  "\<exists>n. deliver_all sample_crypto sample_asn1 [DrgReveal sample_reveal_msg, DrgCommitment sample_commitment_msg] NewDrg = Inr n \<and>
     get2 (EpochRandoms n) 5 (hex [1, 2, 3, 4]) = Some (Some (replicate 32 3))"
proof -
  let ?ms = "[DrgReveal sample_reveal_msg, DrgCommitment sample_commitment_msg]"
  obtain m' where b: "BroadcastCommitment sample_asn1 (Some (replicate 32 3)) (Some (replicate 32 4)) sample_key_pair 5 NewDrg = (m', Inr sample_commitment_msg)"
      "BroadcastReveal sample_asn1 sample_key_pair 5 m' = Inr sample_reveal_msg"
    using sample_broadcasts by blast
  obtain n where n: "deliver_all sample_crypto sample_asn1 ?ms NewDrg = Inr n"
    using sample_delivers [of ?ms] by (simp del: deliver_all.simps) blast
  have pub: "kpPublicKey sample_key_pair = [1, 2, 3, 4]" by (simp add: sample_key_pair_def)
  have "get2 (EpochRandoms n) 5 (hex (kpPublicKey sample_key_pair)) = Some (Some (replicate 32 3))"
    by (rule honest_contribution_counts [OF sample_asn1_ok _ _ b _ _ sample_messages_consistent n])
      (simp_all add: DRGSecretBytes_def)
  with n show ?thesis unfolding pub by blast
qed

text \<open>C18: Every contribution a node counts is a 32-byte value that opens the commitment the node stored for
  the same validator and epoch, and that commitment carries a valid signature of the validator's
  key: in every state reached by messages, own broadcasts and pruning.
\<close>

theorem contributions_open:
  assumes "drg_reachable cr A n" "get2 (EpochRandoms n) e s = Some u"
  shows "length (sl u) = DRGSecretBytes \<and>
     (\<exists>pk r c sig. hex_decode s = (pk, True) \<and> get2 (EpochCommitments n) e s = Some c \<and>
        VerifyCommitment pk \<lparr>svU = u, svR = r, svCommitment = c\<rparr> \<and> signed_by cr A pk (commit_payload e c s) sig)"
proof -
  note ok = drg_reachable_ok [OF assms(1)]
  obtain pk r c sig where "hex_decode s = (pk, True)" "get2 (EpochCommitments n) e s = Some c"
    "VerifyCommitment pk \<lparr>svU = u, svR = r, svCommitment = c\<rparr>" "signed_by cr A pk (commit_payload e c s) sig"
    by (rule drg_ok_opens [OF ok assms(2)])
  with drg_ok_length [OF ok assms(2)] show ?thesis by blast
qed

lemma sample_reached:
  "\<exists>n. drg_reachable sample_crypto sample_asn1 n \<and> get2 (EpochRandoms n) 5 (hex [1, 2, 3, 4]) = Some (Some (replicate 32 3))"
proof -
  let ?c = sample_commitment_msg and ?r = sample_reveal_msg
  obtain n1 err where n1: "CommitmentHandler sample_crypto sample_asn1 ?c NewDrg = Inr (n1, err)"
    using CommitmentHandler_returns [of ?c] sample_messages_long [of "{DrgCommitment ?c}"] by fastforce
  obtain n2 err' where n2: "RevealHandler sample_crypto sample_asn1 ?r n1 = Inr (n2, err')"
    using RevealHandler_returns [of ?r] sample_messages_long [of "{DrgReveal ?r}"] by fastforce
  have "deliver_all sample_crypto sample_asn1 [DrgCommitment ?c, DrgReveal ?r] NewDrg = Inr n2"
    by (simp add: n1 n2)
  from deliver_all_holds [OF this sample_messages_consistent, of 5 "hex [1, 2, 3, 4]"]
  have "get2 (EpochRandoms n2) 5 (hex [1, 2, 3, 4]) = Some (Some (replicate 32 3))"
    by (simp add: holds_def committed_def revealed_def commit_valid_def reveal_valid_def signed_by_def sample_commitment_msg_def
        sample_reveal_msg_def sample_crypto_def sample_asn1_def BytesToPublicKey_def VerifyCommitment_def DRGSecretBytes_def
        del: hex.simps replicate.simps)
  moreover have "drg_reachable sample_crypto sample_asn1 n2"
    by (rule drg_reachable.reveal [OF drg_reachable.commitment [OF drg_reachable.start _ n1] _ n2])
      (simp_all add: sample_commitment_msg_def sample_reveal_msg_def is_i64_def)
  ultimately show ?thesis by blast
qed

theorem contributions_open_witness:
  "\<exists>n. drg_reachable sample_crypto sample_asn1 n \<and> get2 (EpochRandoms n) 5 (hex [1, 2, 3, 4]) = Some (Some (replicate 32 3)) \<and>
     (\<exists>c. get2 (EpochCommitments n) 5 (hex [1, 2, 3, 4]) = Some c)"
proof -
  obtain n where n: "drg_reachable sample_crypto sample_asn1 n" "get2 (EpochRandoms n) 5 (hex [1, 2, 3, 4]) = Some (Some (replicate 32 3))"
    using sample_reached by (elim exE conjE)
  from contributions_open [OF this] n show ?thesis by blast
qed

text \<open>A validator cannot change its mind: once a node holds a commitment or a contribution, no
  message changes it, even one that is properly signed; only pruning removes it.
\<close>

theorem contribution_final:
  assumes "drg_reachable cr A n" "deliver cr A m n = Inr (n', err)"
  shows "(get2 (EpochCommitments n) e s = Some c \<longrightarrow> get2 (EpochCommitments n') e s = Some c) \<and>
     (get2 (EpochRandoms n) e s = Some u \<longrightarrow> get2 (EpochRandoms n') e s = Some u)"
  using drg_reachable_ok [OF assms(1)] assms(2)
  by (cases m) (simp_all add: CommitmentHandler_keeps RevealHandler_keeps)

theorem contribution_final_witness:
  "\<exists>n n' err. deliver sample_crypto sample_asn1 (DrgReveal sample_reveal_msg) n = Inr (n', err) \<and>
     get2 (EpochRandoms n) 5 (hex [1, 2, 3, 4]) = Some (Some (replicate 32 3)) \<and>
     get2 (EpochRandoms n') 5 (hex [1, 2, 3, 4]) = Some (Some (replicate 32 3))"
proof -
  obtain n where n: "drg_reachable sample_crypto sample_asn1 n" "get2 (EpochRandoms n) 5 (hex [1, 2, 3, 4]) = Some (Some (replicate 32 3))"
    using sample_reached by (elim exE conjE)
  obtain n' err where "deliver sample_crypto sample_asn1 (DrgReveal sample_reveal_msg) n = Inr (n', err)"
    using deliver_returns [of "DrgReveal sample_reveal_msg"] sample_messages_long [of "{DrgReveal sample_reveal_msg}"]
    by (simp del: deliver.simps) blast
  note d = this
  have "get2 (EpochRandoms n') 5 (hex [1, 2, 3, 4]) = Some (Some (replicate 32 3))"
    using contribution_final [OF n(1) d] n(2) by simp
  with n(2) d show ?thesis by (intro exI [of _ n] exI [of _ n'] exI [of _ err] conjI)
qed

text \<open>One message can stop a node: a commitment whose sender is a hexadecimal string of fewer than eight
  characters and not a key makes the error message of \<open>CommitmentHandler\<close> slice past its end, which
  panics. No signature is needed.
\<close>

theorem short_sender_crashes:
  assumes "length (cSender cm) < 8" "hex_decode (cSender cm) = (pk, True)" "BytesToPublicKey cr pk = None"
    and "\<not> HasSeenDRGMessage n (commit_key (cEpoch cm) (cSender cm)) (word_of_int (cEpoch cm))"
  shows "deliver_all cr A (DrgCommitment cm # ms) n = Inl IndexOutOfRange"
  using assms by (simp add: CommitmentHandler_def signed_by_def sliced_def)

theorem short_sender_crashes_witness:
  "deliver_all (sample_crypto\<lparr>ParsePKIXPublicKey := (\<lambda>b. None)\<rparr>) sample_asn1
     [DrgCommitment \<lparr>cEpoch = 5, cCommitment = None, cSender = ''ab'', cSignature = None\<rparr>] NewDrg = Inl IndexOutOfRange"
  by (rule short_sender_crashes [where pk = "[171]"])
    (simp_all add: BytesToPublicKey_def HasSeenDRGMessage_def NewDrg_def, code_simp)

end
