(* ===== verification/Resolve.thy ===== *)
theory Resolve
  imports Index "HOL-Library.Signed_Division"
begin

text \<open>
  Answering DNS queries: \<^verbatim>\<open>internal/network/cache.go\<close>, \<^verbatim>\<open>resolver.go\<close>, \<^verbatim>\<open>rfc1035_handler.go\<close> and
  \<^verbatim>\<open>dns_metrics.go\<close>, with the parts of \<^verbatim>\<open>net.ParseIP\<close> they use. The clock is an argument in
  nanoseconds (\<^verbatim>\<open>time.Now\<close>) or seconds (\<^verbatim>\<open>Unix\<close>). Of the package \<^verbatim>\<open>miekg/dns\<close> two functions are used,
  \<^verbatim>\<open>SetReply\<close> and \<^verbatim>\<open>Fqdn\<close>; they are the record \<open>miekg\<close>.
\<close>

text \<open>Division of Go: it truncates and panics on zero.\<close>

definition godiv :: "int64 \<Rightarrow> int64 \<Rightarrow> panic + int64" where
  "godiv a b = (if b = 0 then Inl DivideByZero else Inr (i64 (a sdiv b)))"

subsection \<open>The cache\<close>

record cacheKey =
  ckDomain :: string
  ckQueryType :: string

record cacheEntry =
  ceRecords :: "Record list"
  ceExpiry :: int

type_synonym cache = "(cacheKey, cacheEntry) fmap"

definition GetFromCache :: "int \<Rightarrow> cache \<Rightarrow> string \<Rightarrow> string \<Rightarrow> cache \<times> Record list option" where
  "GetFromCache now cache domain queryType =
     (let key = \<lparr>ckDomain = domain, ckQueryType = queryType\<rparr> in
      case fmlookup cache key of
        None \<Rightarrow> (fmdrop key cache, None)
      | Some entry \<Rightarrow> if now > ceExpiry entry then (fmdrop key cache, None) else (cache, Some (ceRecords entry)))"

definition SetToCache :: "int \<Rightarrow> cache \<Rightarrow> string \<Rightarrow> string \<Rightarrow> Record list \<Rightarrow> cache" where
  "SetToCache now cache domain queryType records =
     fmupd \<lparr>ckDomain = domain, ckQueryType = queryType\<rparr> \<lparr>ceRecords = records, ceExpiry = now + 300 * 1000000000\<rparr> cache"

subsection \<open>The resolver\<close>

definition cnameDepthLimit :: nat where "cnameDepthLimit = 10"

datatype resolve_error =
    PhaseError string | NoRecordsOfType | DomainNotFound | CNAMELoop | CNAMEDepth | ChainNotFound | ChainPhase string | ChainNoRecords

definition filterByType :: "Record list \<Rightarrow> string \<Rightarrow> Record list" where
  "filterByType records queryType = filter (\<lambda>r. RType r = queryType) records"

fun hasCNAME :: "Record list \<Rightarrow> bool" where
  "hasCNAME [] = False"
| "hasCNAME (r # rest) = (if RType r = ''CNAME'' then True else hasCNAME rest)"

function resolveCNAME ::
    "'f bloom \<Rightarrow> 'f IndexManager \<Rightarrow> string \<Rightarrow> string \<Rightarrow> int64 \<Rightarrow> int64 \<Rightarrow> string fset \<Rightarrow> resolve_error + Record list" where
  "resolveCNAME B im domain queryType currentSlot slotsPerDay visited =
     (if domain |\<in>| visited then Inl CNAMELoop
      else if fcard visited \<ge> cnameDepthLimit then Inl CNAMEDepth
      else
        (case GetDomain B im domain of
           None \<Rightarrow> Inl ChainNotFound
         | Some tx \<Rightarrow>
             (let phase = GetDomainPhase currentSlot (ExpirySlot tx) slotsPerDay in
              if phase \<noteq> ''active'' then Inl (ChainPhase phase)
              else
                (case filterByType (Records tx) ''CNAME'' of
                   [] \<Rightarrow>
                     (let filtered = filterByType (Records tx) queryType
                      in if filtered = [] then Inl ChainNoRecords else Inr filtered)
                 | c # _ \<Rightarrow>
                     resolveCNAME B im (RValue c) queryType currentSlot slotsPerDay (finsert domain visited)))))"
  by pat_completeness auto
termination
  by (relation "measure (\<lambda>(_, _, _, _, _, _, visited). cnameDepthLimit - fcard visited)")
    (auto simp: fcard_finsert_disjoint)

declare resolveCNAME.simps [simp del]

text \<open>A light node asks the first full peer it knows, sleeps three seconds and looks again; what the
  handlers do to the cache in the meantime is the argument \<open>meanwhile\<close>.\<close>

definition ResolveDomain ::
    "'f bloom \<Rightarrow> int \<Rightarrow> (cache \<Rightarrow> cache) \<Rightarrow> string \<Rightarrow> string \<Rightarrow> bool \<Rightarrow> 'f IndexManager \<Rightarrow> string list \<Rightarrow> int64 \<Rightarrow> int64
     \<Rightarrow> cache \<Rightarrow> cache \<times> (string \<times> string) list \<times> (resolve_error + Record list)" where
  "ResolveDomain B now meanwhile domain queryType isFullNode im knownFullPeers currentSlot slotsPerDay cache =
     (let (cache, found) = GetFromCache now cache domain queryType in
      case found of
        Some records \<Rightarrow> (cache, [], Inr records)
      | None \<Rightarrow>
          if isFullNode then
            (case GetDomain B im domain of
               Some tx \<Rightarrow>
                 (let phase = GetDomainPhase currentSlot (ExpirySlot tx) slotsPerDay in
                  if phase \<noteq> ''active'' then (cache, [], Inl (PhaseError phase))
                  else if queryType \<noteq> ''CNAME'' \<and> hasCNAME (Records tx)
                  then (cache, [], resolveCNAME B im domain queryType currentSlot slotsPerDay {||})
                  else
                    (let filtered = filterByType (Records tx) queryType in
                     if filtered = [] then (cache, [], Inl NoRecordsOfType)
                     else (SetToCache now cache domain queryType filtered, [], Inr filtered)))
             | None \<Rightarrow> (cache, [], Inl DomainNotFound))
          else
            (let sent = map (\<lambda>peerID. (domain, peerID)) (take 1 knownFullPeers);
                 (cache, found) = GetFromCache (now + 3 * 1000000000) (meanwhile cache) domain queryType
             in case found of
                  Some records \<Rightarrow> (cache, sent, Inr records)
                | None \<Rightarrow> (cache, sent, Inl DomainNotFound)))"

subsection \<open>Internet addresses\<close>

text \<open>\<^verbatim>\<open>net.ParseIP\<close>: dotted decimal without leading zeros, or hexadecimal groups with at most one
  ellipsis and possibly a dotted end; zones are refused. The result has sixteen bytes.\<close>

fun ip4_loop :: "string \<Rightarrow> bool \<Rightarrow> nat \<Rightarrow> nat \<Rightarrow> bytes \<Rightarrow> bytes option" where
  "ip4_loop [] atStart val digLen octets = (if length octets < 3 then None else Some (octets @ [of_nat val]))"
| "ip4_loop (c # rest) atStart val digLen octets =
     (if is_digit c then
        (if digLen = 1 \<and> val = 0 then None
         else let val = val * 10 + (of_char c - 48)
              in if val > 255 then None else ip4_loop rest False val (digLen + 1) octets)
      else if c = CHR ''.'' then
        (if atStart \<or> rest = [] then None
         else if length octets = 3 then None
         else ip4_loop rest True 0 0 (octets @ [of_nat val]))
      else None)"

fun hex_group :: "string \<Rightarrow> nat \<Rightarrow> nat \<Rightarrow> (nat \<times> nat \<times> string) option" where
  "hex_group [] off acc = Some (off, acc, [])"
| "hex_group (c # rest) off acc =
     (case unhex_char c of
        None \<Rightarrow> Some (off, acc, c # rest)
      | Some d \<Rightarrow> if off > 3 then None else hex_group rest (off + 1) (acc * 16 + d))"

function ip6_loop :: "string \<Rightarrow> bytes \<Rightarrow> nat option \<Rightarrow> (string \<times> bytes \<times> nat option) option" where
  "ip6_loop s ip ellipsis =
     (if length ip \<ge> 16 then Some (s, ip, ellipsis)
      else case hex_group s 0 0 of
        None \<Rightarrow> None
      | Some (off, acc, rest) \<Rightarrow>
          if off = 0 then None
          else if rest \<noteq> [] \<and> hd rest = CHR ''.'' then
            (if ellipsis = None \<and> length ip \<noteq> 12 then None
             else if length ip + 4 > 16 then None
             else (case ip4_loop s True 0 0 [] of None \<Rightarrow> None | Some f \<Rightarrow> Some ([], ip @ f, ellipsis)))
          else
            (let ip = ip @ [of_nat (acc div 256), of_nat acc] in
             case rest of
               [] \<Rightarrow> Some ([], ip, ellipsis)
             | c # s \<Rightarrow>
                 if c \<noteq> CHR '':'' then None
                 else if s = [] then None
                 else if hd s = CHR '':'' then
                   (if ellipsis \<noteq> None then None
                    else if tl s = [] then Some ([], ip, Some (length ip))
                    else ip6_loop (tl s) ip (Some (length ip)))
                 else ip6_loop s ip ellipsis))"
  by pat_completeness auto
termination
  by (relation "measure (\<lambda>(_, ip, _). 16 - length ip)") auto

definition ip6_finish :: "string \<times> bytes \<times> nat option \<Rightarrow> bytes option" where
  "ip6_finish = (\<lambda>(s, ip, ellipsis).
     if s \<noteq> [] then None
     else if length ip < 16 then
       (case ellipsis of None \<Rightarrow> None | Some e \<Rightarrow> Some (take e ip @ replicate (16 - length ip) 0 @ drop e ip))
     else if ellipsis \<noteq> None then None
     else Some ip)"

definition parseIPv6 :: "string \<Rightarrow> bytes option" where
  "parseIPv6 s =
     (if length s \<ge> 2 \<and> s ! 0 = CHR '':'' \<and> s ! 1 = CHR '':'' then
        (if drop 2 s = [] then Some (replicate 16 0)
         else Option.bind (ip6_loop (drop 2 s) [] (Some 0)) ip6_finish)
      else Option.bind (ip6_loop s [] None) ip6_finish)"

definition v4InV6Prefix :: bytes where
  "v4InV6Prefix = replicate 10 0 @ [255, 255]"

definition ParseIP :: "string \<Rightarrow> bytes option" where
  "ParseIP s =
     (case filter (\<lambda>c. c = CHR ''.'' \<or> c = CHR '':'' \<or> c = CHR ''%'') s of
        [] \<Rightarrow> None
      | c # _ \<Rightarrow>
          if c = CHR ''.'' then map_option ((@) v4InV6Prefix) (ip4_loop s True 0 0 [])
          else if c = CHR '':'' then (if CHR ''%'' \<in> set s then None else parseIPv6 s)
          else None)"

definition To4 :: "bytes option \<Rightarrow> bytes option" where
  "To4 ip =
     (case ip of
        None \<Rightarrow> None
      | Some b \<Rightarrow> if length b = 4 then Some b
                  else if length b = 16 \<and> take 12 b = v4InV6Prefix then Some (drop 12 b)
                  else None)"

subsection \<open>The RFC 1035 handler\<close>

definition TypeA :: "16 word" where "TypeA = 1"
definition TypeNS :: "16 word" where "TypeNS = 2"
definition TypeCNAME :: "16 word" where "TypeCNAME = 5"
definition TypeMX :: "16 word" where "TypeMX = 15"
definition TypeTXT :: "16 word" where "TypeTXT = 16"
definition TypeAAAA :: "16 word" where "TypeAAAA = 28"
definition ClassINET :: "16 word" where "ClassINET = 1"
definition RcodeSuccess :: int where "RcodeSuccess = 0"
definition RcodeNameError :: int where "RcodeNameError = 3"

lemmas dns_consts = TypeA_def TypeNS_def TypeCNAME_def TypeMX_def TypeTXT_def TypeAAAA_def

record RR_Header =
  hdrName :: string
  hdrRrtype :: "16 word"
  hdrClass :: "16 word"
  hdrTtl :: "32 word"

datatype RR =
    RR_A (rrHdr: RR_Header) bytes
  | RR_AAAA (rrHdr: RR_Header) bytes
  | RR_CNAME (rrHdr: RR_Header) string
  | RR_MX (rrHdr: RR_Header) "16 word" string
  | RR_TXT (rrHdr: RR_Header) "string list"
  | RR_NS (rrHdr: RR_Header) string

record Question =
  qName :: string
  qQtype :: "16 word"

record dns_msg =
  dmAuthoritative :: bool
  dmRcode :: int
  dmQuestion :: "Question list"
  dmAnswer :: "RR list"

record miekg =
  SetReply :: "dns_msg \<Rightarrow> dns_msg"
  Fqdn :: "string \<Rightarrow> string"

record RFC1035Handler =
  slotInterval :: int64
  initialTimestamp :: int64

definition capTTL :: "RFC1035Handler \<Rightarrow> 32 word \<Rightarrow> 32 word" where
  "capTTL h ttl = (let cap = word_of_int (slotInterval h) in if ttl = 0 \<or> ttl > cap then cap else ttl)"

fun buildARecords :: "string \<Rightarrow> Record list \<Rightarrow> 32 word \<Rightarrow> RR list" where
  "buildARecords name [] ttl = []"
| "buildARecords name (r # rest) ttl =
     (if RType r \<noteq> ''A'' then buildARecords name rest ttl
      else case To4 (ParseIP (RValue r)) of
        None \<Rightarrow> buildARecords name rest ttl
      | Some ip \<Rightarrow>
          RR_A \<lparr>hdrName = name, hdrRrtype = TypeA, hdrClass = ClassINET, hdrTtl = ttl\<rparr> ip # buildARecords name rest ttl)"

fun buildAAAARecords :: "string \<Rightarrow> Record list \<Rightarrow> 32 word \<Rightarrow> RR list" where
  "buildAAAARecords name [] ttl = []"
| "buildAAAARecords name (r # rest) ttl =
     (if RType r \<noteq> ''AAAA'' then buildAAAARecords name rest ttl
      else case ParseIP (RValue r) of
        None \<Rightarrow> buildAAAARecords name rest ttl
      | Some ip \<Rightarrow>
          RR_AAAA \<lparr>hdrName = name, hdrRrtype = TypeAAAA, hdrClass = ClassINET, hdrTtl = ttl\<rparr> ip # buildAAAARecords name rest ttl)"

fun buildCNAMERecords :: "miekg \<Rightarrow> string \<Rightarrow> Record list \<Rightarrow> 32 word \<Rightarrow> RR list" where
  "buildCNAMERecords M name [] ttl = []"
| "buildCNAMERecords M name (r # rest) ttl =
     (if RType r \<noteq> ''CNAME'' then buildCNAMERecords M name rest ttl
      else RR_CNAME \<lparr>hdrName = name, hdrRrtype = TypeCNAME, hdrClass = ClassINET, hdrTtl = ttl\<rparr> (Fqdn M (RValue r))
        # buildCNAMERecords M name rest ttl)"

fun buildMXRecords :: "miekg \<Rightarrow> string \<Rightarrow> Record list \<Rightarrow> 32 word \<Rightarrow> RR list" where
  "buildMXRecords M name [] ttl = []"
| "buildMXRecords M name (r # rest) ttl =
     (if RType r \<noteq> ''MX'' then buildMXRecords M name rest ttl
      else RR_MX \<lparr>hdrName = name, hdrRrtype = TypeMX, hdrClass = ClassINET, hdrTtl = ttl\<rparr> (word_of_int (Priority r)) (Fqdn M (RValue r))
        # buildMXRecords M name rest ttl)"

fun buildTXTRecords :: "string \<Rightarrow> Record list \<Rightarrow> 32 word \<Rightarrow> RR list" where
  "buildTXTRecords name [] ttl = []"
| "buildTXTRecords name (r # rest) ttl =
     (if RType r \<noteq> ''TXT'' then buildTXTRecords name rest ttl
      else RR_TXT \<lparr>hdrName = name, hdrRrtype = TypeTXT, hdrClass = ClassINET, hdrTtl = ttl\<rparr> [RValue r]
        # buildTXTRecords name rest ttl)"

fun buildNSRecords :: "miekg \<Rightarrow> string \<Rightarrow> Record list \<Rightarrow> 32 word \<Rightarrow> RR list" where
  "buildNSRecords M name [] ttl = []"
| "buildNSRecords M name (r # rest) ttl =
     (if RType r \<noteq> ''NS'' then buildNSRecords M name rest ttl
      else RR_NS \<lparr>hdrName = name, hdrRrtype = TypeNS, hdrClass = ClassINET, hdrTtl = ttl\<rparr> (Fqdn M (RValue r))
        # buildNSRecords M name rest ttl)"

definition buildAllRecords :: "miekg \<Rightarrow> string \<Rightarrow> Record list \<Rightarrow> 32 word \<Rightarrow> RR list" where
  "buildAllRecords M name records ttl =
     buildARecords name records ttl @ buildAAAARecords name records ttl @ buildCNAMERecords M name records ttl
     @ buildMXRecords M name records ttl @ buildTXTRecords name records ttl @ buildNSRecords M name records ttl"

definition answers :: "miekg \<Rightarrow> string \<Rightarrow> 16 word \<Rightarrow> Record list \<Rightarrow> 32 word \<Rightarrow> RR list" where
  "answers M fqdn qtype records ttl =
     (if qtype = TypeA then buildARecords fqdn records ttl
      else if qtype = TypeAAAA then buildAAAARecords fqdn records ttl
      else if qtype = TypeCNAME then buildCNAMERecords M fqdn records ttl
      else if qtype = TypeMX then buildMXRecords M fqdn records ttl
      else if qtype = TypeTXT then buildTXTRecords fqdn records ttl
      else if qtype = TypeNS then buildNSRecords M fqdn records ttl
      else buildAllRecords M fqdn records ttl)"

definition strip_dot :: "string \<Rightarrow> string" where
  "strip_dot s = (if length s > 0 \<and> last s = CHR ''.'' then butlast s else s)"

definition rfcHandleDNSQuery ::
    "'f bloom \<Rightarrow> miekg \<Rightarrow> int64 \<Rightarrow> RFC1035Handler \<Rightarrow> 'f IndexManager \<Rightarrow> dns_msg \<Rightarrow> panic + dns_msg" where
  "rfcHandleDNSQuery B M now h im msg =
     (let resp = (SetReply M msg)\<lparr>dmAuthoritative := True\<rparr> in
      case dmQuestion msg of
        [] \<Rightarrow> Inr (resp\<lparr>dmRcode := RcodeNameError\<rparr>)
      | q # _ \<Rightarrow>
          (case GetDomain B im (strip_dot (qName q)) of
             None \<Rightarrow> Inr (resp\<lparr>dmRcode := RcodeNameError\<rparr>)
           | Some tx \<Rightarrow>
               bindR (godiv (i64 (now - initialTimestamp h)) (slotInterval h)) (\<lambda>currentSlot.
               bindR (godiv 86400 (slotInterval h)) (\<lambda>slotsPerDay.
                 if GetDomainPhase currentSlot (ExpirySlot tx) slotsPerDay \<noteq> ''active''
                 then Inr (resp\<lparr>dmRcode := RcodeNameError\<rparr>)
                 else
                   (let ttl = capTTL h (word_of_int (CacheTTL tx));
                        resp = resp\<lparr>dmAnswer := answers M (qName q) (qQtype q) (Records tx) ttl\<rparr>
                    in if dmAnswer resp = [] then Inr (resp\<lparr>dmRcode := RcodeNameError\<rparr>) else Inr resp)))))"

subsection \<open>Latency metrics\<close>

record DNSMetrics =
  FullNodeDirectResolution :: "int64 list"
  LightNodeForwardedResolution :: "int64 list"

definition AddFullNodeDirectResolution :: "DNSMetrics \<Rightarrow> int64 \<Rightarrow> DNSMetrics" where
  "AddFullNodeDirectResolution m d = m\<lparr>FullNodeDirectResolution := FullNodeDirectResolution m @ [d]\<rparr>"

definition AddLightNodeForwardedResolution :: "DNSMetrics \<Rightarrow> int64 \<Rightarrow> DNSMetrics" where
  "AddLightNodeForwardedResolution m d = m\<lparr>LightNodeForwardedResolution := LightNodeForwardedResolution m @ [d]\<rparr>"

definition calculateAverage :: "int64 list \<Rightarrow> panic + int64" where
  "calculateAverage durations =
     (if length durations = 0 then Inr 0
      else godiv (foldl (\<lambda>sum d. i64 (sum + d)) 0 durations) (int (length durations)))"

definition GetAverageLatencies :: "DNSMetrics \<Rightarrow> panic + int64 \<times> int64" where
  "GetAverageLatencies m =
     bindR (calculateAverage (FullNodeDirectResolution m)) (\<lambda>fullNodeAvg.
     bindR (calculateAverage (LightNodeForwardedResolution m)) (\<lambda>lightNodeAvg. Inr (fullNodeAvg, lightNodeAvg)))"

subsection \<open>Cache laws\<close>

lemma GetFromCache_lookup:
  "snd (GetFromCache now cache d qt) =
     (case fmlookup cache \<lparr>ckDomain = d, ckQueryType = qt\<rparr> of
        None \<Rightarrow> None
      | Some entry \<Rightarrow> if now > ceExpiry entry then None else Some (ceRecords entry))"
  by (simp add: GetFromCache_def Let_def split: option.splits)

lemma GetFromCache_hit: "GetFromCache now cache d qt = (cache', Some rs) \<Longrightarrow> cache' = cache"
  by (auto simp: GetFromCache_def Let_def split: option.splits if_splits)

text \<open>Reading the cache never changes what a later read finds.\<close>

lemma GetFromCache_frame:
  "now \<le> now' \<Longrightarrow> snd (GetFromCache now' (fst (GetFromCache now cache d qt)) e t) = snd (GetFromCache now' cache e t)"
  by (auto simp: GetFromCache_def Let_def split: option.splits)

lemma Get_Set:
  "snd (GetFromCache now' (SetToCache now cache d qt rs) e t) =
     (if e = d \<and> t = qt then if now' \<le> now + 300 * 1000000000 then Some rs else None
      else snd (GetFromCache now' cache e t))"
  by (auto simp: GetFromCache_lookup SetToCache_def)

subsection \<open>Following aliases\<close>

text \<open>The reference: one step from an active domain to the target of its first alias, and the records
  an active domain without alias gives.\<close>

definition active :: "'f bloom \<Rightarrow> 'f IndexManager \<Rightarrow> int64 \<Rightarrow> string \<Rightarrow> Record list option" where
  "active B im slot d =
     (case GetDomain B im d of None \<Rightarrow> None | Some tx \<Rightarrow> if slot < ExpirySlot tx then Some (Records tx) else None)"

definition alias_of :: "'f bloom \<Rightarrow> 'f IndexManager \<Rightarrow> int64 \<Rightarrow> string \<Rightarrow> string option" where
  "alias_of B im slot d =
     (case active B im slot d of
        None \<Rightarrow> None
      | Some rs \<Rightarrow> (case filterByType rs ''CNAME'' of [] \<Rightarrow> None | c # _ \<Rightarrow> Some (RValue c)))"

definition answer_at :: "'f bloom \<Rightarrow> 'f IndexManager \<Rightarrow> int64 \<Rightarrow> string \<Rightarrow> string \<Rightarrow> Record list option" where
  "answer_at B im slot qt d =
     (case active B im slot d of
        None \<Rightarrow> None
      | Some rs \<Rightarrow> if filterByType rs ''CNAME'' = [] \<and> filterByType rs qt \<noteq> [] then Some (filterByType rs qt) else None)"

fun alias_path :: "'f bloom \<Rightarrow> 'f IndexManager \<Rightarrow> int64 \<Rightarrow> nat \<Rightarrow> string \<Rightarrow> string option" where
  "alias_path B im slot 0 d = Some d"
| "alias_path B im slot (Suc k) d = Option.bind (alias_of B im slot d) (alias_path B im slot k)"

lemma alias_path_add:
  "alias_path B im slot (a + b) d = Option.bind (alias_path B im slot a d) (alias_path B im slot b)"
  by (induction a arbitrary: d) (auto split: Option.bind_splits)

lemma alias_of_answer: "answer_at B im slot qt d = Some rs \<Longrightarrow> alias_of B im slot d = None"
  by (auto simp: answer_at_def alias_of_def split: option.splits if_splits)

text \<open>A path that ends in an answer does not come back to its start.\<close>

lemma alias_path_acyclic:
  assumes "alias_path B im slot k d = Some e" "answer_at B im slot qt e = Some rs" "alias_path B im slot (Suc j) d = Some d"
  shows False
proof -
  have "alias_path B im slot (Suc j + k) d = Some e"
    using assms(1,3) by (simp only: alias_path_add) simp
  then have "alias_path B im slot (k + Suc j) d = Some e" by (simp only: add.commute)
  then have "alias_path B im slot (Suc j) e = Some e"
    using assms(1) by (simp only: alias_path_add) simp
  then show False using alias_of_answer [OF assms(2)] by simp
qed

text \<open>The condition under which the code returns records, and how it changes along an alias.\<close>

definition reaches :: "'f bloom \<Rightarrow> 'f IndexManager \<Rightarrow> int64 \<Rightarrow> string \<Rightarrow> Record list \<Rightarrow> string \<Rightarrow> string fset \<Rightarrow> bool" where
  "reaches B im slot qt rs d visited \<longleftrightarrow>
     (\<exists>k e. fcard visited + k < cnameDepthLimit \<and> alias_path B im slot k d = Some e \<and> answer_at B im slot qt e = Some rs \<and>
        (\<forall>j \<le> k. \<forall>x. alias_path B im slot j d = Some x \<longrightarrow> x |\<notin>| visited))"

lemma reaches_alias:
  assumes "alias_of B im slot d = Some d'" "d |\<notin>| visited"
  shows "reaches B im slot qt rs d visited \<longleftrightarrow> reaches B im slot qt rs d' (finsert d visited)"
proof
  assume "reaches B im slot qt rs d visited"
  then obtain k e where k: "fcard visited + k < cnameDepthLimit" "alias_path B im slot k d = Some e"
    "answer_at B im slot qt e = Some rs" "\<forall>j \<le> k. \<forall>x. alias_path B im slot j d = Some x \<longrightarrow> x |\<notin>| visited"
    unfolding reaches_def by blast
  from k(2,3) assms(1) obtain k' where k': "k = Suc k'" by (cases k) (auto dest: alias_of_answer)
  have "x |\<notin>| finsert d visited" if "j \<le> k'" "alias_path B im slot j d' = Some x" for j x
  proof -
    have "alias_path B im slot (Suc j) d = Some x" using that(2) assms(1) by simp
    with k(4) that(1) k' alias_path_acyclic [OF k(2,3), of j] show ?thesis by auto
  qed
  with k k' assms show "reaches B im slot qt rs d' (finsert d visited)"
    unfolding reaches_def by (intro exI [of _ k'] exI [of _ e]) (simp add: fcard_finsert_disjoint)
next
  assume "reaches B im slot qt rs d' (finsert d visited)"
  then obtain k e where k: "fcard (finsert d visited) + k < cnameDepthLimit" "alias_path B im slot k d' = Some e"
    "answer_at B im slot qt e = Some rs" "\<forall>j \<le> k. \<forall>x. alias_path B im slot j d' = Some x \<longrightarrow> x |\<notin>| finsert d visited"
    unfolding reaches_def by blast
  have "x |\<notin>| visited" if "j \<le> Suc k" "alias_path B im slot j d = Some x" for j x
    using that k(4) assms by (cases j) auto
  with k assms show "reaches B im slot qt rs d visited"
    unfolding reaches_def by (intro exI [of _ "Suc k"] exI [of _ e]) (simp add: fcard_finsert_disjoint)
qed

lemma reaches_refused:
  assumes "d |\<in>| visited \<or> fcard visited \<ge> cnameDepthLimit \<or> active B im slot d = None"
  shows "\<not> reaches B im slot qt rs d visited"
proof
  assume "reaches B im slot qt rs d visited"
  then obtain k e where k: "fcard visited + k < cnameDepthLimit" "alias_path B im slot k d = Some e"
    "answer_at B im slot qt e = Some rs" "d |\<notin>| visited"
    unfolding reaches_def by (metis alias_path.simps(1) le0)
  with assms have "active B im slot d = None" by simp
  with k show False by (cases k) (simp_all add: answer_at_def alias_of_def)
qed

lemma reaches_here:
  assumes "alias_of B im slot d = None" "d |\<notin>| visited" "fcard visited < cnameDepthLimit"
  shows "reaches B im slot qt rs d visited \<longleftrightarrow> answer_at B im slot qt d = Some rs"
proof
  assume "reaches B im slot qt rs d visited"
  then obtain k e where "alias_path B im slot k d = Some e" "answer_at B im slot qt e = Some rs"
    unfolding reaches_def by blast
  with assms(1) show "answer_at B im slot qt d = Some rs" by (cases k) auto
next
  assume "answer_at B im slot qt d = Some rs"
  with assms show "reaches B im slot qt rs d visited"
    unfolding reaches_def by (intro exI [of _ 0] exI [of _ d]) simp
qed

lemma resolveCNAME_iff:
  "resolveCNAME B im d qt slot spd visited = Inr rs \<longleftrightarrow> reaches B im slot qt rs d visited"
proof (induction B im d qt slot spd visited rule: resolveCNAME.induct)
  case (1 B im d qt slot spd visited)
  show ?case
  proof (cases "d |\<in>| visited \<or> fcard visited \<ge> cnameDepthLimit \<or> active B im slot d = None")
    case True
    from reaches_refused [OF True] True show ?thesis
      by (subst resolveCNAME.simps) (auto simp: active_def split: option.splits if_split_asm)
  next
    case ok: False
    then obtain tx where tx: "GetDomain B im d = Some tx" "slot < ExpirySlot tx"
      by (auto simp: active_def split: option.split_asm if_split_asm)
    show ?thesis
    proof (cases "filterByType (Records tx) ''CNAME''")
      case Nil
      with ok tx have "alias_of B im slot d = None" by (simp add: alias_of_def active_def)
      from reaches_here [OF this] ok tx Nil show ?thesis
        by (subst resolveCNAME.simps) (auto simp: answer_at_def active_def)
    next
      case (Cons c cs)
      with ok tx have "alias_of B im slot d = Some (RValue c)" by (simp add: alias_of_def active_def)
      from reaches_alias [OF this] "1.IH" [OF _ _ tx(1) refl _ Cons] ok tx Cons show ?thesis
        by (subst resolveCNAME.simps) simp
    qed
  qed
qed

lemma hasCNAME_iff: "hasCNAME rs \<longleftrightarrow> filterByType rs ''CNAME'' \<noteq> []"
  by (induction rs) (auto simp: filterByType_def)

text \<open>C23: Resolution follows aliases exactly: when nothing is cached, a full node answers a query for
  anything but aliases with given records if and only if a path of at most nine aliases through
  active domains ends at an active domain without alias that has them; otherwise it returns an error,
  also on loops and on a path of ten aliases, one less than the comment on the limit allows. It
  always returns and sends no message.
\<close>

theorem resolve_exact:
  assumes "snd (GetFromCache now cache d qt) = None" "qt \<noteq> ''CNAME''"
  shows "\<exists>cache' res. ResolveDomain B now meanwhile d qt True im peers slot spd cache = (cache', [], res) \<and>
     (\<forall>rs. res = Inr rs \<longleftrightarrow>
        (\<exists>k < cnameDepthLimit. \<exists>e. alias_path B im slot k d = Some e \<and> answer_at B im slot qt e = Some rs))"
proof -
  obtain c where c: "GetFromCache now cache d qt = (c, None)"
    using assms(1) by (metis prod.collapse)
  have paths: "(\<exists>k < cnameDepthLimit. \<exists>e. alias_path B im slot k d = Some e \<and> answer_at B im slot qt e = Some rs) \<longleftrightarrow>
      reaches B im slot qt rs d {||}" for rs
    unfolding reaches_def by (auto simp: fcard_fempty)
  show ?thesis
  proof (cases "active B im slot d")
    case None
    with reaches_refused [of d "{||}" B im slot qt] show ?thesis unfolding paths
      by (auto simp: ResolveDomain_def c active_def split: option.splits if_split_asm)
  next
    case (Some rs)
    then obtain tx where tx: "GetDomain B im d = Some tx" "slot < ExpirySlot tx" "rs = Records tx"
      by (auto simp: active_def split: option.split_asm if_split_asm)
    show ?thesis
    proof (cases "hasCNAME rs")
      case True
      then show ?thesis unfolding paths using tx assms(2)
        by (simp add: ResolveDomain_def c resolveCNAME_iff)
    next
      case False
      then have "alias_of B im slot d = None" using Some by (simp add: alias_of_def hasCNAME_iff)
      from reaches_here [OF this, of "{||}" qt] False tx Some show ?thesis unfolding paths
        by (auto simp: ResolveDomain_def c answer_at_def hasCNAME_iff cnameDepthLimit_def Let_def fcard_fempty)
    qed
  qed
qed

lemma sample_registered: "\<exists>im. GetDomain sample_bloom im d = Some tx"
proof (rule Add_spec [OF im_inv_New [OF sample_bloom_ok], of d tx 1 0 10])
  fix im
  assume "im_inv sample_bloom im"
    and "\<And>k. im_info im k = (if k = HashDomain d
        then Some (tx, case im_info (NewIndexManager sample_bloom) k of None \<Rightarrow> zero_DomainMetadata | Some (w, m) \<Rightarrow> m)
        else im_info (NewIndexManager sample_bloom) k)"
  then show ?thesis by (intro exI [of _ im]) (simp add: GetDomain_info)
qed

theorem resolve_exact_witness:
  "\<exists>im :: string fset IndexManager. \<exists>cache'. ResolveDomain sample_bloom 0 id ''a.com'' ''A'' True im [] 5 10 fmempty =
     (cache', [], Inr [Record ''A'' ''1.2.3.4'' 0])"
proof -
  let ?tx = "zero_Transaction\<lparr>ExpirySlot := 9, Records := [Record ''TXT'' ''x'' 0, Record ''A'' ''1.2.3.4'' 0]\<rparr>"
  obtain im :: "string fset IndexManager" where im: "GetDomain sample_bloom im ''a.com'' = Some ?tx"
    using sample_registered by (rule exE)
  have "snd (GetFromCache 0 fmempty ''a.com'' ''A'') = None" "''A'' \<noteq> ''CNAME''"
    by (simp_all add: GetFromCache_lookup)
  from resolve_exact [OF this, of sample_bloom id im "[]" 5 10]
  obtain cache' res where r: "ResolveDomain sample_bloom 0 id ''a.com'' ''A'' True im [] 5 10 fmempty = (cache', [], res)"
    and iff: "\<forall>rs. res = Inr rs \<longleftrightarrow> (\<exists>k < cnameDepthLimit. \<exists>e. alias_path sample_bloom im 5 k ''a.com'' = Some e \<and>
        answer_at sample_bloom im 5 ''A'' e = Some rs)"
    by (elim exE conjE)
  have "alias_path sample_bloom im 5 0 ''a.com'' = Some ''a.com'' \<and>
      answer_at sample_bloom im 5 ''A'' ''a.com'' = Some [Record ''A'' ''1.2.3.4'' 0]"
    by (simp add: answer_at_def active_def im filterByType_def zero_Transaction_def)
  then have "\<exists>k < cnameDepthLimit. \<exists>e. alias_path sample_bloom im 5 k ''a.com'' = Some e \<and>
      answer_at sample_bloom im 5 ''A'' e = Some [Record ''A'' ''1.2.3.4'' 0]"
    by (intro exI [of _ 0] exI [of _ "''a.com''"] conjI) (simp_all add: cnameDepthLimit_def)
  with iff have "res = Inr [Record ''A'' ''1.2.3.4'' 0]" by (simp only:)
  with r show ?thesis by (intro exI [of _ im] exI [of _ cache']) (simp only:)
qed

text \<open>The cache gives back what was stored for exactly 300 seconds and nothing afterwards, and an entry
  for one name and type never answers another; an expired entry is removed when it is met.
\<close>

theorem cache_roundtrip:
  "snd (GetFromCache now' (SetToCache now cache d qt rs) e t) =
     (if e = d \<and> t = qt then if now' \<le> now + 300 * 1000000000 then Some rs else None
      else snd (GetFromCache now' cache e t)) \<and>
   (now' > now + 300 * 1000000000 \<longrightarrow>
      fmlookup (fst (GetFromCache now' (SetToCache now cache d qt rs) d qt)) \<lparr>ckDomain = d, ckQueryType = qt\<rparr> = None)"
  by (simp add: Get_Set) (simp add: GetFromCache_def SetToCache_def Let_def)

theorem cache_roundtrip_witness:
  "fmlookup (fst (GetFromCache 300000000001 (SetToCache 0 fmempty ''a'' ''A'' []) ''a'' ''A'')) \<lparr>ckDomain = ''a'', ckQueryType = ''A''\<rparr> = None"
  using cache_roundtrip [of 300000000001 0 fmempty "''a''" "''A''" "[]" "''a''" "''A''"] by simp

subsection \<open>Dotted addresses\<close>

definition dotted :: "byte \<Rightarrow> byte \<Rightarrow> byte \<Rightarrow> byte \<Rightarrow> string" where
  "dotted a b c d = show_nat (unat a) @ ''.'' @ show_nat (unat b) @ ''.'' @ show_nat (unat c) @ ''.'' @ show_nat (unat d)"

lemma ip4_digit:
  assumes "d < 10" "digLen = 1 \<longrightarrow> val \<noteq> 0" "val * 10 + d < 256"
  shows "ip4_loop (char_of (48 + d) # rest) st val digLen octets = ip4_loop rest False (val * 10 + d) (digLen + 1) octets"
proof -
  have "\<not> (digLen = 1 \<and> val = 0)" using assms(2) by simp
  with assms(1,3) show ?thesis by (auto simp: is_digit_def)
qed

lemma ip4_number:
  assumes "n < 256"
  shows "ip4_loop (show_nat n @ rest) st 0 0 octets = ip4_loop rest False n (length (show_nat n)) octets"
proof -
  consider "n < 10" | "10 \<le> n" "n < 100" | "100 \<le> n" by linarith
  then show ?thesis
  proof cases
    case 1
    then show ?thesis using ip4_digit [of n 0 0] by (simp add: show_nat.simps [of n])
  next
    case 2
    then have "n div 10 < 10" by simp
    with 2 have s: "show_nat n = [char_of (48 + n div 10), char_of (48 + n mod 10)]"
      by (simp add: show_nat.simps [of n] show_nat.simps [of "n div 10"])
    from 2 show ?thesis unfolding s by (simp del: ip4_loop.simps add: ip4_digit)
  next
    case 3
    let ?h = "n div 10 div 10"
    have h: "?h < 10" "0 < ?h" using 3 assms by simp_all
    with 3 have s: "show_nat n = [char_of (48 + ?h), char_of (48 + n div 10 mod 10), char_of (48 + n mod 10)]"
      by (simp add: show_nat.simps [of n] show_nat.simps [of "n div 10"] show_nat.simps [of ?h])
    have n: "?h * 10 + n div 10 mod 10 = n div 10" "n div 10 * 10 + n mod 10 = n" by (simp_all only: div_mult_mod_eq)
    have "ip4_loop (show_nat n @ rest) st 0 0 octets =
        ip4_loop (char_of (48 + n div 10 mod 10) # char_of (48 + n mod 10) # rest) False ?h (Suc 0) octets"
      using ip4_digit [of ?h 0 0] h unfolding s by (simp del: ip4_loop.simps)
    also have "\<dots> = ip4_loop (char_of (48 + n mod 10) # rest) False (n div 10) (Suc (Suc 0)) octets"
      using ip4_digit [of "n div 10 mod 10" "Suc 0" ?h] h n assms by (simp del: ip4_loop.simps)
    also have "\<dots> = ip4_loop rest False n (Suc (Suc (Suc 0))) octets"
      using ip4_digit [of "n mod 10" "Suc (Suc 0)" "n div 10"] n assms by (simp del: ip4_loop.simps)
    finally show ?thesis unfolding s by (simp del: ip4_loop.simps)
  qed
qed

lemma unat_byte: "unat (b :: byte) < 256"
  using unsigned_less [of b, where 'a = nat] by simp

lemma ip4_octet:
  assumes "length octets < 3" "rest \<noteq> []"
  shows "ip4_loop (show_nat (unat (b :: byte)) @ CHR ''.'' # rest) st 0 0 octets = ip4_loop rest True 0 0 (octets @ [b])"
  using assms by (simp add: ip4_number unat_byte is_digit_def)

lemma show_nat_ne [simp]: "show_nat n \<noteq> []"
  by (subst show_nat.simps) simp

lemma filter_digits: "filter (\<lambda>c. c = CHR ''.'' \<or> c = CHR '':'' \<or> c = CHR ''%'') (show_nat n) = []"
  by (auto simp: filter_empty_conv is_digit_def dest!: show_nat_digits)

text \<open>A dotted address is read as its four bytes.\<close>

lemma ParseIP_dotted: "ParseIP (dotted a b c d) = Some (v4InV6Prefix @ [a, b, c, d])"
proof -
  have "ip4_loop (dotted a b c d) True 0 0 [] = Some [a, b, c, d]"
    by (simp add: dotted_def ip4_octet ip4_number [where rest = "[]", simplified] unat_byte)
  then show ?thesis by (simp add: ParseIP_def filter_digits dotted_def)
qed

lemma To4_mapped: "length v = 4 \<Longrightarrow> To4 (Some (v4InV6Prefix @ v)) = Some v"
  by (simp add: To4_def v4InV6Prefix_def)

lemma ip4_loop_length: "ip4_loop s st val digLen octets = Some v \<Longrightarrow> length octets \<le> 3 \<Longrightarrow> length v = 4"
  by (induction s st val digLen octets rule: ip4_loop.induct) (auto simp: Let_def split: if_split_asm)

lemma ip6_loop_length:
  "ip6_loop s ip ellipsis = Some (s', ip', ellipsis') \<Longrightarrow> length ip \<le> 16 \<Longrightarrow> even (length ip) \<Longrightarrow> length ip' \<le> 16"
proof (induction s ip ellipsis rule: ip6_loop.induct)
  case (1 s ip ellipsis)
  show ?case
  proof (cases "length ip \<ge> 16")
    case True
    with "1.prems" show ?thesis by (subst (asm) ip6_loop.simps) simp
  next
    case False
    with "1.prems"(3) have room: "length ip + 2 \<le> 16" by presburger
    from "1.prems" False obtain off acc rest where g: "hex_group s 0 0 = Some (off, acc, rest)" "off \<noteq> 0"
      by (subst (asm) ip6_loop.simps) (auto split: option.split_asm if_split_asm)
    show ?thesis
      using "1.prems" "1.IH" [OF False g(1) refl refl g(2)] False g room
      by (subst (asm) ip6_loop.simps) (auto simp: Let_def dest: ip4_loop_length split: option.split_asm if_split_asm list.split_asm)
  qed
qed

text \<open>Every address has sixteen bytes.\<close>

lemma ParseIP_length:
  assumes "ParseIP s = Some ip"
  shows "length ip = 16"
proof -
  have fin: "length ip = 16" if "Option.bind (ip6_loop t [] e) ip6_finish = Some ip" "e = None \<or> e = Some 0" for t e
    using that ip6_loop_length [of t "[]" e]
    by (auto simp: ip6_finish_def Option.bind_eq_Some_conv split: if_split_asm option.split_asm)
  show ?thesis
    using assms ip4_loop_length [of s True 0 0 "[]"] fin [of "drop 2 s" "Some 0"] fin [of s None]
    by (auto simp: ParseIP_def parseIPv6_def v4InV6Prefix_def split: list.split_asm if_split_asm)
qed

subsection \<open>Averages\<close>

lemma fold_sum:
  assumes "\<forall>d \<in> set ds. 0 \<le> d" "0 \<le> a" "a + sum_list ds < 2 ^ 63"
  shows "foldl (\<lambda>sum d. i64 (sum + d)) a ds = a + sum_list ds"
  using assms
proof (induction ds arbitrary: a)
  case (Cons d ds)
  have "0 \<le> sum_list ds" using Cons.prems(1) by (simp add: sum_list_nonneg)
  with Cons.prems have "is_i64 (a + d)" by (simp add: is_i64_def)
  with Cons.IH [of "a + d"] Cons.prems show ?case by (simp add: algebra_simps)
qed simp

lemma sum_list_bounds:
  "\<forall>d \<in> set ds. lo \<le> d \<and> d \<le> hi \<Longrightarrow> lo * int (length ds) \<le> sum_list ds \<and> sum_list ds \<le> hi * int (length ds)"
  by (induction ds) (auto simp: algebra_simps)

text \<open>The average of durations whose sum does not overflow lies between the least and the greatest.\<close>

lemma calculateAverage_between:
  assumes "ds \<noteq> []" "\<forall>d \<in> set ds. lo \<le> d \<and> d \<le> hi" "0 \<le> lo" "sum_list ds < 2 ^ 63"
  shows "\<exists>a. calculateAverage ds = Inr a \<and> lo \<le> a \<and> a \<le> hi"
proof -
  let ?n = "int (length ds)"
  have nn: "\<forall>d \<in> set ds. 0 \<le> d" using assms(2,3) by force
  have s: "0 \<le> sum_list ds" using nn by (simp add: sum_list_nonneg)
  have n: "0 < ?n" using assms(1) by simp
  note b = sum_list_bounds [OF assms(2)]
  have "sum_list ds sdiv ?n = sum_list ds div ?n"
    using s n by (cases "sum_list ds = 0") (simp_all add: signed_divide_int_def)
  moreover have "sum_list ds div ?n \<le> sum_list ds" using s n zdiv_mono2 [of "sum_list ds" 1 ?n] by (simp add: Suc_le_eq)
  moreover have "0 \<le> sum_list ds div ?n" using s n by (simp add: pos_imp_zdiv_nonneg_iff)
  ultimately have "calculateAverage ds = Inr (sum_list ds div ?n)"
    using assms(1,4) fold_sum [OF nn, of 0] by (simp add: calculateAverage_def godiv_def is_i64_def)
  moreover have "lo \<le> sum_list ds div ?n" using b n zdiv_mono1 [of "lo * ?n" "sum_list ds" ?n] by simp
  moreover have "sum_list ds div ?n \<le> hi" using b n zdiv_mono1 [of "sum_list ds" "hi * ?n" ?n] by simp
  ultimately show ?thesis by blast
qed

subsection \<open>Answers on the wire\<close>

definition rr_of :: "miekg \<Rightarrow> string \<Rightarrow> 32 word \<Rightarrow> Record \<Rightarrow> RR option" where
  "rr_of M name ttl r =
     (let hdr = (\<lambda>t. \<lparr>hdrName = name, hdrRrtype = t, hdrClass = ClassINET, hdrTtl = ttl\<rparr>) in
      if RType r = ''A'' then map_option (RR_A (hdr TypeA)) (To4 (ParseIP (RValue r)))
      else if RType r = ''AAAA'' then map_option (RR_AAAA (hdr TypeAAAA)) (ParseIP (RValue r))
      else if RType r = ''CNAME'' then Some (RR_CNAME (hdr TypeCNAME) (Fqdn M (RValue r)))
      else if RType r = ''MX'' then Some (RR_MX (hdr TypeMX) (word_of_int (Priority r)) (Fqdn M (RValue r)))
      else if RType r = ''TXT'' then Some (RR_TXT (hdr TypeTXT) [RValue r])
      else if RType r = ''NS'' then Some (RR_NS (hdr TypeNS) (Fqdn M (RValue r)))
      else None)"

lemma rr_of_type:
  "rr_of M name ttl r = Some rr \<and> hdrRrtype (rrHdr rr) = TypeA \<longleftrightarrow>
     RType r = ''A'' \<and> (\<exists>ip. To4 (ParseIP (RValue r)) = Some ip \<and> rr = RR_A \<lparr>hdrName = name, hdrRrtype = TypeA, hdrClass = ClassINET, hdrTtl = ttl\<rparr> ip)"
  "rr_of M name ttl r = Some rr \<and> hdrRrtype (rrHdr rr) = TypeAAAA \<longleftrightarrow>
     RType r = ''AAAA'' \<and> (\<exists>ip. ParseIP (RValue r) = Some ip \<and> rr = RR_AAAA \<lparr>hdrName = name, hdrRrtype = TypeAAAA, hdrClass = ClassINET, hdrTtl = ttl\<rparr> ip)"
  "rr_of M name ttl r = Some rr \<and> hdrRrtype (rrHdr rr) = TypeCNAME \<longleftrightarrow>
     RType r = ''CNAME'' \<and> rr = RR_CNAME \<lparr>hdrName = name, hdrRrtype = TypeCNAME, hdrClass = ClassINET, hdrTtl = ttl\<rparr> (Fqdn M (RValue r))"
  "rr_of M name ttl r = Some rr \<and> hdrRrtype (rrHdr rr) = TypeMX \<longleftrightarrow>
     RType r = ''MX'' \<and> rr = RR_MX \<lparr>hdrName = name, hdrRrtype = TypeMX, hdrClass = ClassINET, hdrTtl = ttl\<rparr> (word_of_int (Priority r)) (Fqdn M (RValue r))"
  "rr_of M name ttl r = Some rr \<and> hdrRrtype (rrHdr rr) = TypeTXT \<longleftrightarrow>
     RType r = ''TXT'' \<and> rr = RR_TXT \<lparr>hdrName = name, hdrRrtype = TypeTXT, hdrClass = ClassINET, hdrTtl = ttl\<rparr> [RValue r]"
  "rr_of M name ttl r = Some rr \<and> hdrRrtype (rrHdr rr) = TypeNS \<longleftrightarrow>
     RType r = ''NS'' \<and> rr = RR_NS \<lparr>hdrName = name, hdrRrtype = TypeNS, hdrClass = ClassINET, hdrTtl = ttl\<rparr> (Fqdn M (RValue r))"
  unfolding rr_of_def Let_def dns_consts by (auto split: if_split_asm)

lemma buildA_set:
  "set (buildARecords name rs ttl) = {rr. \<exists>r \<in> set rs. rr_of M name ttl r = Some rr \<and> hdrRrtype (rrHdr rr) = TypeA}"
  unfolding rr_of_type by (induction rs) (auto split: option.splits)

lemma buildAAAA_set:
  "set (buildAAAARecords name rs ttl) = {rr. \<exists>r \<in> set rs. rr_of M name ttl r = Some rr \<and> hdrRrtype (rrHdr rr) = TypeAAAA}"
  unfolding rr_of_type by (induction rs) (auto split: option.splits)

lemma buildCNAME_set:
  "set (buildCNAMERecords M name rs ttl) = {rr. \<exists>r \<in> set rs. rr_of M name ttl r = Some rr \<and> hdrRrtype (rrHdr rr) = TypeCNAME}"
  unfolding rr_of_type by (induction rs) (auto split: option.splits)

lemma buildMX_set:
  "set (buildMXRecords M name rs ttl) = {rr. \<exists>r \<in> set rs. rr_of M name ttl r = Some rr \<and> hdrRrtype (rrHdr rr) = TypeMX}"
  unfolding rr_of_type by (induction rs) (auto split: option.splits)

lemma buildTXT_set:
  "set (buildTXTRecords name rs ttl) = {rr. \<exists>r \<in> set rs. rr_of M name ttl r = Some rr \<and> hdrRrtype (rrHdr rr) = TypeTXT}"
  unfolding rr_of_type by (induction rs) (auto split: option.splits)

lemma buildNS_set:
  "set (buildNSRecords M name rs ttl) = {rr. \<exists>r \<in> set rs. rr_of M name ttl r = Some rr \<and> hdrRrtype (rrHdr rr) = TypeNS}"
  unfolding rr_of_type by (induction rs) (auto split: option.splits)

lemmas build_sets = buildA_set buildAAAA_set buildCNAME_set buildMX_set buildTXT_set buildNS_set

definition served :: "16 word set" where
  "served = {TypeA, TypeAAAA, TypeCNAME, TypeMX, TypeTXT, TypeNS}"

lemma rr_of_header:
  "rr_of M name ttl r = Some rr \<Longrightarrow>
     hdrName (rrHdr rr) = name \<and> hdrTtl (rrHdr rr) = ttl \<and> hdrClass (rrHdr rr) = ClassINET \<and> hdrRrtype (rrHdr rr) \<in> served"
  by (auto simp: rr_of_def Let_def served_def split: if_split_asm)

lemma answers_set:
  "set (answers M name qt rs ttl) =
     {rr. \<exists>r \<in> set rs. rr_of M name ttl r = Some rr \<and> (qt \<in> served \<longrightarrow> hdrRrtype (rrHdr rr) = qt)}"
proof (cases "qt \<in> served")
  case True
  then show ?thesis unfolding served_def
    by (elim insertE emptyE) (simp_all add: answers_def build_sets [where M = M] dns_consts)
next
  case False
  then have "set (answers M name qt rs ttl) = set (buildAllRecords M name rs ttl)" by (simp add: answers_def served_def)
  also have "\<dots> = {rr. \<exists>r \<in> set rs. rr_of M name ttl r = Some rr \<and> hdrRrtype (rrHdr rr) \<in> served}"
    by (auto simp: buildAllRecords_def build_sets [where M = M] served_def)
  finally show ?thesis using False by (auto dest: rr_of_header)
qed

lemma capTTL_bounds:
  assumes "0 < slotInterval h" "slotInterval h < 2 ^ 32"
  shows "0 < capTTL h ttl" "uint (capTTL h ttl) \<le> slotInterval h"
proof -
  have u: "uint (word_of_int (slotInterval h) :: 32 word) = slotInterval h"
    using assms by (simp add: uint_word_of_int)
  show "0 < capTTL h ttl" "uint (capTTL h ttl) \<le> slotInterval h"
    using assms(1) u by (auto simp: capTTL_def Let_def word_less_def word_neq_0_conv)
qed

text \<open>\<^verbatim>\<open>SetReply\<close> makes a reply that reports success and has no answer yet.\<close>

definition miekg_ok :: "miekg \<Rightarrow> bool" where
  "miekg_ok M \<longleftrightarrow> (\<forall>m. dmRcode (SetReply M m) = RcodeSuccess \<and> dmAnswer (SetReply M m) = [])"

text \<open>C24: The DNS server answers exactly from the chain: for a slot interval of one second or more it
  always returns, reports a name error if and only if the answer is empty, puts in the answer
  exactly the translations of the records of the asked type (of every type when the type is not one
  of the six) of the domain in its active phase, under the asked name, and never lets a client keep
  an answer longer than one slot.
\<close>

theorem dns_answer_exact:
  assumes "miekg_ok M" "0 < slotInterval h" "slotInterval h < 2 ^ 32" "dmQuestion msg = q # qs"
  shows "\<exists>resp. rfcHandleDNSQuery B M now h im msg = Inr resp \<and>
     (dmRcode resp = (if dmAnswer resp = [] then RcodeNameError else RcodeSuccess)) \<and>
     (\<forall>rr. rr \<in> set (dmAnswer resp) \<longleftrightarrow>
        (\<exists>tx r. GetDomain B im (strip_dot (qName q)) = Some tx \<and>
           i64 (i64 (now - initialTimestamp h) sdiv slotInterval h) < ExpirySlot tx \<and> r \<in> set (Records tx) \<and>
           rr_of M (qName q) (capTTL h (word_of_int (CacheTTL tx))) r = Some rr \<and>
           (qQtype q \<in> served \<longrightarrow> hdrRrtype (rrHdr rr) = qQtype q))) \<and>
     (\<forall>rr \<in> set (dmAnswer resp). hdrName (rrHdr rr) = qName q \<and> 0 < hdrTtl (rrHdr rr) \<and> uint (hdrTtl (rrHdr rr)) \<le> slotInterval h)"
proof (cases "GetDomain B im (strip_dot (qName q))")
  case None
  with assms show ?thesis by (simp add: rfcHandleDNSQuery_def miekg_ok_def)
next
  case (Some tx)
  let ?slot = "i64 (i64 (now - initialTimestamp h) sdiv slotInterval h)"
    and ?ttl = "capTTL h (word_of_int (CacheTTL tx))"
  let ?ans = "answers M (qName q) (qQtype q) (Records tx) ?ttl"
  have div: "godiv a (slotInterval h) = Inr (i64 (a sdiv slotInterval h))" for a
    using assms(2) by (simp add: godiv_def)
  show ?thesis
  proof (cases "?slot < ExpirySlot tx")
    case False
    with Some assms(1,4) show ?thesis by (simp add: rfcHandleDNSQuery_def div miekg_ok_def)
  next
    case True
    let ?resp = "(SetReply M msg)\<lparr>dmAuthoritative := True, dmAnswer := ?ans\<rparr>"
    let ?resp' = "if ?ans = [] then ?resp\<lparr>dmRcode := RcodeNameError\<rparr> else ?resp"
    have run: "rfcHandleDNSQuery B M now h im msg = Inr ?resp'"
      using Some True assms(4) by (simp add: rfcHandleDNSQuery_def div Let_def)
    have ans: "dmAnswer ?resp' = ?ans" by simp
    have code: "dmRcode ?resp' = (if ?ans = [] then RcodeNameError else RcodeSuccess)"
      using assms(1) by (simp add: miekg_ok_def)
    have "\<forall>rr \<in> set ?ans. hdrName (rrHdr rr) = qName q \<and> 0 < hdrTtl (rrHdr rr) \<and> uint (hdrTtl (rrHdr rr)) \<le> slotInterval h"
      using capTTL_bounds [OF assms(2,3)] by (auto simp: answers_set dest: rr_of_header)
    moreover have "rr \<in> set ?ans \<longleftrightarrow>
        (\<exists>tx' r. GetDomain B im (strip_dot (qName q)) = Some tx' \<and> ?slot < ExpirySlot tx' \<and> r \<in> set (Records tx') \<and>
           rr_of M (qName q) (capTTL h (word_of_int (CacheTTL tx'))) r = Some rr \<and>
           (qQtype q \<in> served \<longrightarrow> hdrRrtype (rrHdr rr) = qQtype q))" for rr
      unfolding Some answers_set using True by blast
    ultimately show ?thesis
      by (intro exI [of _ ?resp'] conjI allI run) (simp_all only: ans code)
  qed
qed

definition sample_miekg :: miekg where
  "sample_miekg = \<lparr>SetReply = (\<lambda>m. m\<lparr>dmRcode := 0, dmAnswer := []\<rparr>), Fqdn = (\<lambda>s. s @ ''.'')\<rparr>"

theorem dns_answer_exact_witness:
  "\<exists>(im :: string fset IndexManager) resp. rfcHandleDNSQuery sample_bloom sample_miekg 50 \<lparr>slotInterval = 10, initialTimestamp = 0\<rparr> im
      \<lparr>dmAuthoritative = False, dmRcode = 0, dmQuestion = [\<lparr>qName = ''a.com.'', qQtype = TypeA\<rparr>], dmAnswer = []\<rparr> = Inr resp \<and>
    RR_A \<lparr>hdrName = ''a.com.'', hdrRrtype = TypeA, hdrClass = ClassINET, hdrTtl = 7\<rparr> [1, 2, 3, 4] \<in> set (dmAnswer resp)"
proof -
  let ?h = "\<lparr>slotInterval = 10, initialTimestamp = 0\<rparr>" and ?q = "\<lparr>qName = ''a.com.'', qQtype = TypeA\<rparr>"
  let ?msg = "\<lparr>dmAuthoritative = False, dmRcode = 0, dmQuestion = [?q], dmAnswer = []\<rparr>"
  let ?rr = "RR_A \<lparr>hdrName = ''a.com.'', hdrRrtype = TypeA, hdrClass = ClassINET, hdrTtl = 7\<rparr> [1, 2, 3, 4]"
  let ?r = "Record ''A'' (dotted 1 2 3 4) 0"
  let ?tx = "zero_Transaction\<lparr>ExpirySlot := 9, CacheTTL := 7, Records := [?r]\<rparr>"
  obtain im :: "string fset IndexManager" where im: "GetDomain sample_bloom im ''a.com'' = Some ?tx"
    using sample_registered by (rule exE)
  have "miekg_ok sample_miekg" "0 < slotInterval ?h" "slotInterval ?h < 2 ^ 32" "dmQuestion ?msg = [?q]"
    by (simp_all add: miekg_ok_def sample_miekg_def RcodeSuccess_def)
  from dns_answer_exact [OF this, of sample_bloom 50 im]
  obtain resp where r: "rfcHandleDNSQuery sample_bloom sample_miekg 50 ?h im ?msg = Inr resp"
    and iff: "\<forall>rr. rr \<in> set (dmAnswer resp) \<longleftrightarrow>
        (\<exists>tx r. GetDomain sample_bloom im (strip_dot (qName ?q)) = Some tx \<and>
           i64 (i64 (50 - initialTimestamp ?h) sdiv slotInterval ?h) < ExpirySlot tx \<and> r \<in> set (Records tx) \<and>
           rr_of sample_miekg (qName ?q) (capTTL ?h (word_of_int (CacheTTL tx))) r = Some rr \<and>
           (qQtype ?q \<in> served \<longrightarrow> hdrRrtype (rrHdr rr) = qQtype ?q))"
    by (elim exE conjE)
  have "rr_of sample_miekg ''a.com.'' (capTTL ?h (word_of_int (CacheTTL ?tx))) ?r = Some ?rr"
    by (simp add: rr_of_def ParseIP_dotted To4_mapped capTTL_def)
  then have "\<exists>tx r. GetDomain sample_bloom im (strip_dot (qName ?q)) = Some tx \<and>
      i64 (i64 (50 - initialTimestamp ?h) sdiv slotInterval ?h) < ExpirySlot tx \<and> r \<in> set (Records tx) \<and>
      rr_of sample_miekg (qName ?q) (capTTL ?h (word_of_int (CacheTTL tx))) r = Some ?rr \<and>
      (qQtype ?q \<in> served \<longrightarrow> hdrRrtype (rrHdr ?rr) = qQtype ?q)"
    by (intro exI [of _ ?tx] exI [of _ ?r]) (simp add: im strip_dot_def is_i64_def signed_divide_int_def)
  with iff have "?rr \<in> set (dmAnswer resp)" by (simp only:)
  with r show ?thesis by (intro exI [of _ im] exI [of _ resp] conjI)
qed

end
