(* ===== verification/Node.thy ===== *)
theory Node
  imports Leader Chain Drg Resolve
begin

text \<open>
  \<^verbatim>\<open>internal/network/node.go\<close>, \<^verbatim>\<open>node_helper.go\<close>, \<^verbatim>\<open>node_leader.go\<close>, \<^verbatim>\<open>message.go\<close> and the set-up in
  \<^verbatim>\<open>simulation.go\<close>: a node, the handlers of its messages and the slot loop. A handler runs as one step
  and gives the messages it sends. What the node uses of the platform is the record \<open>platform\<close>: the
  packages already introduced, the formatting of a \<^verbatim>\<open>float64\<close>, the trusted registries, and the orders
  in which Go visits a map and \<^verbatim>\<open>sort.Slice\<close> leaves equal names. Content that cannot be decoded reaches most
  handlers as the value the decoder left, which is a value of the message type like any other. The
  DNS cache is a variable of the package, so it is an argument of its own. The chain of a new node is
  nil, as in the code; its ledger and commit store are empty instead, since nothing reads them
  before the chain and the configuration are set. Handlers that walk the
  stored chain give \<open>None\<close> when the walk never ends.
\<close>

record ('f, 'd, 'r) platform =
  pfCrypto :: crypto
  pfCodec :: codec
  pfAsn1 :: asn1
  pfBloom :: "'f bloom"
  pfBolt :: "'d bolt"
  pfFloat :: "'r float64"
  pfFormat :: "'r \<Rightarrow> string"
  pfRegistries :: "bytes list"
  pfJournal :: "journal \<Rightarrow> string list"
  pfRandoms :: "(string, slice) fmap \<Rightarrow> string list"
  pfPool :: "txpool \<Rightarrow> int list"
  pfSortByName :: "Transaction list \<Rightarrow> Transaction list"

record 'r NodeConfig =
  InitialTimestamp :: int64
  SlotInterval :: int64
  SlotsPerEpoch :: int64
  ConfigSeed :: 'r

record ('f, 'd, 'r) Node =
  ndConfig :: "'r NodeConfig"
  ndKeyPair :: KeyPair
  RegistryKeys :: "bytes list"
  SlotLeaders :: "(int64, slice) fmap"
  TransactionPool :: txpool
  ndIndexManager :: "'f IndexManager"
  ndBlockchain :: "'d Blockchain option"
  RandomNumber :: slice
  ndDrg :: drg
  ValidatorSetCache :: "string fset option"
  IsFullNode :: bool
  KnownFullPeers :: "string list"
  HeaderChain :: "BlockHeader list"
  hasGatewayServer :: bool
  ndBalanceLedger :: BalanceLedger
  ndCommitStore :: CommitStore
  ndStake :: StakeState
  CurrentSlot :: int64

record BDNSResponse =
  brTimestamp :: int64
  brDomainName :: string
  brIP :: string
  brCacheTTL :: int64
  brOwnerKey :: slice
  brSignature :: slice

record SlotSkipAttestation =
  ssaSlot :: int64
  ssaLeaderKey :: bytes
  ssaSignature :: slice

record DNSProofResponse =
  dpDomainName :: string
  dpRecords :: "Record list"
  dpTransaction :: Transaction
  dpProof :: MerkleProof
  dpBlockHeader :: BlockHeader

datatype message =
    DNSRequest string
  | DNSResponse BDNSResponse
  | MsgTransaction Transaction
  | MsgBlock Block
  | MsgRandomNumber
  | MsgInv
  | MsgGetBlock int64
  | MsgGetData
  | MsgDNSQuery string
  | MsgDNSProof DNSProofResponse
  | MsgMerkleProof MerkleProof
  | MsgCommitment CommitmentMsg
  | MsgReveal RevealMsg
  | MsgSlotSkip SlotSkipAttestation

text \<open>What leaves a node: gossip, a message to one peer, a transaction on the forwarding stream, and a
  header handed to the gateway server.\<close>

datatype out =
    Broadcast message
  | Direct message string
  | ForwardTx Transaction string
  | GatewayHeader BlockHeader

type_synonym ('f, 'd, 'r) stepped = "panic + ('f, 'd, 'r) Node \<times> out list"

definition gomod :: "int64 \<Rightarrow> int64 \<Rightarrow> panic + int64" where
  "gomod a b = (if b = 0 then Inl DivideByZero else Inr (a smod b))"

definition deref :: "'a option \<Rightarrow> panic + 'a" where
  "deref x = (case x of None \<Rightarrow> Inl NilDereference | Some v \<Rightarrow> Inr v)"

subsection \<open>Set-up\<close>

definition NewNode :: "('f, 'd, 'r) platform \<Rightarrow> KeyPair \<Rightarrow> bool \<Rightarrow> ('f, 'd, 'r) Node" where
  "NewNode PF kp isFullNode =
     \<lparr>ndConfig = \<lparr>InitialTimestamp = 0, SlotInterval = 0, SlotsPerEpoch = 0, ConfigSeed = fZero (pfFloat PF)\<rparr>,
      ndKeyPair = kp, RegistryKeys = [], SlotLeaders = fmempty, TransactionPool = fmempty,
      ndIndexManager = NewIndexManager (pfBloom PF), ndBlockchain = None, RandomNumber = None,
      ndDrg = NewDrg, ValidatorSetCache = None, IsFullNode = isFullNode, KnownFullPeers = [], HeaderChain = [],
      hasGatewayServer = False, ndBalanceLedger = NewBalanceLedger, ndCommitStore = NewCommitStore,
      ndStake = \<lparr>ssMap = NewStakeMap, ssQueue = NewUnstakeQueue, ssSlashed = {||}\<rparr>, CurrentSlot = 0\<rparr>"

definition genesisBalance :: uint64 where "genesisBalance = 1000000"

definition InitializeNodeAsync ::
    "('f, 'd, 'r) platform \<Rightarrow> bytes list \<Rightarrow> int64 \<Rightarrow> int64 \<Rightarrow> int64 \<Rightarrow> 'r \<Rightarrow> ('f, 'd, 'r) Node \<Rightarrow> ('f, 'd, 'r) Node" where
  "InitializeNodeAsync PF registryKeys ts interval epochSlots seed n =
     n\<lparr>RegistryKeys := registryKeys,
       ndBalanceLedger := foldl (\<lambda>l regKey. Seed l (hex regKey) genesisBalance) NewBalanceLedger registryKeys,
       ndCommitStore := NewCommitStore, ndBlockchain := Some (CreateBlockchain (pfBolt PF)),
       ndConfig := \<lparr>InitialTimestamp = i64 (ts + 5), SlotInterval = interval, SlotsPerEpoch = epochSlots, ConfigSeed = seed\<rparr>\<rparr>"

definition GenerateRandomNumber :: "bytes option \<Rightarrow> ('f, 'd, 'r) Node \<Rightarrow> panic + ('f, 'd, 'r) Node" where
  "GenerateRandomNumber randomBytes n =
     (case randomBytes of None \<Rightarrow> Inl LogPanic | Some r \<Rightarrow> Inr (n\<lparr>RandomNumber := Some r\<rparr>))"

definition RebuildValidatorSetCache :: "StakeMap option \<Rightarrow> ('f, 'd, 'r) Node \<Rightarrow> ('f, 'd, 'r) Node" where
  "RebuildValidatorSetCache stakeMap n =
     (case stakeMap of None \<Rightarrow> n | Some sm \<Rightarrow> n\<lparr>ValidatorSetCache := Some (fmdom (GetAll sm))\<rparr>)"

definition IsKnownValidator :: "('f, 'd, 'r) Node \<Rightarrow> string \<Rightarrow> bool" where
  "IsKnownValidator n pubKeyHex = (case ValidatorSetCache n of None \<Rightarrow> False | Some snap \<Rightarrow> pubKeyHex |\<in>| snap)"

definition NewRFC1035Handler :: "('f, 'd, 'r) Node \<Rightarrow> RFC1035Handler" where
  "NewRFC1035Handler n = \<lparr>slotInterval = SlotInterval (ndConfig n), initialTimestamp = InitialTimestamp (ndConfig n)\<rparr>"

subsection \<open>Leader election and slots\<close>

definition latest :: "('f, 'd, 'r) platform \<Rightarrow> ('f, 'd, 'r) Node \<Rightarrow> panic + Block option" where
  "latest PF n = bindR (deref (ndBlockchain n)) (GetLatestBlock (pfBolt PF) (pfCodec PF))"

definition store_block :: "('f, 'd, 'r) platform \<Rightarrow> Block \<Rightarrow> ('f, 'd, 'r) Node \<Rightarrow> panic + 'd Blockchain" where
  "store_block PF b n = bindR (deref (ndBlockchain n)) (\<lambda>bc. AddBlock (pfBolt PF) (pfCodec PF) bc b)"

definition GetSlotLeader :: "('f, 'd, 'r) platform \<Rightarrow> int64 \<Rightarrow> ('f, 'd, 'r) Node \<Rightarrow> panic + ('f, 'd, 'r) Node \<times> slice" where
  "GetSlotLeader PF epoch n =
     (case fmlookup (SlotLeaders n) epoch of
        Some slotLeader \<Rightarrow> Inr (n, slotLeader)
      | None \<Rightarrow>
          (let drgEpoch = i64 (epoch - 1);
               stakeData = GetAll (ssMap (ndStake n));
               epochReveals = (if drgEpoch \<ge> 0 then inner (EpochRandoms (ndDrg n)) drgEpoch else fmempty)
           in
           bindR (latest PF n) (\<lambda>latestBlock.
             let (prevBlockHash, currentSlot) =
                   (case latestBlock of None \<Rightarrow> ([], 0) | Some b \<Rightarrow> (BHash b, SlotNumber b))
             in
             bindR (GetSlotLeaderUtil (pfFloat PF) (pfRandoms PF) (RegistryKeys n) stakeData epochReveals prevBlockHash currentSlot)
               (\<lambda>(leaderHex, _).
                 let leaderBytes = find (\<lambda>key. hex key = leaderHex) (RegistryKeys n);
                     leaderBytes = (if leaderBytes = None \<and> length (RegistryKeys n) > 0 then Some (RegistryKeys n ! 0) else leaderBytes)
                 in Inr (n\<lparr>SlotLeaders := fmupd epoch leaderBytes (SlotLeaders n)\<rparr>, leaderBytes)))))"

text \<open>The two quantities derived from the clock.\<close>

definition slots_per_day :: "('f, 'd, 'r) Node \<Rightarrow> panic + int64" where
  "slots_per_day n = godiv 86400 (SlotInterval (ndConfig n))"

definition slot_at :: "int64 \<Rightarrow> ('f, 'd, 'r) Node \<Rightarrow> panic + int64" where
  "slot_at now n = godiv (i64 (now - InitialTimestamp (ndConfig n))) (SlotInterval (ndConfig n))"

subsection \<open>Blocks and headers\<close>

text \<open>\<^verbatim>\<open>AddBlockHeader\<close>: duplicates of the latest header and headers that do not extend it are dropped.\<close>

definition AddBlockHeader :: "BlockHeader \<Rightarrow> ('f, 'd, 'r) Node \<Rightarrow> ('f, 'd, 'r) Node" where
  "AddBlockHeader header n =
     (if length (HeaderChain n) > 0 then
        (let latestH = last (HeaderChain n) in
         if bhHash header = bhHash latestH then n
         else if bhPrevHash header \<noteq> bhHash latestH then n
         else n\<lparr>HeaderChain := HeaderChain n @ [header]\<rparr>)
      else n\<lparr>HeaderChain := HeaderChain n @ [header]\<rparr>)"

fun mark_redeemed :: "'d bolt \<Rightarrow> Transaction list \<Rightarrow> 'd Blockchain \<Rightarrow> 'd Blockchain" where
  "mark_redeemed D [] bc = bc"
| "mark_redeemed D (tx # txs) bc =
     mark_redeemed D txs
       (if RedeemsTxID tx \<noteq> 0 \<and> (TxType tx = UPDATE \<or> TxType tx = RENEW \<or> TxType tx = REVOKE)
        then (case MarkAsSpentDB D bc (RedeemsTxID tx) of None \<Rightarrow> bc | Some bc' \<Rightarrow> bc')
        else bc)"

text \<open>The second half of \<^verbatim>\<open>AddBlock\<close>, for a block that passed its checks.\<close>

definition file_block :: "('f, 'd, 'r) platform \<Rightarrow> Block \<Rightarrow> ('f, 'd, 'r) Node \<Rightarrow> ('f, 'd, 'r) stepped" where
  "file_block PF block n =
     (let n = n\<lparr>TransactionPool := RemoveTxsFromPool (Transactions block) (TransactionPool n)\<rparr> in
      bindR (store_block PF block n) (\<lambda>bc.
        let n = n\<lparr>ndBlockchain := Some (mark_redeemed (pfBolt PF) (Transactions block) bc)\<rparr> in
        if IsFullNode n then Inr (n, if hasGatewayServer n then [GatewayHeader (Header block)] else [])
        else Inr (AddBlockHeader (Header block) n, [])))"

definition nodeAddBlock :: "('f, 'd, 'r) platform \<Rightarrow> Block \<Rightarrow> ('f, 'd, 'r) Node \<Rightarrow> ('f, 'd, 'r) stepped" where
  "nodeAddBlock PF block n =
     bindR (godiv (i64 (BTimestamp block - InitialTimestamp (ndConfig n)))
              (i64 (SlotInterval (ndConfig n) * SlotsPerEpoch (ndConfig n)))) (\<lambda>epoch.
     bindR (GetSlotLeader PF epoch n) (\<lambda>(n, slotLeader).
     bindR (slots_per_day n) (\<lambda>slotsPerDay.
       if BIndex block = 0 then
         (if \<not> ValidateGenesisBlock (pfCrypto PF) block (RegistryKeys n) (sl slotLeader) then Inr (n, [])
          else file_block PF block n)
       else
         (let ops = IndexOverlayOps (pfBloom PF) (pfJournal PF) in
          bindR (latest PF n) (\<lambda>oldBlock.
          bindR (ValidateBlock (pfCrypto PF) (pfCodec PF) (pfRegistries PF) ops block oldBlock (sl slotLeader)
                   (ndBalanceLedger n) (NewIndexOverlay (ndIndexManager n)) (Some (GetPurgeableDomains (ndIndexManager n)))
                   slotsPerDay (ndStake n) (ndCommitStore n)) (\<lambda>res.
            case res of
              None \<Rightarrow> Inr (n, [])
            | Some r \<Rightarrow>
                bindR (diCommit ops (vbIndex r)) (\<lambda>imOverlay.
                  file_block PF block
                    (RebuildValidatorSetCache (Some (ssMap (vbStake r)))
                      (n\<lparr>ndBalanceLedger := vbLedger r, ndCommitStore := CommitO (vbCommits r) (ndCommitStore n),
                         ndIndexManager := real imOverlay, ndStake := vbStake r\<rparr>)))))))))"

subsection \<open>Transactions\<close>

definition pool_ctx ::
    "('f, 'd, 'r) platform \<Rightarrow> ('f, 'd, 'r) Node \<Rightarrow> int64 \<Rightarrow> int64 \<Rightarrow> int64 \<Rightarrow> ('f IndexManager, CommitOverlay) vctx" where
  "pool_ctx PF n currentSlot slotsPerDay nextBlockIndex =
     \<lparr>vCrypto = pfCrypto PF, vCodec = pfCodec PF, vRegistries = pfRegistries PF, vIndexOps = IndexManagerOps (pfBloom PF),
      vCommitOps = CommitOverlayOps, vLedger = ndBalanceLedger n, vIm = ndIndexManager n,
      vCs = Some (stagedCommits (ndCommitStore n) nextBlockIndex), vSlot = currentSlot, vSlotsPerDay = slotsPerDay,
      vIsBlock = False, vSlotLeader = [], vBlockIndex = nextBlockIndex, vStakeMap = CloneStake (ssMap (ndStake n)),
      vQueue = CloneQueue (ssQueue (ndStake n)), vSlashed = ssSlashed (ndStake n)\<rparr>"

definition pending_list :: "('f, 'd, 'r) platform \<Rightarrow> txpool \<Rightarrow> Transaction \<Rightarrow> Transaction list" where
  "pending_list PF pool tx =
     sort_key (\<lambda>t. (TxNonce t, TID t)) (map (\<lambda>k. the (fmlookup pool k)) (pfPool PF pool) @ [tx])"

definition AddTransaction ::
    "('f, 'd, 'r) platform \<Rightarrow> int64 \<Rightarrow> Transaction \<Rightarrow> ('f, 'd, 'r) Node \<Rightarrow> panic + ('f, 'd, 'r) Node" where
  "AddTransaction PF now tx n =
     (if fmlookup (TransactionPool n) (TID tx) \<noteq> None then Inr n
      else
        (let pendingList = pending_list PF (TransactionPool n) tx in
         if SlotInterval (ndConfig n) = 0 then Inr n
         else
           bindR (slot_at now n) (\<lambda>currentSlot.
           bindR (slots_per_day n) (\<lambda>slotsPerDay.
           bindR (latest PF n) (\<lambda>latestBlock.
           bindR (deref latestBlock) (\<lambda>latestBlock.
             let nextBlockIndex = i64 (BIndex latestBlock + 1) in
             bindR (ValidateTransactions (pool_ctx PF n currentSlot slotsPerDay nextBlockIndex) pendingList) (\<lambda>ok.
               if \<not> ok then Inr n
               else Inr (n\<lparr>TransactionPool := fmupd (TID tx) tx (TransactionPool n)\<rparr>))))))))"

definition nodeBroadcastTransaction ::
    "('f, 'd, 'r) platform \<Rightarrow> int64 \<Rightarrow> Transaction \<Rightarrow> ('f, 'd, 'r) Node \<Rightarrow> ('f, 'd, 'r) stepped" where
  "nodeBroadcastTransaction PF now tx n =
     bindR (AddTransaction PF now tx n) (\<lambda>n.
       Inr (n, Broadcast (MsgTransaction tx) # map (ForwardTx tx) (KnownFullPeers n)))"

subsection \<open>Serving the chain\<close>

definition HandleINV :: "('f, 'd, 'r) platform \<Rightarrow> string \<Rightarrow> ('f, 'd, 'r) Node \<Rightarrow> panic + out list" where
  "HandleINV PF sender n =
     bindR (latest PF n) (\<lambda>b. bindR (deref b) (\<lambda>b. Inr [Direct (MsgGetBlock (BIndex b)) sender]))"

definition HandleGetData :: "('f, 'd, 'r) platform \<Rightarrow> string \<Rightarrow> ('f, 'd, 'r) Node \<Rightarrow> out list" where
  "HandleGetData PF sender n =
     map (\<lambda>k. Direct (MsgTransaction (the (fmlookup (TransactionPool n) k))) sender) (pfPool PF (TransactionPool n))"

definition HandleGetBlock :: "('f, 'd, 'r) platform \<Rightarrow> string \<Rightarrow> ('f, 'd, 'r) Node \<Rightarrow> (panic + out list) option" where
  "HandleGetBlock PF sender n =
     (case bindR (deref (ndBlockchain n)) (\<lambda>bc. bindR (bindR (latest PF n) deref) (\<lambda>b. Inr (bc, b))) of
        Inl p \<Rightarrow> Some (Inl p)
      | Inr (bc, b) \<Rightarrow>
          (let start = i64 (BIndex b - 5); start = (if start < 0 then 0 else start) in
           map_option (\<lambda>res. bindR res (\<lambda>bs. Inr (map (\<lambda>b. Direct (MsgBlock b) sender) bs)))
             (GetBlocksFrom (pfBolt PF) (pfCodec PF) bc start)))"

text \<open>The block at a location and a proof for the transaction there, as the request handlers look them up.\<close>

definition block_at :: "('f, 'd, 'r) platform \<Rightarrow> ('f, 'd, 'r) Node \<Rightarrow> TxLocation \<Rightarrow> (panic + (Block \<times> MerkleProof) option) option" where
  "block_at PF n loc =
     (case ndBlockchain n of
        None \<Rightarrow> Some (Inl NilDereference)
      | Some bc \<Rightarrow>
          map_option (\<lambda>res. bindR res (\<lambda>block.
            case block of
              None \<Rightarrow> Inr None
            | Some b \<Rightarrow>
                (case GenerateMerkleProof (pfCodec PF) b (tlTxIndex loc) of
                   None \<Rightarrow> Inr None
                 | Some proof \<Rightarrow> Inr (Some (b, proof)))))
            (GetBlockByIndex (pfBolt PF) (pfCodec PF) bc (tlBlockIndex loc)))"

definition HandleMerkleRequest ::
    "('f, 'd, 'r) platform \<Rightarrow> string \<Rightarrow> string \<Rightarrow> ('f, 'd, 'r) Node \<Rightarrow> (panic + out list) option" where
  "HandleMerkleRequest PF sender domain n =
     (case GetTxLocation (ndIndexManager n) domain of
        None \<Rightarrow> Some (Inr [])
      | Some loc \<Rightarrow>
          map_option (\<lambda>res. bindR res (\<lambda>found.
            case found of None \<Rightarrow> Inr [] | Some (b, proof) \<Rightarrow> Inr [Direct (MsgMerkleProof proof) sender])) (block_at PF n loc))"

definition HandleDNSQuery ::
    "('f, 'd, 'r) platform \<Rightarrow> int64 \<Rightarrow> string \<Rightarrow> string \<Rightarrow> ('f, 'd, 'r) Node \<Rightarrow> (panic + out list) option" where
  "HandleDNSQuery PF now sender domain n =
     (if \<not> IsFullNode n then Some (Inr [])
      else
        (case GetDomain (pfBloom PF) (ndIndexManager n) domain of
           None \<Rightarrow> Some (Inr [])
         | Some tx \<Rightarrow>
             (case bindR (slots_per_day n) (\<lambda>slotsPerDay. bindR (slot_at now n) (\<lambda>currentSlot.
                     Inr (GetDomainPhase currentSlot (ExpirySlot tx) slotsPerDay))) of
                Inl p \<Rightarrow> Some (Inl p)
              | Inr phase \<Rightarrow>
                  if phase \<noteq> ''active'' then Some (Inr [])
                  else
                    (case GetTxLocation (ndIndexManager n) domain of
                       None \<Rightarrow> Some (Inr [])
                     | Some loc \<Rightarrow>
                         map_option (\<lambda>res. bindR res (\<lambda>found.
                           case found of
                             None \<Rightarrow> Inr []
                           | Some (block, proof) \<Rightarrow>
                               Inr [Direct (MsgDNSProof \<lparr>dpDomainName = domain, dpRecords = Records tx, dpTransaction = tx,
                                      dpProof = proof, dpBlockHeader = Header block\<rparr>) sender])) (block_at PF n loc)))))"

subsection \<open>Light clients\<close>

text \<open>\<^verbatim>\<open>waitForHeader\<close>: the argument lists the header chains seen by the polls before the deadline. A
  negative index passes the test and panics.\<close>

fun waitForHeader :: "BlockHeader list list \<Rightarrow> int64 \<Rightarrow> panic + BlockHeader option" where
  "waitForHeader [] index = Inr None"
| "waitForHeader (headers # polls) index =
     (if index < int (length headers) then (if index < 0 then Inl IndexOutOfRange else Inr (Some (headers ! nat index)))
      else waitForHeader polls index)"

definition HandleDNSProof ::
    "int \<Rightarrow> BlockHeader list list \<Rightarrow> DNSProofResponse \<Rightarrow> ('f, 'd, 'r) Node \<Rightarrow> cache \<Rightarrow> panic + cache" where
  "HandleDNSProof now later response n cache =
     (if IsFullNode n then Inr cache
      else
        bindR (waitForHeader (HeaderChain n # later) (bhIndex (dpBlockHeader response))) (\<lambda>header.
        case header of
          None \<Rightarrow> Inr cache
        | Some header \<Rightarrow>
            if bhHash header \<noteq> bhHash (dpBlockHeader response) then Inr cache
            else
              bindR (VerifyMerkleProof (Some ((dpProof response)\<lparr>mpMerkleRoot := bhMerkleRoot header\<rparr>))) (\<lambda>ok.
                if \<not> ok then Inr cache
                else
                  (let aRecords = filterByType (dpRecords response) ''A'' in
                   if length aRecords > 0 then Inr (SetToCache now cache (dpDomainName response) ''A'' aRecords)
                   else Inr cache))))"

record pbMerkleProof =
  pbTxHash :: bytes
  pbProofPath :: "bytes list"
  pbDirections :: "bool list"

record DomainQueryResponse =
  pbDomainName :: string
  pbIpAddress :: string
  pbProof :: "pbMerkleProof option"
  pbBlockHeader :: "BlockHeader option"

definition kConfirmations :: int64 where "kConfirmations = 6"

definition HandleDNSProofGRPC ::
    "('f, 'd, 'r) platform \<Rightarrow> BlockHeader list list \<Rightarrow> DomainQueryResponse option \<Rightarrow> ('f, 'd, 'r) Node \<Rightarrow> panic + bool" where
  "HandleDNSProofGRPC PF later resp n =
     (case resp of
        None \<Rightarrow> Inr False
      | Some resp \<Rightarrow>
          (case (pbBlockHeader resp, pbProof resp) of
             (Some claimed, Some p) \<Rightarrow>
               bindR (waitForHeader (HeaderChain n # later) (bhIndex claimed)) (\<lambda>header.
               case header of
                 None \<Rightarrow> Inr False
               | Some header \<Rightarrow>
                   if bhHash header \<noteq> bhHash claimed then Inr False
                   else
                     (let proof = \<lparr>mpTxHash = pbTxHash p, ProofPath = pbProofPath p, Directions = pbDirections p,
                            mpMerkleRoot = bhMerkleRoot header\<rparr>
                      in
                      bindR (VerifyMerkleProof (Some proof)) (\<lambda>ok.
                        if \<not> ok then Inr False
                        else
                          bindR (latest PF n) (\<lambda>tip. bindR (deref tip) (\<lambda>tip.
                            if i64 (BIndex tip - bhIndex claimed) < kConfirmations then Inr False else Inr True)))))
           | _ \<Rightarrow> Inr False))"

subsection \<open>Legacy queries over gossip\<close>

definition first_A :: "Record list \<Rightarrow> string" where
  "first_A records = (case filterByType records ''A'' of [] \<Rightarrow> [] | r # _ \<Rightarrow> RValue r)"

definition DNSRequestHandler ::
    "('f, 'd, 'r) platform \<Rightarrow> int64 \<Rightarrow> int64 \<Rightarrow> string \<Rightarrow> string \<Rightarrow> ('f, 'd, 'r) Node \<Rightarrow> DNSMetrics \<Rightarrow> panic + DNSMetrics \<times> out list" where
  "DNSRequestHandler PF now elapsed domain reqSender n metrics =
     (if \<not> IsFullNode n then
        (case filter (\<lambda>peerID. peerID \<noteq> reqSender) (KnownFullPeers n) of
           [] \<Rightarrow> Inr (metrics, [])
         | peerID # _ \<Rightarrow> Inr (AddLightNodeForwardedResolution metrics elapsed, [Direct (MsgDNSQuery domain) peerID]))
      else
        (let metrics = AddFullNodeDirectResolution metrics elapsed in
         case GetDomain (pfBloom PF) (ndIndexManager n) domain of
           None \<Rightarrow> Inr (metrics, [])
         | Some tx \<Rightarrow>
             bindR (slots_per_day n) (\<lambda>slotsPerDay. bindR (slot_at now n) (\<lambda>currentSlot.
               if GetDomainPhase currentSlot (ExpirySlot tx) slotsPerDay \<noteq> ''active'' then Inr (metrics, [])
               else Inr (metrics, [Direct (DNSResponse \<lparr>brTimestamp = TxTimestamp tx, brDomainName = DomainName tx,
                   brIP = first_A (Records tx), brCacheTTL = CacheTTL tx, brOwnerKey = OwnerKey tx,
                   brSignature = TxSignature tx\<rparr>) reqSender])))))"

definition DNSResponseHandler :: "int \<Rightarrow> BDNSResponse \<Rightarrow> cache \<Rightarrow> cache" where
  "DNSResponseHandler now res cache =
     (if brIP res \<noteq> [] then SetToCache now cache (brDomainName res) ''A'' [Record ''A'' (brIP res) 0] else cache)"

definition MakeDNSRequest :: "int \<Rightarrow> string \<Rightarrow> cache \<Rightarrow> cache \<times> out list" where
  "MakeDNSRequest now domainName cache =
     (let (cache, found) = GetFromCache now cache domainName ''A'' in
      case found of Some records \<Rightarrow> (cache, []) | None \<Rightarrow> (cache, [Broadcast (DNSRequest domainName)]))"

subsection \<open>Skipped slots\<close>

definition slot_skip_hash :: "int64 \<Rightarrow> bytes \<Rightarrow> bytes" where
  "slot_skip_hash slot key = sha256 (bytes_of_string ''slot-skip:'' @ IntToByteArr slot @ key)"

definition BroadcastSlotSkip :: "('f, 'd, 'r) platform \<Rightarrow> int64 \<Rightarrow> ('f, 'd, 'r) Node \<Rightarrow> out list" where
  "BroadcastSlotSkip PF slot n =
     [Broadcast (MsgSlotSkip \<lparr>ssaSlot = slot, ssaLeaderKey = kpPublicKey (ndKeyPair n),
        ssaSignature = SignASN1 (pfAsn1 PF) (kpPrivateKey (ndKeyPair n)) (slot_skip_hash slot (kpPublicKey (ndKeyPair n)))\<rparr>)]"

definition handleSlotSkip :: "('f, 'd, 'r) platform \<Rightarrow> SlotSkipAttestation \<Rightarrow> ('f, 'd, 'r) Node \<Rightarrow> panic + ('f, 'd, 'r) Node" where
  "handleSlotSkip PF skip n =
     bindR (godiv (ssaSlot skip) (SlotsPerEpoch (ndConfig n))) (\<lambda>epoch.
     bindR (GetSlotLeader PF epoch n) (\<lambda>(n, expectedLeader).
       if ssaLeaderKey skip \<noteq> sl expectedLeader then Inr n
       else
         (case BytesToPublicKey (pfCrypto PF) (ssaLeaderKey skip) of
            None \<Rightarrow> Inr n
          | Some pubKey \<Rightarrow>
              if \<not> VerifyASN1 (pfAsn1 PF) pubKey (slot_skip_hash (ssaSlot skip) (ssaLeaderKey skip)) (sl (ssaSignature skip)) then Inr n
              else if ssaSlot skip > CurrentSlot n then Inr (n\<lparr>CurrentSlot := ssaSlot skip\<rparr>)
              else Inr n)))"

subsection \<open>The dispatcher\<close>

text \<open>What a handler reads from its surroundings: the clock in seconds and in nanoseconds, the time since
  the handler started, and the header chains its polls will see.\<close>

record surroundings =
  suUnix :: int64
  suNow :: int
  suElapsed :: int64
  suPolls :: "BlockHeader list list"

type_synonym ('f, 'd, 'r) proc = "('f, 'd, 'r) Node \<times> cache \<times> DNSMetrics"

definition lift_node :: "panic + ('f, 'd, 'r) Node \<Rightarrow> cache \<Rightarrow> DNSMetrics \<Rightarrow> (panic + ('f, 'd, 'r) proc \<times> out list) option" where
  "lift_node r cache metrics = Some (bindR r (\<lambda>n. Inr ((n, cache, metrics), [])))"

fun HandleMsgGivenType ::
    "('f, 'd, 'r) platform \<Rightarrow> surroundings \<Rightarrow> message \<Rightarrow> string \<Rightarrow> ('f, 'd, 'r) proc
     \<Rightarrow> (panic + ('f, 'd, 'r) proc \<times> out list) option" where
  "HandleMsgGivenType PF su (DNSRequest domain) sender (n, cache, metrics) =
     Some (bindR (DNSRequestHandler PF (suUnix su) (suElapsed su) domain sender n metrics) (\<lambda>(metrics, outs).
       Inr ((n, cache, metrics), outs)))"
| "HandleMsgGivenType PF su (DNSResponse res) sender (n, cache, metrics) =
     Some (Inr ((n, DNSResponseHandler (suNow su) res cache, metrics), []))"
| "HandleMsgGivenType PF su (MsgTransaction tx) sender (n, cache, metrics) =
     lift_node (AddTransaction PF (suUnix su) tx n) cache metrics"
| "HandleMsgGivenType PF su (MsgBlock block) sender (n, cache, metrics) =
     Some (bindR (nodeAddBlock PF block n) (\<lambda>(n, outs). Inr ((n, cache, metrics), outs)))"
| "HandleMsgGivenType PF su (MsgCommitment cMsg) sender (n, cache, metrics) =
     lift_node (bindR (CommitmentHandler (pfCrypto PF) (pfAsn1 PF) cMsg (ndDrg n)) (\<lambda>(d, err). Inr (n\<lparr>ndDrg := d\<rparr>))) cache metrics"
| "HandleMsgGivenType PF su (MsgReveal rMsg) sender (n, cache, metrics) =
     lift_node (bindR (RevealHandler (pfCrypto PF) (pfAsn1 PF) rMsg (ndDrg n)) (\<lambda>(d, err). Inr (n\<lparr>ndDrg := d\<rparr>))) cache metrics"
| "HandleMsgGivenType PF su (MsgSlotSkip skip) sender (n, cache, metrics) =
     lift_node (handleSlotSkip PF skip n) cache metrics"
| "HandleMsgGivenType PF su MsgInv sender (n, cache, metrics) =
     Some (bindR (HandleINV PF sender n) (\<lambda>outs. Inr ((n, cache, metrics), outs)))"
| "HandleMsgGivenType PF su MsgGetData sender (n, cache, metrics) =
     Some (Inr ((n, cache, metrics), HandleGetData PF sender n))"
| "HandleMsgGivenType PF su (MsgGetBlock height) sender (n, cache, metrics) =
     map_option (\<lambda>r. bindR r (\<lambda>outs. Inr ((n, cache, metrics), outs))) (HandleGetBlock PF sender n)"
| "HandleMsgGivenType PF su (MsgDNSQuery domain) sender (n, cache, metrics) =
     map_option (\<lambda>r. bindR r (\<lambda>outs. Inr ((n, cache, metrics), outs))) (HandleDNSQuery PF (suUnix su) sender domain n)"
| "HandleMsgGivenType PF su (MsgDNSProof response) sender (n, cache, metrics) =
     Some (bindR (HandleDNSProof (suNow su) (suPolls su) response n cache) (\<lambda>cache. Inr ((n, cache, metrics), [])))"
| "HandleMsgGivenType PF su (MsgMerkleProof proof) sender (n, cache, metrics) = Some (Inr ((n, cache, metrics), []))"
| "HandleMsgGivenType PF su MsgRandomNumber sender (n, cache, metrics) = Some (Inr ((n, cache, metrics), []))"

subsection \<open>The slot loop\<close>

text \<open>What a tick reads: the clock, and the random bytes of a commitment.\<close>

record tick =
  tkUnix :: int64
  tkRandU :: "bytes option"
  tkRandR :: "bytes option"

definition send_commitment ::
    "('f, 'd, 'r) platform \<Rightarrow> tick \<Rightarrow> int64 \<Rightarrow> ('f, 'd, 'r) Node \<Rightarrow> ('f, 'd, 'r) Node \<times> out list" where
  "send_commitment PF tk epoch n =
     (let (d, res) = BroadcastCommitment (pfAsn1 PF) (tkRandU tk) (tkRandR tk) (ndKeyPair n) epoch (ndDrg n) in
      (n\<lparr>ndDrg := d\<rparr>, case res of Inl _ \<Rightarrow> [] | Inr cm \<Rightarrow> [Broadcast (MsgCommitment cm)]))"

definition send_reveal :: "('f, 'd, 'r) platform \<Rightarrow> int64 \<Rightarrow> ('f, 'd, 'r) Node \<Rightarrow> out list" where
  "send_reveal PF epoch n =
     (case BroadcastReveal (pfAsn1 PF) (ndKeyPair n) epoch (ndDrg n) of Inl _ \<Rightarrow> [] | Inr rm \<Rightarrow> [Broadcast (MsgReveal rm)])"

text \<open>The epoch change at the start of a slot.\<close>

definition enter_slot ::
    "('f, 'd, 'r) platform \<Rightarrow> tick \<Rightarrow> int64 \<Rightarrow> int64 \<Rightarrow> slice \<Rightarrow> ('f, 'd, 'r) Node
     \<Rightarrow> panic + ('f, 'd, 'r) Node \<times> int64 \<times> slice \<times> out list" where
  "enter_slot PF tk slot epoch currSlotLeader n =
     bindR (godiv slot (SlotsPerEpoch (ndConfig n))) (\<lambda>newEpoch.
       if newEpoch = epoch then Inr (n, epoch, currSlotLeader, [])
       else
         (let epoch = newEpoch in
          bindR (GetSlotLeader PF epoch n) (\<lambda>(n, currSlotLeader).
          bindR (gomod slot (SlotsPerEpoch (ndConfig n))) (\<lambda>phase.
            let (n, outs) = (if phase = 0 then send_commitment PF tk (i64 (epoch + 1)) n else (n, []));
                (n, outs') = (if phase = 1 then (n\<lparr>ndDrg := PruneDRGEpochState epoch (ndDrg n)\<rparr>, send_reveal PF epoch n) else (n, []))
            in Inr (n, epoch, currSlotLeader, outs @ outs')))))"

definition return_to_pool :: "Transaction list \<Rightarrow> txpool \<Rightarrow> txpool" where
  "return_to_pool txs pool = foldl (\<lambda>p tx. fmupd (TID tx) tx p) pool txs"

definition blockTxLimit :: nat where "blockTxLimit = 10"

text \<open>The work of the leader: a block from the pool and the purges due, or an attestation that there is
  nothing to do.\<close>

definition create_block ::
    "('f, 'd, 'r) platform \<Rightarrow> int64 \<Rightarrow> int64 \<Rightarrow> slice \<Rightarrow> ('f, 'd, 'r) Node \<Rightarrow> ('f, 'd, 'r) stepped" where
  "create_block PF now slot currSlotLeader n =
     (let pub = kpPublicKey (ndKeyPair n);
          (transactions, pool) = ChooseTxFromPool (pfPool PF) (TransactionPool n) blockTxLimit;
          n = n\<lparr>TransactionPool := pool\<rparr>;
          ops = IndexOverlayOps (pfBloom PF) (pfJournal PF)
      in
      bindR (bindR (latest PF n) deref) (\<lambda>latestBlock.
        let commitOverlay = stagedCommits (ndCommitStore n) (i64 (BIndex latestBlock + 1));
            autoRevocations = GenerateAutoRevocations (pfSortByName PF) (ndIndexManager n) slot transactions;
            transactions = autoRevocations @ transactions
        in
        if length transactions = 0 then Inr (n, BroadcastSlotSkip PF slot n)
        else if SlotNumber latestBlock \<ge> slot
          then Inr (n\<lparr>TransactionPool := return_to_pool transactions (TransactionPool n)\<rparr>, [])
        else
          bindR (slots_per_day n) (\<lambda>slotsPerDay.
          bindR (SealBlock (pfCrypto PF) (pfCodec PF) ops now slot (sl currSlotLeader) pub (kpPrivateKey (ndKeyPair n))
                   slotsPerDay latestBlock transactions (ndBalanceLedger n) (ndStake n) commitOverlay
                   (NewIndexOverlay (ndIndexManager n))) (\<lambda>s.
          bindR (diCommit ops (sbIndex s)) (\<lambda>imOverlay.
            let n = RebuildValidatorSetCache (Some (ssMap (sbStake s)))
                      (n\<lparr>ndBalanceLedger := sbLedger s, ndIndexManager := real imOverlay,
                         ndCommitStore := CommitO (sbCommits s) (ndCommitStore n), ndStake := sbStake s\<rparr>)
            in
            bindR (store_block PF (sbBlock s) n) (\<lambda>bc.
              Inr (n\<lparr>ndBlockchain := Some (mark_redeemed (pfBolt PF) transactions bc)\<rparr>, [Broadcast (MsgBlock (sbBlock s))])))))))"

record ('f, 'd, 'r) loop =
  lpNode :: "('f, 'd, 'r) Node"
  lpSlot :: int64
  lpEpoch :: int64
  lpLeader :: slice

text \<open>Before the loop: a ticker needs a positive interval, the first registry creates the genesis block, and everybody commits for epoch 1.\<close>

definition initial_block :: "('f, 'd, 'r) platform \<Rightarrow> int64 \<Rightarrow> bytes \<Rightarrow> ('f, 'd, 'r) Node \<Rightarrow> ('f, 'd, 'r) stepped" where
  "initial_block PF now currSlotLeader n =
     (if currSlotLeader = kpPublicKey (ndKeyPair n) then
        bindR (NewGenesisBlock (pfCrypto PF) now currSlotLeader (kpPrivateKey (ndKeyPair n)) (RegistryKeys n)
            (bytes_of_string (pfFormat PF (ConfigSeed (ndConfig n))))) (\<lambda>genesisBlock.
        bindR (store_block PF genesisBlock n) (\<lambda>bc.
          Inr (n\<lparr>ndBlockchain := Some bc\<rparr>, [Broadcast (MsgBlock genesisBlock)])))
      else Inr (n, []))"

definition start_loop ::
    "('f, 'd, 'r) platform \<Rightarrow> tick \<Rightarrow> ('f, 'd, 'r) Node \<Rightarrow> panic + ('f, 'd, 'r) loop \<times> out list" where
  "start_loop PF tk n =
     (if i64 (SlotInterval (ndConfig n) * 1000000000) \<le> 0 then Inl NonPositiveTicker
      else if RegistryKeys n = [] then Inl IndexOutOfRange
      else
        bindR (initial_block PF (tkUnix tk) (RegistryKeys n ! 0) n) (\<lambda>(m, outs).
          let (m, outs') = send_commitment PF tk 1 m in
          Inr (\<lparr>lpNode = m, lpSlot = i64 (SlotsPerEpoch (ndConfig m) - 1), lpEpoch = 0, lpLeader = Some (RegistryKeys n ! 0)\<rparr>,
               outs @ outs')))"

definition slot_tick :: "('f, 'd, 'r) platform \<Rightarrow> tick \<Rightarrow> ('f, 'd, 'r) loop \<Rightarrow> panic + ('f, 'd, 'r) loop \<times> out list" where
  "slot_tick PF tk lp =
     (let slot = i64 (lpSlot lp + 1) in
      bindR (enter_slot PF tk slot (lpEpoch lp) (lpLeader lp) (lpNode lp)) (\<lambda>(n, epoch, currSlotLeader, outs).
        let lp = lp\<lparr>lpSlot := slot, lpEpoch := epoch, lpLeader := currSlotLeader\<rparr> in
        if sl currSlotLeader \<noteq> kpPublicKey (ndKeyPair n) then Inr (lp\<lparr>lpNode := n\<rparr>, outs)
        else
          bindR (create_block PF (tkUnix tk) slot currSlotLeader n) (\<lambda>(n, outs').
            Inr (lp\<lparr>lpNode := n\<rparr>, outs @ outs'))))"

end
