(* ===== verification/Light.thy ===== *)
theory Light
  imports Node
begin

text \<open>
  What a light node may conclude: the header chain it collects with \<open>AddBlockHeader\<close>, and the proofs it
  checks with \<open>HandleDNSProof\<close> and \<open>HandleDNSProofGRPC\<close>.
\<close>

subsection \<open>The header chain\<close>

fun headers_linked :: "BlockHeader list \<Rightarrow> bool" where
  "headers_linked (a # b # hs) = (bhPrevHash b = bhHash a \<and> bhHash b \<noteq> bhHash a \<and> headers_linked (b # hs))"
| "headers_linked _ = True"

lemma headers_linked_snoc:
  "hs \<noteq> [] \<Longrightarrow> headers_linked (hs @ [h]) \<longleftrightarrow>
     headers_linked hs \<and> bhPrevHash h = bhHash (last hs) \<and> bhHash h \<noteq> bhHash (last hs)"
  by (induction hs rule: headers_linked.induct) auto

lemma AddBlockHeader_chain:
  "HeaderChain (AddBlockHeader h n) =
     (if HeaderChain n = [] \<or> bhPrevHash h = bhHash (last (HeaderChain n)) \<and> bhHash h \<noteq> bhHash (last (HeaderChain n))
      then HeaderChain n @ [h] else HeaderChain n)"
  by (simp add: AddBlockHeader_def Let_def)

lemma AddBlockHeader_fields [simp]:
  "TransactionPool (AddBlockHeader h n) = TransactionPool n" "ndDrg (AddBlockHeader h n) = ndDrg n"
  "ndConfig (AddBlockHeader h n) = ndConfig n" "ndBlockchain (AddBlockHeader h n) = ndBlockchain n"
  "ndKeyPair (AddBlockHeader h n) = ndKeyPair n" "ndBalanceLedger (AddBlockHeader h n) = ndBalanceLedger n"
  "ndStake (AddBlockHeader h n) = ndStake n" "ndCommitStore (AddBlockHeader h n) = ndCommitStore n"
  "ndIndexManager (AddBlockHeader h n) = ndIndexManager n" "SlotLeaders (AddBlockHeader h n) = SlotLeaders n"
  "IsFullNode (AddBlockHeader h n) = IsFullNode n" "CurrentSlot (AddBlockHeader h n) = CurrentSlot n"
  by (simp_all add: AddBlockHeader_def Let_def)

lemma AddBlockHeader_linked: "headers_linked (HeaderChain n) \<Longrightarrow> headers_linked (HeaderChain (AddBlockHeader h n))"
  by (cases "HeaderChain n = []") (auto simp: AddBlockHeader_chain headers_linked_snoc)

abbreviation receive_headers :: "BlockHeader list \<Rightarrow> ('f, 'd, 'r) Node \<Rightarrow> ('f, 'd, 'r) Node" where
  "receive_headers hs n \<equiv> foldl (\<lambda>n h. AddBlockHeader h n) n hs"

lemma receive_headers_linked: "headers_linked (HeaderChain n) \<Longrightarrow> headers_linked (HeaderChain (receive_headers hs n))"
  by (induction hs arbitrary: n) (simp_all add: AddBlockHeader_linked)

lemma receive_headers_prefix: "\<exists>new. HeaderChain (receive_headers hs n) = HeaderChain n @ new \<and> set new \<subseteq> set hs"
proof (induction hs arbitrary: n)
  case (Cons h hs)
  from Cons [of "AddBlockHeader h n"] show ?case by (fastforce simp: AddBlockHeader_chain split: if_splits)
qed simp

text \<open>A stream that repeats its headers any number of times, as several full nodes cause, adds each once.\<close>

lemma receive_stutter:
  "HeaderChain n = hs @ [h] \<Longrightarrow> HeaderChain (receive_headers (replicate k h) n) = HeaderChain n"
proof (induction k)
  case (Suc k)
  have "AddBlockHeader h n = n" using Suc.prems by (simp add: AddBlockHeader_def)
  with Suc show ?case by simp
qed simp

lemma headers_linked_append: "headers_linked (xs @ ys) \<Longrightarrow> headers_linked xs"
  by (induction xs rule: headers_linked.induct) auto

lemma receive_linked:
  assumes "headers_linked (HeaderChain n @ map fst hks)" "HeaderChain n \<noteq> []"
  shows "HeaderChain (receive_headers (concat (map (\<lambda>(h, k). replicate (Suc k) h) hks)) n) = HeaderChain n @ map fst hks"
  using assms
proof (induction hks arbitrary: n)
  case (Cons hk hks)
  obtain h k where hk: "hk = (h, k)" by (cases hk)
  have "headers_linked (HeaderChain n @ [h])"
    using headers_linked_append [of "HeaderChain n @ [h]" "map fst hks"] Cons.prems(1) by (simp add: hk)
  then have ext: "HeaderChain (AddBlockHeader h n) = HeaderChain n @ [h]"
    using Cons.prems(2) by (simp add: AddBlockHeader_chain headers_linked_snoc)
  let ?n = "receive_headers (replicate k h) (AddBlockHeader h n)"
  have n: "HeaderChain ?n = HeaderChain n @ [h]" using receive_stutter [OF ext, of k] ext by simp
  from Cons.IH [of ?n] Cons.prems n show ?case by (simp add: hk)
qed simp

text \<open>A concrete platform and a light node with two headers.\<close>

definition sample_platform :: "(string fset, (bytes, bytes) fmap, nat) platform" where
  "sample_platform = \<lparr>pfCrypto = sample_crypto, pfCodec = sample_block_codec, pfAsn1 = sample_asn1, pfBloom = sample_bloom,
     pfBolt = sample_bolt, pfFloat = sample_float, pfFormat = (\<lambda>x. []), pfRegistries = [[1, 2, 3, 4]],
     pfJournal = sorted_keys, pfRandoms = sorted_keys, pfPool = sorted_keys, pfSortByName = sort_key DomainName\<rparr>"

definition sample_config :: "nat NodeConfig" where
  "sample_config = \<lparr>InitialTimestamp = 0, SlotInterval = 10, SlotsPerEpoch = 5, ConfigSeed = 0\<rparr>"

definition sample_header :: "nat \<Rightarrow> BlockHeader" where
  "sample_header i = \<lparr>bhIndex = int i, bhSlotNumber = int i, bhHash = [of_nat i], bhPrevHash = [of_nat i - 1],
     bhMerkleRoot = [9], bhIndexHash = []\<rparr>"

definition sample_light :: "(string fset, (bytes, bytes) fmap, nat) Node" where
  "sample_light = (NewNode sample_platform sample_key_pair False)
     \<lparr>ndConfig := sample_config, RegistryKeys := [[1, 2, 3, 4]], HeaderChain := [sample_header 0, sample_header 1]\<rparr>"

text \<open>A light node collects the chain: its header chain is always linked, and a stream that continues
  its last header is taken over completely, even if each header arrives several times in a row.
\<close>

theorem header_stream_collected:
  assumes "headers_linked (HeaderChain n @ map fst hks)" "HeaderChain n \<noteq> []"
  shows "HeaderChain (receive_headers (concat (map (\<lambda>(h, k). replicate (Suc k) h) hks)) n) = HeaderChain n @ map fst hks \<and>
     headers_linked (HeaderChain (receive_headers others n))"
  using receive_linked [OF assms] receive_headers_linked [OF headers_linked_append [OF assms(1)]] by simp

theorem header_stream_collected_witness:
  "HeaderChain (receive_headers (concat (map (\<lambda>(h, k). replicate (Suc k) h) [(sample_header 2, 3), (sample_header 3, 0)])) sample_light) =
     [sample_header 0, sample_header 1, sample_header 2, sample_header 3]"
  using header_stream_collected [of sample_light "[(sample_header 2, 3), (sample_header 3, 0)]"]
  by (simp add: sample_light_def sample_header_def del: foldl_Cons)

text \<open>One lost header stops a light node: once a header was missed, none of those that follow it is
  accepted, however many arrive. The slot loop hands no header of its own blocks to the gateway.
\<close>

theorem missed_header_stalls:
  assumes "HeaderChain n \<noteq> []" "\<forall>h \<in> set hs. bhPrevHash h \<noteq> bhHash (last (HeaderChain n))"
  shows "HeaderChain (receive_headers hs n) = HeaderChain n"
  using assms
proof (induction hs arbitrary: n)
  case (Cons h hs)
  then have "HeaderChain (AddBlockHeader h n) = HeaderChain n" by (simp add: AddBlockHeader_chain)
  with Cons show ?case by simp
qed simp

theorem missed_header_stalls_witness:
  "HeaderChain (receive_headers [sample_header 3, sample_header 4] sample_light) = HeaderChain sample_light"
  by (rule missed_header_stalls) (simp_all add: sample_light_def sample_header_def)

subsection \<open>Proofs\<close>

lemma waitForHeader_Some:
  "waitForHeader polls i = Inr (Some h) \<Longrightarrow> \<exists>hs \<in> set polls. 0 \<le> i \<and> i < int (length hs) \<and> h = hs ! nat i"
  by (induction polls i rule: waitForHeader.induct) (auto split: if_split_asm)

lemma waitForHeader_first:
  "0 \<le> i \<Longrightarrow> i < int (length hs) \<Longrightarrow> waitForHeader (hs # polls) i = Inr (Some (hs ! nat i))"
  by simp

text \<open>A proof that \<open>HandleDNSProofGRPC\<close> accepts leads from its transaction hash to the Merkle root of a
  header the node itself holds at the claimed height, and the node's chain is at least six blocks
  higher; and every such proof is accepted.
\<close>

theorem spv_accepts_iff:
  assumes "latest PF n = Inr (Some best)" "bhIndex claimed < int (length (HeaderChain n))" "0 \<le> bhIndex claimed"
    and "pbBlockHeader resp = Some claimed" "pbProof resp = Some p"
  shows "HandleDNSProofGRPC PF later (Some resp) n = Inr True \<longleftrightarrow>
     bhHash (HeaderChain n ! nat (bhIndex claimed)) = bhHash claimed \<and>
     verify_loop (pbTxHash p) (pbProofPath p) (pbDirections p) = Inr (bhMerkleRoot (HeaderChain n ! nat (bhIndex claimed))) \<and>
     kConfirmations \<le> i64 (BIndex best - bhIndex claimed)"
  using assms by (auto simp: HandleDNSProofGRPC_def deref_def VerifyMerkleProof_def bindR_eq_Inr Let_def)

theorem spv_accepts_iff_witness:
  "let PF = sample_platform\<lparr>pfCodec := sample_block_codec\<lparr>gobBlockDec := (\<lambda>b. Some (zero_Block\<lparr>BIndex := 7\<rparr>))\<rparr>\<rparr>;
     n = sample_light\<lparr>ndBlockchain := Some \<lparr>tip = [1], blocks = fmupd last_key [1] (fmupd [1] [2] fmempty), spent_txs = fmempty\<rparr>\<rparr>;
     p = \<lparr>pbTxHash = [9], pbProofPath = [], pbDirections = []\<rparr> in
   HandleDNSProofGRPC PF [] (Some \<lparr>pbDomainName = ''a'', pbIpAddress = [], pbProof = Some p,
     pbBlockHeader = Some (sample_header 1)\<rparr>) n = Inr True"
proof -
  let ?PF = "sample_platform\<lparr>pfCodec := sample_block_codec\<lparr>gobBlockDec := (\<lambda>b. Some (zero_Block\<lparr>BIndex := 7\<rparr>))\<rparr>\<rparr>"
  let ?n = "sample_light\<lparr>ndBlockchain := Some \<lparr>tip = [1], blocks = fmupd last_key [1] (fmupd [1] [2] fmempty), spent_txs = fmempty\<rparr>\<rparr>"
  let ?p = "\<lparr>pbTxHash = [9], pbProofPath = [], pbDirections = []\<rparr>"
  let ?r = "\<lparr>pbDomainName = ''a'', pbIpAddress = [], pbProof = Some ?p, pbBlockHeader = Some (sample_header 1)\<rparr>"
  have "latest ?PF ?n = Inr (Some (zero_Block\<lparr>BIndex := 7\<rparr>))"
    by (simp add: latest_def deref_def GetLatestBlock_def last_block_def sample_platform_def sample_bolt_def DeserializeBlock_def
        last_key_def bytes_of_string_def)
  from spv_accepts_iff [OF this, of "sample_header 1" ?r ?p "[]"] show ?thesis
    by (simp add: Let_def sample_light_def sample_header_def zero_Block_def kConfirmations_def is_i64_def)
qed

text \<open>C30: A DNS proof is not bound to what it proves: whoever holds one proof a light node accepts can make
  the node answer any name with any addresses, since neither the name nor the records are compared
  with the transaction hash the proof is about.
\<close>

theorem dns_proof_poisons_cache:
  assumes "HandleDNSProof now later r n fmempty = Inr c" "c \<noteq> fmempty" "filterByType rs ''A'' \<noteq> []"
    and "now \<le> t" "t \<le> now + 300 * 1000000000"
  shows "\<exists>cache'. HandleDNSProof now later (r\<lparr>dpDomainName := d, dpRecords := rs\<rparr>) n cache = Inr cache' \<and>
     (\<exists>cache'' sent. ResolveDomain B t meanwhile d ''A'' False im peers slot spd cache' = (cache'', sent, Inr (filterByType rs ''A'')))"
proof -
  from assms(1,2) have "\<not> IsFullNode n" by (auto simp: HandleDNSProof_def)
  with assms(1,2) obtain h where h: "waitForHeader (HeaderChain n # later) (bhIndex (dpBlockHeader r)) = Inr (Some h)"
    "bhHash h = bhHash (dpBlockHeader r)"
    "VerifyMerkleProof (Some ((dpProof r)\<lparr>mpMerkleRoot := bhMerkleRoot h\<rparr>)) = Inr True"
    by (auto simp: HandleDNSProof_def bindR_eq_Inr simp del: waitForHeader.simps split: option.split_asm if_split_asm)
  let ?c = "SetToCache now cache d ''A'' (filterByType rs ''A'')"
  have "HandleDNSProof now later (r\<lparr>dpDomainName := d, dpRecords := rs\<rparr>) n cache = Inr ?c"
    using \<open>\<not> IsFullNode n\<close> h assms(3) by (simp add: HandleDNSProof_def del: waitForHeader.simps)
  moreover have "snd (GetFromCache t ?c d ''A'') = Some (filterByType rs ''A'')" using assms(5) by (simp add: Get_Set)
  ultimately show ?thesis by (auto simp: ResolveDomain_def split: prod.split)
qed

theorem dns_proof_poisons_cache_witness:
  "let r = \<lparr>dpDomainName = ''a.com'', dpRecords = [Record ''A'' ''1.1.1.1'' 0], dpTransaction = zero_Transaction,
        dpProof = \<lparr>mpTxHash = [9], ProofPath = [], Directions = [], mpMerkleRoot = []\<rparr>, dpBlockHeader = sample_header 1\<rparr>;
     rs = [Record ''A'' ''6.6.6.6'' 0] in
   \<exists>cache'. HandleDNSProof 0 [] (r\<lparr>dpDomainName := ''bank.com'', dpRecords := rs\<rparr>) sample_light fmempty = Inr cache' \<and>
     (\<exists>cache'' sent. ResolveDomain sample_bloom 5 id ''bank.com'' ''A'' False sample_im [] 5 10 cache' = (cache'', sent, Inr rs))"
proof -
  let ?r = "\<lparr>dpDomainName = ''a.com'', dpRecords = [Record ''A'' ''1.1.1.1'' 0], dpTransaction = zero_Transaction,
        dpProof = \<lparr>mpTxHash = [9], ProofPath = [], Directions = [], mpMerkleRoot = []\<rparr>, dpBlockHeader = sample_header 1\<rparr>"
  have "HandleDNSProof 0 [] ?r sample_light fmempty = Inr (SetToCache 0 fmempty ''a.com'' ''A'' [Record ''A'' ''1.1.1.1'' 0])"
    by (simp add: HandleDNSProof_def VerifyMerkleProof_def sample_light_def NewNode_def sample_header_def filterByType_def)
  moreover have "SetToCache 0 fmempty ''a.com'' ''A'' [Record ''A'' ''1.1.1.1'' 0] \<noteq> fmempty"
    unfolding SetToCache_def by (metis fmupd_lookup fmempty_lookup option.distinct(1))
  moreover have f: "filterByType [Record ''A'' ''6.6.6.6'' 0] ''A'' = [Record ''A'' ''6.6.6.6'' 0]" by (simp add: filterByType_def)
  moreover have "[Record ''A'' ''6.6.6.6'' 0] \<noteq> []" by simp
  ultimately show ?thesis
    using dns_proof_poisons_cache [of 0 "[]" ?r sample_light _ "[Record ''A'' ''6.6.6.6'' 0]" 5 "''bank.com''" fmempty
        sample_bloom id sample_im "[]" 5 10]
    by (simp only: Let_def f) simp
qed

end
