(* ===== verification/Run.thy ===== *)
theory Run
  imports Light
begin

text \<open>
  Runs of a node: the slot loop, the messages of other nodes and the transactions of its own user in any
  order. \<open>machine\<close> is the interface of something that steps on events and sends messages; what a run keeps
  and what it sends is proved once there and used for the node.
\<close>

fun run :: "('e \<Rightarrow> 's \<Rightarrow> ('s \<times> 'o list) option) \<Rightarrow> 'e list \<Rightarrow> 's \<Rightarrow> ('s \<times> 'o list) option" where
  "run step [] s = Some (s, [])"
| "run step (e # es) s =
     (case step e s of
        None \<Rightarrow> None
      | Some (s', outs) \<Rightarrow> (case run step es s' of None \<Rightarrow> None | Some (s'', outs') \<Rightarrow> Some (s'', outs @ outs')))"

locale machine =
  fixes step :: "'e \<Rightarrow> 's \<Rightarrow> ('s \<times> 'o list) option"
    and inv :: "'s \<Rightarrow> bool" and typed :: "'e \<Rightarrow> bool" and allowed :: "'o \<Rightarrow> bool"
  assumes step_keeps: "inv s \<Longrightarrow> typed e \<Longrightarrow> step e s = Some (s', outs) \<Longrightarrow> inv s' \<and> list_all allowed outs"
begin

lemma run_keeps:
  "inv s \<Longrightarrow> list_all typed es \<Longrightarrow> run step es s = Some (s', outs) \<Longrightarrow> inv s' \<and> list_all allowed outs"
proof (induction es arbitrary: s outs)
  case (Cons e es)
  from Cons.prems(3) obtain t o1 o2 where t: "step e s = Some (t, o1)" "run step es t = Some (s', o2)" "outs = o1 @ o2"
    by (auto split: option.split_asm prod.split_asm)
  with step_keeps [OF Cons.prems(1) _ t(1)] Cons.IH [OF _ _ t(2)] Cons.prems(2) show ?case by simp
qed simp

end

datatype event =
    Tick tick
  | Receive surroundings message string
  | Submit int64 Transaction

type_synonym ('f, 'd, 'r) running = "('f, 'd, 'r) loop \<times> cache \<times> DNSMetrics"

text \<open>One event; \<open>None\<close> when the node panics or hangs.\<close>

fun node_event ::
    "('f, 'd, 'r) platform \<Rightarrow> event \<Rightarrow> ('f, 'd, 'r) running \<Rightarrow> (('f, 'd, 'r) running \<times> out list) option" where
  "node_event PF (Tick tk) (lp, cache, metrics) =
     (case slot_tick PF tk lp of Inl p \<Rightarrow> None | Inr (lp', outs) \<Rightarrow> Some ((lp', cache, metrics), outs))"
| "node_event PF (Receive su m sender) (lp, cache, metrics) =
     (case HandleMsgGivenType PF su m sender (lpNode lp, cache, metrics) of
        None \<Rightarrow> None
      | Some (Inl p) \<Rightarrow> None
      | Some (Inr ((n, cache', metrics'), outs)) \<Rightarrow> Some ((lp\<lparr>lpNode := n\<rparr>, cache', metrics'), outs))"
| "node_event PF (Submit now tx) (lp, cache, metrics) =
     (case nodeBroadcastTransaction PF now tx (lpNode lp) of
        Inl p \<Rightarrow> None
      | Inr (n, outs) \<Rightarrow> Some ((lp\<lparr>lpNode := n\<rparr>, cache, metrics), outs))"

text \<open>The epochs of received messages are 64-bit integers.\<close>

fun event_typed :: "event \<Rightarrow> bool" where
  "event_typed (Receive su (MsgCommitment cm) sender) = is_i64 (cEpoch cm)"
| "event_typed (Receive su (MsgReveal rm) sender) = is_i64 (rEpoch rm)"
| "event_typed _ = True"

fun no_reveal :: "out \<Rightarrow> bool" where
  "no_reveal (Broadcast (MsgReveal rm)) = False"
| "no_reveal _ = True"

subsection \<open>What every handler keeps\<close>

definition node_ok :: "('f, 'd, 'r) platform \<Rightarrow> ('f, 'd, 'r) Node \<Rightarrow> bool" where
  "node_ok PF n \<longleftrightarrow> pool_ok (TransactionPool n) \<and> headers_linked (HeaderChain n) \<and> drg_ok (pfCrypto PF) (pfAsn1 PF) (ndDrg n)"

text \<open>No commitment and no contribution is removed or changed.\<close>

definition remembers :: "drg \<Rightarrow> drg \<Rightarrow> bool" where
  "remembers d d' \<longleftrightarrow> (\<forall>e s c. get2 (EpochCommitments d) e s = Some c \<longrightarrow> get2 (EpochCommitments d') e s = Some c) \<and>
     (\<forall>e s u. get2 (EpochRandoms d) e s = Some u \<longrightarrow> get2 (EpochRandoms d') e s = Some u)"

lemma remembers_refl [simp]: "remembers d d"
  by (simp add: remembers_def)

lemma remembers_trans: "remembers d d' \<Longrightarrow> remembers d' d'' \<Longrightarrow> remembers d d''"
  by (simp add: remembers_def)

definition keeps :: "('f, 'd, 'r) platform \<Rightarrow> ('f, 'd, 'r) Node \<Rightarrow> ('f, 'd, 'r) Node \<Rightarrow> bool" where
  "keeps PF n n' \<longleftrightarrow> ndConfig n' = ndConfig n \<and> (node_ok PF n \<longrightarrow> node_ok PF n' \<and> remembers (ndDrg n) (ndDrg n'))"

lemma keeps_refl [simp]: "keeps PF n n"
  by (simp add: keeps_def)

lemma keeps_trans: "keeps PF n m \<Longrightarrow> keeps PF m l \<Longrightarrow> keeps PF n l"
  by (auto simp: keeps_def intro: remembers_trans)

lemma keepsI:
  "ndConfig n' = ndConfig n \<Longrightarrow> TransactionPool n' = TransactionPool n \<Longrightarrow> HeaderChain n' = HeaderChain n \<Longrightarrow>
   ndDrg n' = ndDrg n \<Longrightarrow> keeps PF n n'"
  by (simp add: keeps_def node_ok_def)

lemma pool_ok_mono: "pool_ok p \<Longrightarrow> (\<And>k tx. fmlookup q k = Some tx \<Longrightarrow> fmlookup p k = Some tx) \<Longrightarrow> pool_ok q"
  by (simp add: pool_ok_def)

lemma pool_ok_upd: "pool_ok p \<Longrightarrow> pool_ok (fmupd (TID tx) tx p)"
  by (simp add: pool_ok_def)

lemma pool_ok_RemoveTxs: "pool_ok p \<Longrightarrow> pool_ok (RemoveTxsFromPool txs p)"
  by (erule pool_ok_mono) (simp add: lookup_RemoveTxsFromPool split: if_split_asm)

lemma pool_ok_return: "pool_ok p \<Longrightarrow> pool_ok (return_to_pool txs p)"
  unfolding return_to_pool_def by (induction txs arbitrary: p) (simp_all add: pool_ok_upd)

lemma pool_ok_choose_loop: "pool_ok p \<Longrightarrow> choose_loop limit ks ts p = (ts', p') \<Longrightarrow> pool_ok p'"
proof (induction ks arbitrary: ts p)
  case (Cons k ks)
  have "pool_ok (fmdrop t p)" for t using Cons.prems(1) by (rule pool_ok_mono) (simp split: if_split_asm)
  with Cons show ?case by (auto split: option.split_asm if_split_asm)
qed simp

lemma pool_ok_choose: "pool_ok p \<Longrightarrow> ChooseTxFromPool ord p limit = (ts, p') \<Longrightarrow> pool_ok p'"
  by (auto simp: ChooseTxFromPool_def pool_ok_choose_loop split: if_split_asm)

lemma GetSlotLeader_keeps: "GetSlotLeader PF epoch n = Inr (n', l) \<Longrightarrow> keeps PF n n'"
  by (rule keepsI) (auto simp: GetSlotLeader_def Let_def bindR_eq_Inr split: option.split_asm)

lemma AddBlockHeader_keeps: "keeps PF n (AddBlockHeader h n)"
  by (simp add: keeps_def node_ok_def AddBlockHeader_linked)

lemma Rebuild_fields [simp]:
  "ndConfig (RebuildValidatorSetCache s n) = ndConfig n" "TransactionPool (RebuildValidatorSetCache s n) = TransactionPool n"
  "HeaderChain (RebuildValidatorSetCache s n) = HeaderChain n" "ndDrg (RebuildValidatorSetCache s n) = ndDrg n"
  "ndBalanceLedger (RebuildValidatorSetCache s n) = ndBalanceLedger n" "ndStake (RebuildValidatorSetCache s n) = ndStake n"
  "ndCommitStore (RebuildValidatorSetCache s n) = ndCommitStore n" "ndIndexManager (RebuildValidatorSetCache s n) = ndIndexManager n"
  "ndBlockchain (RebuildValidatorSetCache s n) = ndBlockchain n" "IsFullNode (RebuildValidatorSetCache s n) = IsFullNode n"
  "ndKeyPair (RebuildValidatorSetCache s n) = ndKeyPair n" "hasGatewayServer (RebuildValidatorSetCache s n) = hasGatewayServer n"
  by (simp_all add: RebuildValidatorSetCache_def split: option.split)

text \<open>A filed block and its node, before the headers of a light node.\<close>

definition filed :: "('f, 'd, 'r) platform \<Rightarrow> Block \<Rightarrow> 'd Blockchain \<Rightarrow> ('f, 'd, 'r) Node \<Rightarrow> ('f, 'd, 'r) Node" where
  "filed PF b bc n = n\<lparr>TransactionPool := RemoveTxsFromPool (Transactions b) (TransactionPool n),
     ndBlockchain := Some (mark_redeemed (pfBolt PF) (Transactions b) bc)\<rparr>"

lemma file_block_eq:
  "file_block PF b n =
     bindR (store_block PF b n) (\<lambda>bc.
       Inr (if IsFullNode n then filed PF b bc n else AddBlockHeader (Header b) (filed PF b bc n),
            if IsFullNode n \<and> hasGatewayServer n then [GatewayHeader (Header b)] else []))"
  by (cases "IsFullNode n") (simp_all add: file_block_def filed_def store_block_def Let_def)

lemma file_block_keeps:
  assumes "file_block PF b n = Inr (n', outs)"
  shows "keeps PF n n' \<and> list_all no_reveal outs"
proof -
  have "keeps PF n (filed PF b bc n)" for bc by (simp add: keeps_def node_ok_def filed_def pool_ok_RemoveTxs)
  with assms keeps_trans [OF this AddBlockHeader_keeps] show ?thesis
    by (auto simp: file_block_eq bindR_eq_Inr split: if_split_asm)
qed

text \<open>The state a validated block leads to.\<close>

definition adopted :: "'f IndexOverlay vb_result \<Rightarrow> 'f IndexManager \<Rightarrow> ('f, 'd, 'r) Node \<Rightarrow> ('f, 'd, 'r) Node" where
  "adopted r im n = RebuildValidatorSetCache (Some (ssMap (vbStake r)))
     (n\<lparr>ndBalanceLedger := vbLedger r, ndCommitStore := CommitO (vbCommits r) (ndCommitStore n),
        ndIndexManager := im, ndStake := vbStake r\<rparr>)"

lemma adopted_keeps: "keeps PF n (adopted r im n)"
  by (rule keepsI) (simp_all add: adopted_def)

text \<open>The epoch the timestamp of a block names.\<close>

definition block_epoch :: "Block \<Rightarrow> ('f, 'd, 'r) Node \<Rightarrow> panic + int64" where
  "block_epoch b n = godiv (i64 (BTimestamp b - InitialTimestamp (ndConfig n)))
     (i64 (SlotInterval (ndConfig n) * SlotsPerEpoch (ndConfig n)))"

lemma nodeAddBlock_cases:
  assumes "nodeAddBlock PF b n = Inr (n', outs)"
  obtains (refused) epoch l where "block_epoch b n = Inr epoch" "GetSlotLeader PF epoch n = Inr (n', l)" "outs = []"
    | (genesis) epoch l m where "block_epoch b n = Inr epoch" "GetSlotLeader PF epoch n = Inr (m, l)"
        "BIndex b = 0" "ValidateGenesisBlock (pfCrypto PF) b (RegistryKeys m) (sl l)" "file_block PF b m = Inr (n', outs)"
    | (accepted) epoch l m r im where "block_epoch b n = Inr epoch" "GetSlotLeader PF epoch n = Inr (m, l)"
        "file_block PF b (adopted r im m) = Inr (n', outs)"
proof -
  obtain epoch m l spd where ep: "block_epoch b n = Inr epoch" and m: "GetSlotLeader PF epoch n = Inr (m, l)"
    and rest: "(if BIndex b = 0 then
         (if \<not> ValidateGenesisBlock (pfCrypto PF) b (RegistryKeys m) (sl l) then Inr (m, []) else file_block PF b m)
       else
         (let ops = IndexOverlayOps (pfBloom PF) (pfJournal PF) in
          bindR (latest PF m) (\<lambda>oldBlock.
          bindR (ValidateBlock (pfCrypto PF) (pfCodec PF) (pfRegistries PF) ops b oldBlock (sl l)
                   (ndBalanceLedger m) (NewIndexOverlay (ndIndexManager m)) (Some (GetPurgeableDomains (ndIndexManager m)))
                   spd (ndStake m) (ndCommitStore m)) (\<lambda>res.
            case res of
              None \<Rightarrow> Inr (m, [])
            | Some r \<Rightarrow> bindR (diCommit ops (vbIndex r)) (\<lambda>ov. file_block PF b (adopted r (real ov) m)))))) = Inr (n', outs)"
    using assms unfolding nodeAddBlock_def block_epoch_def bindR_eq_Inr adopted_def by (elim exE conjE) (auto simp: bindR_eq_Inr)
  show thesis
  proof (cases "BIndex b = 0")
    case True
    with rest ep m show thesis by (auto split: if_split_asm intro: refused genesis)
  next
    case False
    with rest obtain res where "(case res of
              None \<Rightarrow> Inr (m, [])
            | Some r \<Rightarrow> bindR (diCommit (IndexOverlayOps (pfBloom PF) (pfJournal PF)) (vbIndex r))
                (\<lambda>ov. file_block PF b (adopted r (real ov) m))) = Inr (n', outs)"
      by (auto simp: Let_def bindR_eq_Inr)
    with ep m show thesis by (cases res) (auto simp: bindR_eq_Inr intro: refused accepted)
  qed
qed

lemma nodeAddBlock_keeps:
  assumes "nodeAddBlock PF b n = Inr (n', outs)"
  shows "keeps PF n n' \<and> list_all no_reveal outs"
  using assms
proof (cases rule: nodeAddBlock_cases)
  case (refused epoch l)
  then show ?thesis by (simp add: GetSlotLeader_keeps)
next
  case (genesis epoch l m)
  with GetSlotLeader_keeps [OF genesis(2)] file_block_keeps [OF genesis(5)] show ?thesis by (blast intro: keeps_trans)
next
  case (accepted epoch l m r im)
  with GetSlotLeader_keeps [OF accepted(2)] file_block_keeps [OF accepted(3)] adopted_keeps [of PF m r im] show ?thesis
    by (blast intro: keeps_trans)
qed

lemma AddTransaction_keeps: "AddTransaction PF now tx n = Inr n' \<Longrightarrow> keeps PF n n'"
  by (auto simp: AddTransaction_def Let_def bindR_eq_Inr keeps_def node_ok_def pool_ok_upd split: if_split_asm)

lemma handleSlotSkip_keeps:
  assumes "handleSlotSkip PF skip n = Inr n'"
  shows "keeps PF n n'"
proof -
  from assms obtain epoch m l where m: "GetSlotLeader PF epoch n = Inr (m, l)"
    and "n' = m \<or> n' = m\<lparr>CurrentSlot := ssaSlot skip\<rparr>"
    by (auto simp: handleSlotSkip_def bindR_eq_Inr split: if_split_asm option.split_asm)
  moreover have "keeps PF m (m\<lparr>CurrentSlot := ssaSlot skip\<rparr>)" by (rule keepsI) simp_all
  ultimately show ?thesis using GetSlotLeader_keeps [OF m] by (blast intro: keeps_trans)
qed

lemma drg_keeps:
  "(drg_ok (pfCrypto PF) (pfAsn1 PF) (ndDrg n) \<Longrightarrow> drg_ok (pfCrypto PF) (pfAsn1 PF) d \<and> remembers (ndDrg n) d) \<Longrightarrow> keeps PF n (n\<lparr>ndDrg := d\<rparr>)"
  by (simp add: keeps_def node_ok_def)

lemma own_remembers: "BroadcastCommitment A u r kp e d = (d', res) \<Longrightarrow> remembers d d'"
  by (auto simp: BroadcastCommitment_def remembers_def Let_def split: option.split_asm)

lemma handlers_remember:
  "drg_ok cr A d \<Longrightarrow> CommitmentHandler cr A cm d = Inr (d', err) \<Longrightarrow> remembers d d'"
  "drg_ok cr A d \<Longrightarrow> RevealHandler cr A rm d = Inr (d', err) \<Longrightarrow> remembers d d'"
  by (simp_all add: remembers_def CommitmentHandler_keeps RevealHandler_keeps)

lemma send_commitment_keeps: "send_commitment PF tk e n = (n', outs) \<Longrightarrow> keeps PF n n' \<and> list_all no_reveal outs"
  by (auto simp: send_commitment_def split: prod.split_asm sum.split_asm intro!: drg_keeps intro: drg_ok_own own_remembers)

lemma create_block_keeps:
  assumes "create_block PF now slot l n = Inr (n', outs)"
  shows "keeps PF n n' \<and> list_all no_reveal outs"
proof -
  obtain ts p where p: "ChooseTxFromPool (pfPool PF) (TransactionPool n) blockTxLimit = (ts, p)" by fastforce
  let ?m = "n\<lparr>TransactionPool := p\<rparr>"
  have m: "keeps PF n ?m" using pool_ok_choose [OF _ p] by (simp add: keeps_def node_ok_def)
  from assms have "((\<exists>txs. n' = ?m\<lparr>TransactionPool := return_to_pool txs p\<rparr>) \<or>
      (ndConfig n' = ndConfig ?m \<and> TransactionPool n' = p \<and> HeaderChain n' = HeaderChain ?m \<and> ndDrg n' = ndDrg ?m)) \<and>
      list_all no_reveal outs"
    unfolding create_block_def p
    by (auto simp: Let_def bindR_eq_Inr BroadcastSlotSkip_def split: if_split_asm)
  then have "keeps PF ?m n' \<and> list_all no_reveal outs"
    by (auto simp: keeps_def node_ok_def pool_ok_return)
  with m show ?thesis by (blast intro: keeps_trans)
qed

lemma sdiv_pos: "0 \<le> a \<Longrightarrow> 0 < (e :: int) \<Longrightarrow> a sdiv e = a div e"
  by (cases "a = 0") (simp_all add: signed_divide_int_def)

lemma smod_pos: "0 \<le> a \<Longrightarrow> 0 < (e :: int) \<Longrightarrow> a smod e = a mod e"
  by (cases "a = 0") (simp_all add: signed_modulo_int_def)

lemma smod_neg: "a \<le> 0 \<Longrightarrow> 0 < (e :: int) \<Longrightarrow> a smod e \<le> 0"
  by (cases "a = 0") (simp_all add: signed_modulo_int_def)

text \<open>No epoch begins in the second slot of an epoch.\<close>

lemma epoch_start_slot:
  assumes "i64 (slot + 1) smod e = 1" "is_i64 slot" "0 < e"
  shows "i64 (slot + 1) sdiv e = slot sdiv e"
proof -
  have pos: "0 < i64 (slot + 1)" using smod_neg [of "i64 (slot + 1)" e] assms(1,3) by linarith
  have "slot + 1 \<noteq> 2 ^ 63"
  proof
    assume "slot + 1 = 2 ^ 63"
    then have "i64 (slot + 1) = - (2 ^ 63)" by (simp add: i64_def)
    with pos show False by simp
  qed
  with assms(2) have s: "i64 (slot + 1) = slot + 1" by (simp add: is_i64_def)
  have nn: "0 \<le> slot" using pos s by simp
  with assms(1,3) s have m: "(slot + 1) mod e = 1" by (simp add: smod_pos)
  then have "slot = (slot + 1) div e * e" using div_mult_mod_eq [of "slot + 1" e] by simp
  then have "slot div e = (slot + 1) div e" using assms(3) by (metis nonzero_mult_div_cancel_right less_irrefl)
  with nn assms(3) show ?thesis by (simp add: s sdiv_pos)
qed

lemma enter_slot_keeps:
  assumes "enter_slot PF tk (i64 (slot + 1)) epoch l n = Inr (n', epoch', l', outs)"
    and "epoch = i64 (slot sdiv SlotsPerEpoch (ndConfig n))" "is_i64 slot" "0 < SlotsPerEpoch (ndConfig n)"
  shows "keeps PF n n' \<and> list_all no_reveal outs \<and> epoch' = i64 (i64 (slot + 1) sdiv SlotsPerEpoch (ndConfig n))"
proof -
  let ?e = "SlotsPerEpoch (ndConfig n)" and ?slot = "i64 (slot + 1)"
  have div: "godiv ?slot ?e = Inr (i64 (?slot sdiv ?e))" using assms(4) by (simp add: godiv_def)
  show ?thesis
  proof (cases "i64 (?slot sdiv ?e) = epoch")
    case True
    with assms(1) div show ?thesis by (simp add: enter_slot_def)
  next
    case False
    then have no: "?slot smod ?e \<noteq> 1" using epoch_start_slot [OF _ assms(3,4)] assms(2) by auto
    obtain m l1 where m: "GetSlotLeader PF (i64 (?slot sdiv ?e)) n = Inr (m, l1)"
      using assms(1) div False by (auto simp: enter_slot_def bindR_eq_Inr Let_def)
    have k: "keeps PF n m" by (rule GetSlotLeader_keeps [OF m])
    then have c: "SlotsPerEpoch (ndConfig m) = ?e" by (simp add: keeps_def)
    have "enter_slot PF tk ?slot epoch l n =
        (let (m', outs) = (if ?slot smod ?e = 0 then send_commitment PF tk (i64 (i64 (?slot sdiv ?e) + 1)) m else (m, []))
         in Inr (m', i64 (?slot sdiv ?e), l1, outs))"
      using assms(4) no False by (simp add: enter_slot_def div m gomod_def c Let_def split: prod.split)
    with assms(1) have e: "epoch' = i64 (?slot sdiv ?e)"
      and "(if ?slot smod ?e = 0 then send_commitment PF tk (i64 (i64 (?slot sdiv ?e) + 1)) m else (m, [])) = (n', outs)"
      by (auto split: prod.split_asm)
    then have "keeps PF m n' \<and> list_all no_reveal outs"
      using send_commitment_keeps [of PF tk _ m n' outs] by (auto split: if_split_asm)
    with k e show ?thesis by (blast intro: keeps_trans)
  qed
qed

definition loop_ok :: "('f, 'd, 'r) platform \<Rightarrow> ('f, 'd, 'r) running \<Rightarrow> bool" where
  "loop_ok PF = (\<lambda>(lp, cache, metrics).
     node_ok PF (lpNode lp) \<and> is_i64 (lpSlot lp) \<and> 0 < SlotsPerEpoch (ndConfig (lpNode lp)) \<and>
     lpEpoch lp = i64 (lpSlot lp sdiv SlotsPerEpoch (ndConfig (lpNode lp))))"

lemma loop_ok_step:
  assumes "loop_ok PF (lp, cache, metrics)" "keeps PF (lpNode lp) n" "epoch = i64 (slot sdiv SlotsPerEpoch (ndConfig (lpNode lp)))" "is_i64 slot"
  shows "loop_ok PF (lp\<lparr>lpSlot := slot, lpEpoch := epoch, lpLeader := l, lpNode := n\<rparr>, cache', metrics')"
  using assms by (simp add: loop_ok_def keeps_def)

lemma slot_tick_keeps:
  assumes "slot_tick PF tk lp = Inr (lp', outs)" "loop_ok PF (lp, cache, metrics)"
  shows "loop_ok PF (lp', cache, metrics) \<and> list_all no_reveal outs \<and> remembers (ndDrg (lpNode lp)) (ndDrg (lpNode lp'))"
proof -
  have ok: "node_ok PF (lpNode lp)" using assms(2) by (simp add: loop_ok_def)
  define slot where "slot = i64 (lpSlot lp + 1)"
  obtain n epoch l outs1 where e: "enter_slot PF tk slot (lpEpoch lp) (lpLeader lp) (lpNode lp) = Inr (n, epoch, l, outs1)"
    using assms(1) by (cases "enter_slot PF tk slot (lpEpoch lp) (lpLeader lp) (lpNode lp)") (auto simp: slot_tick_def slot_def)
  have k: "keeps PF (lpNode lp) n" "list_all no_reveal outs1" "epoch = i64 (slot sdiv SlotsPerEpoch (ndConfig (lpNode lp)))"
    using enter_slot_keeps [OF e [unfolded slot_def]] assms(2) unfolding slot_def by (simp_all add: loop_ok_def)
  have slot: "is_i64 slot" by (simp add: slot_def)
  show ?thesis
  proof (cases "sl l = kpPublicKey (ndKeyPair n)")
    case False
    with assms(1) e have "lp' = lp\<lparr>lpSlot := slot, lpEpoch := epoch, lpLeader := l, lpNode := n\<rparr>" "outs = outs1"
      by (simp_all add: slot_tick_def slot_def)
    with k slot assms(2) ok show ?thesis by (auto simp: loop_ok_step keeps_def)
  next
    case True
    with assms(1) e obtain n' outs2 where c: "create_block PF (tkUnix tk) slot l n = Inr (n', outs2)"
      and lp': "lp' = lp\<lparr>lpSlot := slot, lpEpoch := epoch, lpLeader := l, lpNode := n'\<rparr>" "outs = outs1 @ outs2"
      by (auto simp: slot_tick_def slot_def bindR_eq_Inr Let_def)
    from create_block_keeps [OF c] k(1) have "keeps PF (lpNode lp) n'" "list_all no_reveal outs2" by (auto intro: keeps_trans)
    with k slot assms(2) ok show ?thesis by (auto simp: lp' loop_ok_step keeps_def)
  qed
qed

lemma dispatch_keeps:
  assumes "HandleMsgGivenType PF su m sender (n, cache, metrics) = Some (Inr ((n', cache', metrics'), outs))"
    and "event_typed (Receive su m sender)"
  shows "keeps PF n n' \<and> list_all no_reveal outs"
proof (cases m)
  case (MsgBlock b)
  with assms show ?thesis by (auto simp: bindR_eq_Inr nodeAddBlock_keeps)
next
  case (MsgTransaction tx)
  with assms show ?thesis by (auto simp: lift_node_def bindR_eq_Inr AddTransaction_keeps)
next
  case (MsgCommitment cm)
  with assms show ?thesis by (auto simp: lift_node_def bindR_eq_Inr intro!: drg_keeps intro: drg_ok_CommitmentHandler handlers_remember)
next
  case (MsgReveal rm)
  with assms show ?thesis by (auto simp: lift_node_def bindR_eq_Inr intro!: drg_keeps intro: drg_ok_RevealHandler handlers_remember)
next
  case (MsgSlotSkip skip)
  with assms show ?thesis by (auto simp: lift_node_def bindR_eq_Inr handleSlotSkip_keeps)
next
  case (DNSRequest d)
  with assms show ?thesis
    by (auto simp: bindR_eq_Inr DNSRequestHandler_def Let_def split: if_split_asm list.split_asm option.split_asm)
next
  case (MsgDNSQuery d)
  with assms show ?thesis
    by (auto simp: bindR_eq_Inr HandleDNSQuery_def Let_def split: if_split_asm list.split_asm option.split_asm sum.split_asm)
next
  case (MsgGetBlock h)
  with assms show ?thesis
    by (auto simp: bindR_eq_Inr HandleGetBlock_def Let_def list_all_iff split: sum.split_asm)
next
  case MsgGetData
  with assms show ?thesis by (auto simp: HandleGetData_def list_all_iff)
next
  case MsgInv
  with assms show ?thesis by (auto simp: bindR_eq_Inr HandleINV_def)
qed (use assms in \<open>auto simp: bindR_eq_Inr\<close>)

abbreviation drg_of :: "('f, 'd, 'r) running \<Rightarrow> drg" where
  "drg_of s \<equiv> ndDrg (lpNode (fst s))"

lemma node_event_keeps:
  assumes s: "loop_ok PF s" and e: "event_typed e" and step: "node_event PF e s = Some (s', outs)"
  shows "loop_ok PF s' \<and> remembers (drg_of s) (drg_of s') \<and> list_all no_reveal outs"
proof -
  obtain lp cache metrics where st: "s = (lp, cache, metrics)" by (cases s)
  show ?thesis
  proof (cases e)
    case (Tick tk)
    with step s slot_tick_keeps [of PF tk lp _ _ cache metrics] show ?thesis
      by (auto simp: st split: sum.split_asm prod.split_asm)
  next
    case (Receive su m sender)
    with step obtain n c me where d: "HandleMsgGivenType PF su m sender (lpNode lp, cache, metrics) = Some (Inr ((n, c, me), outs))"
      "s' = (lp\<lparr>lpNode := n\<rparr>, c, me)"
      by (auto simp: st split: option.split_asm sum.split_asm prod.split_asm)
    from dispatch_keeps [OF d(1)] e Receive s show ?thesis by (simp add: d(2) st loop_ok_def keeps_def)
  next
    case (Submit now tx)
    with step obtain n where d: "AddTransaction PF now tx (lpNode lp) = Inr n" "s' = (lp\<lparr>lpNode := n\<rparr>, cache, metrics)"
      "outs = Broadcast (MsgTransaction tx) # map (ForwardTx tx) (KnownFullPeers n)"
      by (auto simp: st nodeBroadcastTransaction_def bindR_eq_Inr split: sum.split_asm prod.split_asm)
    from AddTransaction_keeps [OF d(1)] s show ?thesis by (simp add: d(2,3) st loop_ok_def keeps_def list_all_iff)
  qed
qed

interpretation nodes: machine "node_event PF" "\<lambda>s. loop_ok PF s \<and> remembers d (drg_of s)" event_typed no_reveal
  for PF :: "('f, 'd, 'r) platform" and d
proof
  fix s e s' outs
  assume "loop_ok PF s \<and> remembers d (drg_of s)" "event_typed e" "node_event PF e s = Some (s', outs)"
  with node_event_keeps [of PF s e s' outs] show "(loop_ok PF s' \<and> remembers d (drg_of s')) \<and> list_all no_reveal outs"
    by (blast intro: remembers_trans)
qed

lemma run_keeps_node:
  assumes "loop_ok PF s" "list_all event_typed es" "run (node_event PF) es s = Some (s', outs)"
  shows "loop_ok PF s' \<and> remembers (drg_of s) (drg_of s') \<and> list_all no_reveal outs"
  using nodes.run_keeps [of PF s "drg_of s"] assms by simp

subsection \<open>From the start\<close>

abbreviation started :: "('f, 'd, 'r) platform \<Rightarrow> KeyPair \<Rightarrow> bool \<Rightarrow> bytes list \<Rightarrow> int64 \<Rightarrow> int64 \<Rightarrow> int64 \<Rightarrow> 'r
    \<Rightarrow> ('f, 'd, 'r) Node" where
  "started PF kp full registryKeys ts interval epochSlots seed \<equiv>
     InitializeNodeAsync PF registryKeys ts interval epochSlots seed (NewNode PF kp full)"

lemma started_ok: "node_ok PF (started PF kp full registryKeys ts interval epochSlots seed)"
  by (simp add: node_ok_def InitializeNodeAsync_def NewNode_def pool_ok_def drg_ok_def contribution_ok_def NewDrg_def)

lemma start_loop_ok:
  assumes "start_loop PF tk n = Inr (lp, outs)" "node_ok PF n" "0 < SlotsPerEpoch (ndConfig n)" "is_i64 (SlotsPerEpoch (ndConfig n))"
  shows "loop_ok PF (lp, cache, metrics) \<and> list_all no_reveal outs"
proof -
  let ?e = "SlotsPerEpoch (ndConfig n)"
  let ?loop = "\<lambda>m. \<lparr>lpNode = m, lpSlot = i64 (SlotsPerEpoch (ndConfig m) - 1), lpEpoch = 0, lpLeader = Some (RegistryKeys n ! 0)\<rparr>"
  from assms(1) obtain m outs1 where i: "initial_block PF (tkUnix tk) (RegistryKeys n ! 0) n = Inr (m, outs1)"
    and l: "lp = ?loop (fst (send_commitment PF tk 1 m)) \<and> outs = outs1 @ snd (send_commitment PF tk 1 m)"
    by (auto simp: start_loop_def Let_def bindR_eq_Inr case_prod_unfold split: if_split_asm)
  obtain m' outs2 where c: "send_commitment PF tk 1 m = (m', outs2)" by fastforce
  with l have lp: "lp = ?loop m'" "outs = outs1 @ outs2" by simp_all
  from i have m: "m = n \<or> (\<exists>bc. m = n\<lparr>ndBlockchain := bc\<rparr>)" and o: "list_all no_reveal outs1"
    by (auto simp: initial_block_def bindR_eq_Inr split: if_split_asm)
  from m have "keeps PF n m" by (auto intro: keepsI)
  with send_commitment_keeps [OF c] have k: "keeps PF n m'" "list_all no_reveal outs2" by (auto intro: keeps_trans)
  have "is_i64 (?e - 1)" using assms(3,4) by (simp add: is_i64_def)
  moreover have "(?e - 1) sdiv ?e = 0" using assms(3) by (simp add: sdiv_pos)
  ultimately show ?thesis using k o assms(2,3) by (simp add: loop_ok_def lp keeps_def is_i64_def)
qed

text \<open>C19: The state of a node stays well-formed: after any sequence of slots, messages from anybody and own
  transactions, the pool files every transaction under its own identifier, the header chain is
  linked, and every counted random contribution has 32 bytes.
\<close>

theorem node_state_wellformed:
  assumes "start_loop PF tk (started PF kp full registryKeys ts interval epochSlots seed) = Inr (lp, outs)"
    and "0 < epochSlots" "is_i64 epochSlots" "list_all event_typed es"
    and "run (node_event PF) es (lp, cache, metrics) = Some ((lp', cache', metrics'), outs')"
  shows "(\<forall>k tx. fmlookup (TransactionPool (lpNode lp')) k = Some tx \<longrightarrow> TID tx = k) \<and>
     headers_linked (HeaderChain (lpNode lp')) \<and>
     (\<forall>e s u. get2 (EpochRandoms (ndDrg (lpNode lp'))) e s = Some u \<longrightarrow> length (sl u) = DRGSecretBytes)"
proof -
  have "loop_ok PF (lp, cache, metrics)"
    using start_loop_ok [OF assms(1) started_ok] assms(2,3) by (simp add: InitializeNodeAsync_def)
  from run_keeps_node [OF this assms(4,5)] have "node_ok PF (lpNode lp')" by (simp add: loop_ok_def)
  then show ?thesis by (auto simp: node_ok_def pool_ok_def dest: drg_ok_length)
qed

text \<open>C20: No node ever reveals or prunes: in every run of slots, messages and own transactions, with a positive number
  of slots per epoch and up to a panic if there is one, a node never broadcasts a reveal message, because the loop asks for the second slot of an epoch only at the moment an epoch begins. For the same
  reason the state of old epochs is never pruned: every commitment and every random contribution that the node has
  recorded at some point is still there at any later point.
\<close>

theorem reveal_never_sent:
  assumes "start_loop PF tk (started PF kp full registryKeys ts interval epochSlots seed) = Inr (lp, outs)"
    and "0 < epochSlots" "is_i64 epochSlots" "list_all event_typed (es @ es')"
    and "run (node_event PF) es (lp, cache, metrics) = Some (s, outs1)" "run (node_event PF) es' s = Some (s', outs2)"
  shows "Broadcast (MsgReveal rm) \<notin> set (outs @ outs1 @ outs2) \<and>
    (get2 (EpochCommitments (drg_of s)) e v = Some c \<longrightarrow> get2 (EpochCommitments (drg_of s')) e v = Some c) \<and>
    (get2 (EpochRandoms (drg_of s)) e v = Some u \<longrightarrow> get2 (EpochRandoms (drg_of s')) e v = Some u)"
proof -
  have lp: "loop_ok PF (lp, cache, metrics)" "list_all no_reveal outs"
    using start_loop_ok [OF assms(1) started_ok] assms(2,3) by (simp_all add: InitializeNodeAsync_def)
  have s: "loop_ok PF s" "list_all no_reveal outs1" using run_keeps_node [OF lp(1) _ assms(5)] assms(4) by simp_all
  have "remembers (drg_of s) (drg_of s')" "list_all no_reveal outs2" using run_keeps_node [OF s(1) _ assms(6)] assms(4) by simp_all
  with lp(2) s(2) show ?thesis by (force simp: list_all_iff remembers_def)
qed

abbreviation sample_started :: "(string fset, (bytes, bytes) fmap, nat) Node" where
  "sample_started \<equiv> started sample_platform sample_key_pair True [[9, 9, 9, 9]] 100 10 5 0"

definition sample_tick :: tick where
  "sample_tick = \<lparr>tkUnix = 120, tkRandU = Some (replicate 32 3), tkRandR = Some (replicate 32 4)\<rparr>"

lemma sample_starts: "\<exists>lp outs. start_loop sample_platform sample_tick sample_started = Inr (lp, outs)"
  by (simp add: start_loop_def is_i64_def initial_block_def InitializeNodeAsync_def NewNode_def sample_key_pair_def Let_def split: prod.split)

lemma sample_runs:
  "run (node_event sample_platform) [Receive su MsgGetData ''p''] (lp, fmempty, mt) =
     Some ((lp, fmempty, mt), HandleGetData sample_platform ''p'' (lpNode lp))"
  by simp

theorem node_state_wellformed_witness:
  "\<exists>lp outs. start_loop sample_platform sample_tick sample_started = Inr (lp, outs) \<and> headers_linked (HeaderChain (lpNode lp))"
proof -
  obtain lp outs where s: "start_loop sample_platform sample_tick sample_started = Inr (lp, outs)" using sample_starts by blast
  from node_state_wellformed [OF s _ _ _ sample_runs] s show ?thesis by (auto simp: is_i64_def)
qed

theorem reveal_never_sent_witness:
  "\<exists>lp outs. start_loop sample_platform sample_tick sample_started = Inr (lp, outs) \<and>
     Broadcast (MsgReveal sample_reveal_msg) \<notin> set (outs @ HandleGetData sample_platform ''p'' (lpNode lp))"
proof -
  obtain lp outs where s: "start_loop sample_platform sample_tick sample_started = Inr (lp, outs)" using sample_starts by blast
  from reveal_never_sent [OF s _ _ _ sample_runs run.simps(1), where rm = sample_reveal_msg] s show ?thesis by (auto simp: is_i64_def)
qed

subsection \<open>Blocks from strangers\<close>

lemma GetSlotLeader_fixed: "GetSlotLeader PF e n = Inr (m, l) \<Longrightarrow> fmlookup (SlotLeaders m) e = Some l"
  by (auto simp: GetSlotLeader_def Let_def bindR_eq_Inr split: option.split_asm)

lemma file_block_leaders: "file_block PF b n = Inr (n', outs) \<Longrightarrow> SlotLeaders n' = SlotLeaders n"
  by (auto simp: file_block_eq bindR_eq_Inr filed_def split: if_split_asm)

lemma adopted_leaders [simp]: "SlotLeaders (adopted r im n) = SlotLeaders n"
  by (simp add: adopted_def RebuildValidatorSetCache_def)

text \<open>C21: Any block fixes a leader: handling a block message, even of a block that is refused, fixes the
  leader of the epoch its timestamp names from the randomness known at that moment; whatever is
  revealed later no longer changes it.
\<close>

theorem block_fixes_leader:
  assumes "nodeAddBlock PF b n = Inr (n', outs)"
  shows "\<exists>e m l. block_epoch b n = Inr e \<and> GetSlotLeader PF e n = Inr (m, l) \<and>
     (\<forall>d. GetSlotLeader PF e (n'\<lparr>ndDrg := d\<rparr>) = Inr (n'\<lparr>ndDrg := d\<rparr>, l))"
proof -
  have "\<exists>e m l. block_epoch b n = Inr e \<and> GetSlotLeader PF e n = Inr (m, l) \<and> fmlookup (SlotLeaders n') e = Some l"
    using assms by (cases rule: nodeAddBlock_cases) (metis GetSlotLeader_fixed file_block_leaders adopted_leaders)+
  then show ?thesis by (auto simp: GetSlotLeader_def)
qed

lemma GetSlotLeader_total:
  assumes "latest PF n = Inr best" "[] \<notin> set (RegistryKeys n)"
  shows "\<exists>m l. GetSlotLeader PF e n = Inr (m, l) \<and> (m = n \<or> (\<exists>ls. m = n\<lparr>SlotLeaders := ls\<rparr>))"
proof (cases "fmlookup (SlotLeaders n) e")
  case None
  let ?us = "if i64 (e - 1) \<ge> 0 then inner (EpochRandoms (ndDrg n)) (i64 (e - 1)) else fmempty"
  obtain prev slot where ps: "(case best of None \<Rightarrow> ([], 0) | Some b \<Rightarrow> (BHash b, SlotNumber b)) = (prev, slot)" by fastforce
  obtain leader seed where
    "GetSlotLeaderUtil (pfFloat PF) (pfRandoms PF) (RegistryKeys n) (GetAll (ssMap (ndStake n))) ?us prev slot = Inr (leader, seed)"
    using GetSlotLeaderUtil_total [OF assms(2), of "pfFloat PF" "pfRandoms PF" "GetAll (ssMap (ndStake n))" ?us prev slot] by blast
  then show ?thesis unfolding GetSlotLeader_def Let_def by (auto simp: None assms(1) ps)
qed (auto simp: GetSlotLeader_def)

lemma GetSlotLeader_key:
  assumes "GetSlotLeader PF e n = Inr (m, l)" "fmlookup (SlotLeaders n) e = None" "RegistryKeys n \<noteq> []"
  shows "\<exists>k \<in> set (RegistryKeys n). l = Some k"
proof -
  let ?pick = "\<lambda>h. if find (\<lambda>key. hex key = h) (RegistryKeys n) = None \<and> length (RegistryKeys n) > 0
    then Some (RegistryKeys n ! 0) else find (\<lambda>key. hex key = h) (RegistryKeys n)"
  have "\<exists>h. l = ?pick h"
    using assms(1,2) unfolding GetSlotLeader_def Let_def by (auto simp only: bindR_eq_Inr case_prod_unfold option.case sum.inject prod.inject)
  then obtain h where "l = ?pick h" ..
  with assms(3) show ?thesis by (auto simp: find_Some_iff split: if_split_asm)
qed

lemma latest_started:
  assumes "bolt_ok (pfBolt PF)"
  shows "latest PF (started PF kp full registryKeys ts interval epochSlots seed) = Inr None"
  using assms by (simp add: latest_def deref_def InitializeNodeAsync_def CreateBlockchain_def GetLatestBlock_def last_block_def bolt_ok_def)

theorem block_fixes_leader_witness:
  "\<exists>n'. nodeAddBlock sample_platform (zero_Block\<lparr>BTimestamp := 5105, SlotLeader := [7]\<rparr>) sample_started = Inr (n', []) \<and>
     (\<exists>k. GetSlotLeader sample_platform 100 (n'\<lparr>ndDrg := NewDrg\<rparr>) = Inr (n'\<lparr>ndDrg := NewDrg\<rparr>, k))"
proof -
  let ?b = "zero_Block\<lparr>BTimestamp := 5105, SlotLeader := [7]\<rparr>"
  have e: "block_epoch ?b sample_started = Inr 100"
    by (simp add: block_epoch_def godiv_def InitializeNodeAsync_def signed_divide_int_def i64_def)
  have "latest sample_platform sample_started = Inr None"
    by (rule latest_started) (simp add: sample_platform_def sample_bolt_ok)
  then obtain m l where g: "GetSlotLeader sample_platform 100 sample_started = Inr (m, l)"
      "m = sample_started \<or> (\<exists>ls. m = sample_started\<lparr>SlotLeaders := ls\<rparr>)"
    using GetSlotLeader_total [of sample_platform sample_started None 100] by (auto simp: InitializeNodeAsync_def)
  have "l = Some [9, 9, 9, 9]"
    using GetSlotLeader_key [OF g(1)] by (auto simp: InitializeNodeAsync_def NewNode_def)
  moreover have "slots_per_day m = Inr 8640"
    using g(2) by (auto simp: slots_per_day_def godiv_def InitializeNodeAsync_def signed_divide_int_def i64_def)
  ultimately have n: "nodeAddBlock sample_platform ?b sample_started = Inr (m, [])"
    using e g(1) by (simp add: nodeAddBlock_def block_epoch_def zero_Block_def ValidateGenesisBlock_def)
  from block_fixes_leader [OF n] e have "\<exists>k. GetSlotLeader sample_platform 100 (m\<lparr>ndDrg := NewDrg\<rparr>) = Inr (m\<lparr>ndDrg := NewDrg\<rparr>, k)"
    by auto
  with n show ?thesis by blast
qed

text \<open>C22: A node that waits for the genesis block can be stopped by one message of any peer: a block with
  another index, any transaction, a request for the latest block and an announcement all make it
  read the block it does not have.
\<close>

theorem stopped_before_genesis:
  fixes PF :: "('f, 'd, 'r) platform"
  assumes "bolt_ok (pfBolt PF)" "[] \<notin> set registryKeys" "i64 (interval * epochSlots) \<noteq> 0" "BIndex b \<noteq> 0"
    and n_def: "n = started PF kp full registryKeys ts interval epochSlots seed"
    and msg: "msg \<in> {MsgBlock b, MsgTransaction tx, MsgGetBlock height, MsgInv}"
  shows "HandleMsgGivenType PF su msg sender (n, cache, metrics) = Some (Inl NilDereference)"
proof -
  have l: "latest PF n = Inr None" unfolding n_def by (rule latest_started) (rule assms(1))
  have i: "interval \<noteq> 0" using assms(3) by (auto simp: i64_def)
  have c: "SlotInterval (ndConfig n) = interval" "SlotsPerEpoch (ndConfig n) = epochSlots" "RegistryKeys n = registryKeys"
    "TransactionPool n = fmempty"
    by (simp_all add: n_def InitializeNodeAsync_def NewNode_def)
  obtain m k where g: "GetSlotLeader PF (i64 (i64 (BTimestamp b - InitialTimestamp (ndConfig n)) sdiv i64 (interval * epochSlots))) n = Inr (m, k)"
      "m = n \<or> (\<exists>ls. m = n\<lparr>SlotLeaders := ls\<rparr>)"
    using GetSlotLeader_total [OF l] assms(2) c by metis
  from g(2) l c have m: "latest PF m = Inr None" "SlotInterval (ndConfig m) = interval" by (auto simp: latest_def)
  have "nodeAddBlock PF b n = Inl NilDereference"
    using assms(3,4) i g(1) m by (simp add: nodeAddBlock_def godiv_def c slots_per_day_def ValidateBlock_def Let_def)
  moreover have "AddTransaction PF (suUnix su) tx n = Inl NilDereference"
    using i l c by (simp add: AddTransaction_def slot_at_def slots_per_day_def godiv_def deref_def Let_def)
  moreover have "HandleGetBlock PF sender n = Some (Inl NilDereference)" "HandleINV PF sender n = Inl NilDereference"
    using l by (simp_all add: HandleGetBlock_def HandleINV_def deref_def n_def InitializeNodeAsync_def)
  ultimately show ?thesis using msg by (auto simp: lift_node_def)
qed

theorem stopped_before_genesis_witness:
  "HandleMsgGivenType sample_platform \<lparr>suUnix = 0, suNow = 0, suElapsed = 0, suPolls = []\<rparr> (MsgBlock (zero_Block\<lparr>BIndex := 1\<rparr>)) ''p''
     (sample_started, fmempty, \<lparr>FullNodeDirectResolution = [], LightNodeForwardedResolution = []\<rparr>) = Some (Inl NilDereference)"
  by (rule stopped_before_genesis [where b = "zero_Block\<lparr>BIndex := 1\<rparr>", OF _ _ _ _ refl])
    (simp_all add: sample_platform_def sample_bolt_ok i64_def)

end
