(* ===== verification/Gateway.thy ===== *)
theory Gateway
  imports Run
begin

text \<open>
  \<^verbatim>\<open>internal/gateway\<close>: the pool of connections of a light node (\<^verbatim>\<open>pool.go\<close>), the requests a full node
  serves (\<^verbatim>\<open>server.go\<close>), the header stream of a client (\<^verbatim>\<open>client.go\<close>), and \<^verbatim>\<open>Node.VerifyNXDOMAIN\<close>.
  gRPC itself is not part of the sources: what a client answers during a call is an argument of the
  function that asks it, by its position in the pool, and may be a panic, since a client that could
  not be created is a nil pointer. \<^verbatim>\<open>pb.BlockHeader\<close> has the fields of \<open>BlockHeader\<close>.
\<close>

subsection \<open>The connection pool\<close>

datatype code = Canceled | NotFound | Internal | Unavailable | OtherCode nat

datatype rpc_error = Status code | EOF | ErrAllPeersDown | OtherError

record TransactionResponse =
  trAccepted :: bool
  trError :: string
  trTxHash :: string

record HealthCheckResponse =
  hcHealthy :: bool
  hcChainHeight :: int64
  hcPeerCount :: int

record 'c ConnectionPool =
  clients :: "'c list"
  addrs :: "string list"
  health :: "(int, bool) fmap"
  current :: nat

definition NewConnectionPool :: "'c list \<Rightarrow> string list \<Rightarrow> 'c ConnectionPool" where
  "NewConnectionPool cs as =
     \<lparr>clients = cs, addrs = as, health = foldl (\<lambda>m i. fmupd (int i) True m) fmempty [0..<length cs], current = 0\<rparr>"

definition NewConnectionPoolFromAddrs :: "(string \<Rightarrow> 'c) \<Rightarrow> string list \<Rightarrow> 'c ConnectionPool" where
  "NewConnectionPoolFromAddrs dial as = NewConnectionPool (map dial as) as"

definition SetHealth :: "int \<Rightarrow> bool \<Rightarrow> 'c ConnectionPool \<Rightarrow> 'c ConnectionPool" where
  "SetHealth idx healthy p = p\<lparr>health := fmupd idx healthy (health p)\<rparr>"

definition GetHealth :: "'c ConnectionPool \<Rightarrow> int \<Rightarrow> bool" where
  "GetHealth p idx = (case fmlookup (health p) idx of None \<Rightarrow> False | Some h \<Rightarrow> h)"

definition Clients :: "'c ConnectionPool \<Rightarrow> 'c list" where
  "Clients p = clients p"

definition GetHealthyCount :: "'c ConnectionPool \<Rightarrow> nat" where
  "GetHealthyCount p = length (filter (GetHealth p) (sorted_keys (health p)))"

text \<open>What the two loops make of one answer: they return it, return its error, or mark the client as
  unhealthy and ask the next one. Logging a failure reads the address of the client.\<close>

datatype 'a verdict = Answer 'a | Refuse rpc_error | Down

fun failover_loop ::
    "(nat \<Rightarrow> panic + 'a verdict) \<Rightarrow> nat \<Rightarrow> nat list \<Rightarrow> 'c ConnectionPool \<Rightarrow> panic + 'c ConnectionPool \<times> (rpc_error + 'a)" where
  "failover_loop judge start [] p = Inr (p, Inl ErrAllPeersDown)"
| "failover_loop judge start (i # is) p =
     (let idx = (start + i) mod length (clients p) in
      if \<not> GetHealth p (int idx) then failover_loop judge start is p
      else
        bindR (judge idx) (\<lambda>v.
          case v of
            Answer resp \<Rightarrow> Inr (p\<lparr>current := idx\<rparr>, Inr resp)
          | Refuse err \<Rightarrow> Inr (p, Inl err)
          | Down \<Rightarrow>
              if idx \<ge> length (addrs p) then Inl IndexOutOfRange
              else failover_loop judge start is (SetHealth (int idx) False p)))"

definition query_verdict :: "rpc_error + 'a \<Rightarrow> 'a verdict" where
  "query_verdict r =
     (case r of
        Inr resp \<Rightarrow> Answer resp
      | Inl err \<Rightarrow> if err = Status NotFound then Refuse err else Down)"

definition QueryWithFailover ::
    "(nat \<Rightarrow> panic + (rpc_error + 'a)) \<Rightarrow> 'c ConnectionPool \<Rightarrow> panic + 'c ConnectionPool \<times> (rpc_error + 'a)" where
  "QueryWithFailover ask p =
     failover_loop (\<lambda>idx. bindR (ask idx) (\<lambda>r. Inr (query_verdict r))) (current p) [0..<length (clients p)] p"

definition broadcast_verdict :: "rpc_error + TransactionResponse option \<Rightarrow> TransactionResponse verdict" where
  "broadcast_verdict r =
     (case r of
        Inr (Some resp) \<Rightarrow> if trAccepted resp then Answer resp else Down
      | _ \<Rightarrow> Down)"

definition BroadcastTransactionWithFailover ::
    "(nat \<Rightarrow> panic + (rpc_error + TransactionResponse option)) \<Rightarrow> 'c ConnectionPool
     \<Rightarrow> panic + 'c ConnectionPool \<times> (rpc_error + TransactionResponse)" where
  "BroadcastTransactionWithFailover submit p =
     failover_loop (\<lambda>idx. bindR (submit idx) (\<lambda>r. Inr (broadcast_verdict r))) (current p) [0..<length (clients p)] p"

text \<open>One round of \<^verbatim>\<open>monitorHealth\<close>, with the error of each health check.\<close>

fun monitor_round :: "(nat \<Rightarrow> panic + rpc_error option) \<Rightarrow> nat list \<Rightarrow> 'c ConnectionPool \<Rightarrow> panic + 'c ConnectionPool" where
  "monitor_round check [] p = Inr p"
| "monitor_round check (i # is) p =
     bindR (check i) (\<lambda>err.
       let p = SetHealth (int i) (err = None) p in
       if err \<noteq> None \<and> err \<noteq> Some (Status Canceled) \<and> i \<ge> length (addrs p) then Inl IndexOutOfRange
       else monitor_round check is p)"

definition monitorHealth :: "(nat \<Rightarrow> panic + rpc_error option) \<Rightarrow> 'c ConnectionPool \<Rightarrow> panic + 'c ConnectionPool" where
  "monitorHealth check p = monitor_round check [0..<length (clients p)] p"

definition VerifyNXDOMAIN ::
    "(nat \<Rightarrow> panic + (rpc_error + 'a)) \<Rightarrow> 'c ConnectionPool option \<Rightarrow> panic + 'c ConnectionPool option \<times> bool" where
  "VerifyNXDOMAIN ask pool =
     (case pool of
        None \<Rightarrow> Inr (None, False)
      | Some p \<Rightarrow>
          if GetHealthyCount p < 2 then Inr (Some p, False)
          else bindR (QueryWithFailover ask p) (\<lambda>(p, r). Inr (Some p, case r of Inl err \<Rightarrow> True | Inr resp \<Rightarrow> False)))"

subsection \<open>The server\<close>

definition toProtoHeader :: "BlockHeader \<Rightarrow> BlockHeader" where
  "toProtoHeader h = \<lparr>bhIndex = bhIndex h, bhSlotNumber = bhSlotNumber h, bhHash = bhHash h,
     bhPrevHash = bhPrevHash h, bhMerkleRoot = bhMerkleRoot h, bhIndexHash = bhIndexHash h\<rparr>"

lemma toProtoHeader_id [simp]: "toProtoHeader h = h"
  by (simp add: toProtoHeader_def)

text \<open>The subscribers and the buffered content of the channels that are open. Channels are numbered, since a
  second subscription from one address replaces the first.\<close>

record GatewayServer =
  subscribers :: "(string, nat) fmap"
  channels :: "(nat, BlockHeader list) fmap"
  nextChannel :: nat

definition NewGatewayServer :: GatewayServer where
  "NewGatewayServer = \<lparr>subscribers = fmempty, channels = fmempty, nextChannel = 0\<rparr>"

definition channelSize :: nat where "channelSize = 100"

definition subscribe :: "string \<Rightarrow> GatewayServer \<Rightarrow> GatewayServer" where
  "subscribe clientKey s =
     s\<lparr>subscribers := fmupd clientKey (nextChannel s) (subscribers s),
       channels := fmupd (nextChannel s) [] (channels s), nextChannel := Suc (nextChannel s)\<rparr>"

definition unsubscribe :: "string \<Rightarrow> nat \<Rightarrow> GatewayServer \<Rightarrow> GatewayServer" where
  "unsubscribe clientKey ch s = s\<lparr>subscribers := fmdrop clientKey (subscribers s), channels := fmdrop ch (channels s)\<rparr>"

text \<open>The loop of a subscription takes the oldest header of its channel and sends it.\<close>

definition forward :: "nat \<Rightarrow> GatewayServer \<Rightarrow> GatewayServer \<times> BlockHeader option" where
  "forward ch s =
     (case fmlookup (channels s) ch of
        Some (hdr # buf) \<Rightarrow> (s\<lparr>channels := fmupd ch buf (channels s)\<rparr>, Some hdr)
      | _ \<Rightarrow> (s, None))"

fun broadcast_loop :: "BlockHeader \<Rightarrow> string list \<Rightarrow> GatewayServer \<Rightarrow> panic + GatewayServer" where
  "broadcast_loop pbHdr [] s = Inr s"
| "broadcast_loop pbHdr (addr # as) s =
     (case fmlookup (subscribers s) addr of
        None \<Rightarrow> broadcast_loop pbHdr as s
      | Some ch \<Rightarrow>
          (case fmlookup (channels s) ch of
             None \<Rightarrow> Inl ClosedChannel
           | Some buf \<Rightarrow>
               broadcast_loop pbHdr as
                 (if length buf < channelSize then s\<lparr>channels := fmupd ch (buf @ [pbHdr]) (channels s)\<rparr> else s)))"

definition BroadcastHeader ::
    "((string, nat) fmap \<Rightarrow> string list) \<Rightarrow> BlockHeader \<Rightarrow> GatewayServer \<Rightarrow> panic + GatewayServer" where
  "BroadcastHeader ord header s = broadcast_loop (toProtoHeader header) (ord (subscribers s)) s"

text \<open>The headers a new subscription sends first.\<close>

fun replay_loop ::
    "('f, 'd, 'r) platform \<Rightarrow> 'd Blockchain \<Rightarrow> int64 list \<Rightarrow> (panic + BlockHeader list) option" where
  "replay_loop PF bc [] = Some (Inr [])"
| "replay_loop PF bc (i # is) =
     (case GetBlockByIndex (pfBolt PF) (pfCodec PF) bc i of
        None \<Rightarrow> None
      | Some (Inl p) \<Rightarrow> Some (Inl p)
      | Some (Inr None) \<Rightarrow> replay_loop PF bc is
      | Some (Inr (Some block)) \<Rightarrow>
          map_option (\<lambda>r. bindR r (\<lambda>hs. Inr (toProtoHeader (Header block) # hs))) (replay_loop PF bc is))"

definition replayed ::
    "('f, 'd, 'r) platform \<Rightarrow> int64 \<Rightarrow> ('f, 'd, 'r) Node option \<Rightarrow> (panic + BlockHeader list) option" where
  "replayed PF StartIndex node =
     (case node of
        None \<Rightarrow> Some (Inr [])
      | Some n \<Rightarrow>
          if StartIndex > 0 then
            (case bindR (deref (ndBlockchain n)) (\<lambda>bc. bindR (bindR (latest PF n) deref) (\<lambda>b. Inr (bc, b))) of
               Inl p \<Rightarrow> Some (Inl p)
             | Inr (bc, b) \<Rightarrow> replay_loop PF bc [StartIndex..BIndex b])
          else Some (Inr []))"

definition QueryDomain ::
    "('f, 'd, 'r) platform \<Rightarrow> int64 \<Rightarrow> string \<Rightarrow> ('f, 'd, 'r) Node \<Rightarrow> (panic + (rpc_error + DomainQueryResponse)) option" where
  "QueryDomain PF now domainName n =
     (case GetDomain (pfBloom PF) (ndIndexManager n) domainName of
        None \<Rightarrow> Some (Inr (Inl (Status NotFound)))
      | Some tx \<Rightarrow>
          (let ipAddress = first_A (Records tx);
               loc = GetTxLocation (ndIndexManager n) domainName
           in
           case bindR (slot_at now n) (\<lambda>currentSlot. bindR (slots_per_day n) (\<lambda>slotsPerDay.
                  Inr (GetDomainPhase currentSlot (ExpirySlot tx) slotsPerDay))) of
             Inl p \<Rightarrow> Some (Inl p)
           | Inr phase \<Rightarrow>
               if phase \<noteq> ''active'' then Some (Inr (Inl (Status NotFound)))
               else
                 (case loc of
                    None \<Rightarrow> Some (Inr (Inl (Status Internal)))
                  | Some loc \<Rightarrow>
                      map_option (\<lambda>res. bindR res (\<lambda>found.
                        case found of
                          None \<Rightarrow> Inr (Inl (Status Internal))
                        | Some (block, proof) \<Rightarrow>
                            Inr (Inr \<lparr>pbDomainName = domainName, pbIpAddress = ipAddress,
                              pbProof = Some \<lparr>pbTxHash = mpTxHash proof, pbProofPath = ProofPath proof,
                                pbDirections = Directions proof\<rparr>,
                              pbBlockHeader = Some (toProtoHeader (Header block))\<rparr>)))
                        (block_at PF n loc))))"

definition HealthCheck ::
    "('f, 'd, 'r) platform \<Rightarrow> int \<Rightarrow> ('f, 'd, 'r) Node option \<Rightarrow> panic + HealthCheckResponse" where
  "HealthCheck PF peers node =
     (case node of
        None \<Rightarrow> Inr \<lparr>hcHealthy = False, hcChainHeight = 0, hcPeerCount = 0\<rparr>
      | Some n \<Rightarrow>
          bindR (bindR (latest PF n) deref) (\<lambda>b.
            Inr \<lparr>hcHealthy = True, hcChainHeight = BIndex b, hcPeerCount = peers\<rparr>))"

definition gatewayBroadcastTransaction ::
    "('f, 'd, 'r) platform \<Rightarrow> int64 \<Rightarrow> bytes \<Rightarrow> ('f, 'd, 'r) Node
     \<Rightarrow> panic + ('f, 'd, 'r) Node \<times> out list \<times> TransactionResponse" where
  "gatewayBroadcastTransaction PF now SerializedTx n =
     bindR (DeserializeTx (pfCodec PF) SerializedTx) (\<lambda>tx.
       if \<not> VerifySignature (pfCrypto PF) (sl (OwnerKey tx)) tx
       then Inr (n, [], \<lparr>trAccepted = False, trError = ''signature verification failed'', trTxHash = []\<rparr>)
       else
         bindR (nodeBroadcastTransaction PF now tx n) (\<lambda>(n, outs).
           Inr (n, outs, \<lparr>trAccepted = True, trError = [], trTxHash = show_int (TID tx)\<rparr>)))"

subsection \<open>The client\<close>

definition fromProtoHeader :: "BlockHeader \<Rightarrow> BlockHeader" where
  "fromProtoHeader hdr = \<lparr>bhIndex = bhIndex hdr, bhSlotNumber = bhSlotNumber hdr, bhHash = bhHash hdr,
     bhPrevHash = bhPrevHash hdr, bhMerkleRoot = bhMerkleRoot hdr, bhIndexHash = bhIndexHash hdr\<rparr>"

definition SerializedRequest :: "('f, 'd, 'r) platform \<Rightarrow> Transaction \<Rightarrow> bytes" where
  "SerializedRequest PF tx = gobTx (pfCodec PF) tx"

text \<open>What happens to one attempt of \<^verbatim>\<open>streamHeaders\<close>: the stream cannot be opened, or it delivers headers
  until receiving fails. The client is closed after the last attempt. The second result lists the
  index each attempt asked for.\<close>

datatype attempt = OpenFailed | Opened "BlockHeader list" rpc_error

definition stream_over :: "rpc_error \<Rightarrow> bool" where
  "stream_over err \<longleftrightarrow> err = EOF \<or> err = Status Canceled \<or> err = Status Unavailable"

fun streamHeaders :: "attempt list \<Rightarrow> ('f, 'd, 'r) Node \<Rightarrow> ('f, 'd, 'r) Node \<times> int64 list" where
  "streamHeaders [] n = (n, [])"
| "streamHeaders (a # as) n =
     (let startIdx = int (length (HeaderChain n)) in
      case a of
        OpenFailed \<Rightarrow> (let (n, reqs) = streamHeaders as n in (n, startIdx # reqs))
      | Opened hdrs err \<Rightarrow>
          (let n = foldl (\<lambda>n hdr. AddBlockHeader (fromProtoHeader hdr) n) n hdrs in
           if stream_over err then (n, [startIdx])
           else (let (n, reqs) = streamHeaders as n in (n, startIdx # reqs))))"

subsection \<open>Failover\<close>

text \<open>The clients a call may ask, in the order in which it asks them.\<close>

definition asked :: "'c ConnectionPool \<Rightarrow> nat list" where
  "asked p = filter (\<lambda>idx. GetHealth p (int idx)) (map (\<lambda>i. (current p + i) mod length (clients p)) [0..<length (clients p)])"

lemma GetHealth_SetHealth [simp]: "GetHealth (SetHealth i h p) k = (if k = i then h else GetHealth p k)"
  by (simp add: GetHealth_def SetHealth_def)

lemma SetHealth_fields [simp]:
  "clients (SetHealth i h p) = clients p" "addrs (SetHealth i h p) = addrs p" "current (SetHealth i h p) = current p"
  by (simp_all add: SetHealth_def)

abbreviation marked :: "nat list \<Rightarrow> 'c ConnectionPool \<Rightarrow> 'c ConnectionPool" where
  "marked is p \<equiv> foldl (\<lambda>p idx. SetHealth (int idx) False p) p is"

lemma marked_fields [simp]: "clients (marked is p) = clients p" "addrs (marked is p) = addrs p" "current (marked is p) = current p"
  by (induction "is" arbitrary: p) simp_all

lemma GetHealth_marked: "GetHealth (marked is p) k \<longleftrightarrow> GetHealth p k \<and> k \<notin> int ` set is"
  by (induction "is" arbitrary: p) auto

lemma rotation_distinct: "distinct (map (\<lambda>i. (s + i) mod N) [0..<N])" for N :: nat
proof -
  have le: "i = j" if "j < N" "(s + i) mod N = (s + j) mod N" "i \<le> j" for i j
  proof -
    have "N dvd j - i" using that mod_eq_dvd_iff_nat [of "s + i" "s + j" N] by simp
    then have "j - i = 0 \<or> N \<le> j - i" using dvd_imp_le by blast
    with that show ?thesis by linarith
  qed
  have "inj_on (\<lambda>i. (s + i) mod N) {0..<N}"
  proof (rule inj_onI)
    fix i j assume *: "i \<in> {0..<N}" "j \<in> {0..<N}" "(s + i) mod N = (s + j) mod N"
    show "i = j"
    proof (cases "i \<le> j")
      case False
      then show ?thesis using le [of i j] * by simp
    qed (use le [of j i] * in simp)
  qed
  then show ?thesis by (simp add: distinct_map)
qed

text \<open>The loop over the clients that are asked, and its result in closed form.\<close>

fun ask_all :: "(nat \<Rightarrow> 'a verdict) \<Rightarrow> nat list \<Rightarrow> 'c ConnectionPool \<Rightarrow> 'c ConnectionPool \<times> (rpc_error + 'a)" where
  "ask_all v [] p = (p, Inl ErrAllPeersDown)"
| "ask_all v (idx # as) p =
     (case v idx of
        Answer r \<Rightarrow> (p\<lparr>current := idx\<rparr>, Inr r)
      | Refuse e \<Rightarrow> (p, Inl e)
      | Down \<Rightarrow> ask_all v as (SetHealth (int idx) False p))"

lemma ask_all_eq:
  "ask_all v as p =
     (let p' = marked (takeWhile (\<lambda>idx. v idx = Down) as) p in
      case find (\<lambda>idx. v idx \<noteq> Down) as of
        None \<Rightarrow> (p', Inl ErrAllPeersDown)
      | Some idx \<Rightarrow> (case v idx of Answer r \<Rightarrow> (p'\<lparr>current := idx\<rparr>, Inr r) | Refuse e \<Rightarrow> (p', Inl e) | Down \<Rightarrow> (p', Inl ErrAllPeersDown)))"
proof (induction as arbitrary: p)
  case (Cons idx as)
  then show ?case by (cases "v idx") (simp_all add: Let_def)
qed simp

lemma failover_loop_asks:
  assumes "length (clients p) \<le> length (addrs p)" "clients p \<noteq> [] \<or> is = []"
    and "distinct (map (\<lambda>i. (start + i) mod length (clients p)) is)"
  shows "failover_loop (\<lambda>idx. Inr (v idx)) start is p =
     Inr (ask_all v (filter (\<lambda>idx. GetHealth p (int idx)) (map (\<lambda>i. (start + i) mod length (clients p)) is)) p)"
  using assms
proof (induction "is" arbitrary: p)
  case (Cons i "is")
  let ?idx = "(start + i) mod length (clients p)"
  let ?p = "SetHealth (int ?idx) False p"
  have "?idx < length (clients p)" using Cons.prems(2) by simp
  then have "?idx < length (addrs p)" using Cons.prems(1) by simp
  moreover have "filter (\<lambda>idx. GetHealth ?p (int idx)) (map (\<lambda>i. (start + i) mod length (clients p)) is) =
      filter (\<lambda>idx. GetHealth p (int idx)) (map (\<lambda>i. (start + i) mod length (clients p)) is)"
    using Cons.prems(3) by (auto intro!: filter_cong)
  moreover note Cons.IH [of p] Cons.IH [of ?p]
  ultimately show ?case using Cons.prems
    by (cases "GetHealth p (int ?idx)"; cases "v ?idx") (simp_all add: Let_def del: GetHealth_SetHealth)
qed simp

lemma failover_asked:
  assumes "length (clients p) \<le> length (addrs p)"
  shows "failover_loop (\<lambda>idx. Inr (v idx)) (current p) [0..<length (clients p)] p = Inr (ask_all v (asked p) p)"
  unfolding asked_def by (rule failover_loop_asks) (use assms in \<open>auto intro: rotation_distinct\<close>)

definition no_answer :: "rpc_error + 'a \<Rightarrow> bool" where
  "no_answer r = (case r of Inl err \<Rightarrow> err \<noteq> Status NotFound | Inr resp \<Rightarrow> False)"

lemma query_verdict_Down: "query_verdict r = Down \<longleftrightarrow> no_answer r"
  by (auto simp: query_verdict_def no_answer_def split: sum.split)

lemma query_verdict_final:
  "\<not> no_answer r \<Longrightarrow> query_verdict r = (case r of Inl err \<Rightarrow> Refuse err | Inr resp \<Rightarrow> Answer resp)"
  by (auto simp: query_verdict_def no_answer_def split: sum.split)

lemma query_asked:
  assumes "length (clients p) \<le> length (addrs p)"
  shows "QueryWithFailover (\<lambda>idx. Inr (ans idx)) p =
     (let p' = marked (takeWhile (\<lambda>idx. no_answer (ans idx)) (asked p)) p in
      Inr (case find (\<lambda>idx. \<not> no_answer (ans idx)) (asked p) of
             None \<Rightarrow> (p', Inl ErrAllPeersDown)
           | Some idx \<Rightarrow> (if isl (ans idx) then p' else p'\<lparr>current := idx\<rparr>, ans idx)))"
proof (cases "find (\<lambda>idx. \<not> no_answer (ans idx)) (asked p)")
  case None
  with failover_asked [OF assms, of "\<lambda>idx. query_verdict (ans idx)"] show ?thesis
    by (simp add: QueryWithFailover_def query_verdict_Down ask_all_eq Let_def)
next
  case (Some idx)
  then have "\<not> no_answer (ans idx)" by (auto simp: find_Some_iff)
  from query_verdict_final [OF this] failover_asked [OF assms, of "\<lambda>idx. query_verdict (ans idx)"] Some show ?thesis
    by (cases "ans idx") (simp_all add: QueryWithFailover_def query_verdict_Down ask_all_eq Let_def)
qed

text \<open>C27: A query goes through the healthy clients from the current one on, each at most once. The first that
  does not fail decides, whether it answers or reports that there is no such domain; exactly those
  asked before it are marked as unhealthy; the one that answered is the next to be asked first.
\<close>

theorem failover_exact:
  assumes "length (clients p) \<le> length (addrs p)"
  shows "\<exists>p'. QueryWithFailover (\<lambda>idx. Inr (ans idx)) p =
       Inr (p', case find (\<lambda>idx. \<not> no_answer (ans idx)) (asked p) of None \<Rightarrow> Inl ErrAllPeersDown | Some idx \<Rightarrow> ans idx) \<and>
     (\<forall>k. GetHealth p' k \<longleftrightarrow> GetHealth p k \<and> k \<notin> int ` set (takeWhile (\<lambda>idx. no_answer (ans idx)) (asked p))) \<and>
     current p' = (case find (\<lambda>idx. \<not> no_answer (ans idx)) (asked p) of
        Some idx \<Rightarrow> if isl (ans idx) then current p else idx | None \<Rightarrow> current p) \<and> distinct (asked p)"
proof -
  have d: "distinct (asked p)" unfolding asked_def by (rule distinct_filter) (rule rotation_distinct)
  have g: "GetHealth (q\<lparr>current := i\<rparr>) k = GetHealth q k" for q i k by (simp add: GetHealth_def)
  show ?thesis
    using d by (simp add: query_asked [OF assms] Let_def GetHealth_marked g split: option.split)
qed

definition sample_pool :: "unit ConnectionPool" where
  "sample_pool = NewConnectionPool [(), (), ()] [''a'', ''b'', ''c'']"

definition sample_answers :: "nat \<Rightarrow> rpc_error + DomainQueryResponse option" where
  "sample_answers idx = (if idx = 0 then Inl (Status Unavailable) else if idx = 1 then Inl (Status NotFound) else Inr None)"

lemma sample_asked: "asked sample_pool = [0, 1, 2]"
  by (simp add: asked_def sample_pool_def NewConnectionPool_def GetHealth_def upt_rec)

theorem failover_exact_witness:
  "\<exists>p'. QueryWithFailover (\<lambda>idx. Inr (sample_answers idx)) sample_pool = Inr (p', Inl (Status NotFound)) \<and>
     \<not> GetHealth p' 0 \<and> GetHealth p' 1 \<and> current p' = 0"
proof -
  have "length (clients sample_pool) \<le> length (addrs sample_pool)" by (simp add: sample_pool_def NewConnectionPool_def)
  moreover have "GetHealth sample_pool 1" "current sample_pool = 0"
    by (simp_all add: sample_pool_def NewConnectionPool_def GetHealth_def upt_rec)
  ultimately show ?thesis
    using failover_exact [of sample_pool sample_answers] by (auto simp: sample_asked sample_answers_def no_answer_def)
qed

text \<open>A light node believes that a domain does not exist as soon as the first healthy peer that does not
  fail says so, whatever the others would answer, and also when every healthy peer fails.
\<close>

theorem nxdomain_first_answer:
  assumes "length (clients p) \<le> length (addrs p)"
  shows "\<exists>p'. VerifyNXDOMAIN (\<lambda>idx. Inr (ans idx)) (Some p) =
     Inr (p', GetHealthyCount p \<ge> 2 \<and>
       (case find (\<lambda>idx. \<not> no_answer (ans idx)) (asked p) of None \<Rightarrow> True | Some idx \<Rightarrow> ans idx = Inl (Status NotFound)))"
proof (cases "find (\<lambda>idx. \<not> no_answer (ans idx)) (asked p)")
  case None
  then show ?thesis by (simp add: VerifyNXDOMAIN_def query_asked [OF assms] Let_def)
next
  case (Some idx)
  then have "\<not> no_answer (ans idx)" by (auto simp: find_Some_iff)
  with Some show ?thesis
    by (cases "ans idx") (simp_all add: VerifyNXDOMAIN_def query_asked [OF assms] Let_def no_answer_def)
qed

lemma GetHealthyCount_card: "GetHealthyCount p = card {k \<in> fset (fmdom (health p)). GetHealth p k}"
  by (simp add: GetHealthyCount_def distinct_length_filter Int_commute Collect_conj_eq)

theorem nxdomain_first_answer_witness:
  "\<exists>p'. VerifyNXDOMAIN (\<lambda>idx. Inr (sample_answers idx)) (Some sample_pool) = Inr (p', True)"
proof -
  have "length (clients sample_pool) \<le> length (addrs sample_pool)" by (simp add: sample_pool_def NewConnectionPool_def)
  moreover have "{k \<in> fset (fmdom (health sample_pool)). GetHealth sample_pool k} = {0, 1, 2}"
    by (auto simp: sample_pool_def NewConnectionPool_def GetHealth_def upt_rec)
  then have "GetHealthyCount sample_pool \<ge> 2" by (simp add: GetHealthyCount_card)
  ultimately show ?thesis
    using nxdomain_first_answer [of sample_pool sample_answers] by (simp add: sample_asked sample_answers_def no_answer_def)
qed

subsection \<open>Subscriptions\<close>

text \<open>The runs of a server. Every open channel has a handler, which remembers the address it was opened
  for and ends by removing the subscription of that address.\<close>

inductive server_reach :: "((string, nat) fmap \<Rightarrow> string list) \<Rightarrow> GatewayServer \<Rightarrow> (nat, string) fmap \<Rightarrow> bool"
  for ord where
  start: "server_reach ord NewGatewayServer fmempty"
| subscribe: "server_reach ord s handlers \<Longrightarrow> server_reach ord (subscribe key s) (fmupd (nextChannel s) key handlers)"
| leave: "server_reach ord s handlers \<Longrightarrow> fmlookup handlers ch = Some key \<Longrightarrow>
    server_reach ord (unsubscribe key ch s) (fmdrop ch handlers)"
| forward: "server_reach ord s handlers \<Longrightarrow> server_reach ord (fst (forward ch s)) handlers"
| publish: "server_reach ord s handlers \<Longrightarrow> BroadcastHeader ord h s = Inr s' \<Longrightarrow> server_reach ord s' handlers"

definition server_ok :: "GatewayServer \<Rightarrow> (nat, string) fmap \<Rightarrow> bool" where
  "server_ok s handlers \<longleftrightarrow> fmdom handlers = fmdom (channels s) \<and> (\<forall>ch \<in> fset (fmdom (channels s)). ch < nextChannel s) \<and>
     (\<forall>key ch. fmlookup (subscribers s) key = Some ch \<longrightarrow> fmlookup handlers ch = Some key) \<and>
     (\<forall>ch buf. fmlookup (channels s) ch = Some buf \<longrightarrow> length buf \<le> channelSize)"

abbreviation offered :: "BlockHeader \<Rightarrow> BlockHeader list \<Rightarrow> BlockHeader list" where
  "offered h buf \<equiv> if length buf < channelSize then buf @ [h] else buf"

lemma channels_id: "s\<lparr>channels := channels s\<rparr> = s"
  by (cases s) simp

lemma server_ok_channels:
  assumes "server_ok s handlers" "fmlookup (channels s) ch = Some old" "length buf \<le> channelSize"
  shows "server_ok (s\<lparr>channels := fmupd ch buf (channels s)\<rparr>) handlers"
proof -
  have "fmdom (fmupd ch buf (channels s)) = fmdom (channels s)" using assms(2) by (auto intro: fmdomI)
  with assms show ?thesis by (auto simp: server_ok_def simp del: fmdom_fmupd)
qed

lemma server_ok_channel:
  assumes "server_ok s handlers" "fmlookup (subscribers s) key = Some ch"
  obtains buf where "fmlookup (channels s) ch = Some buf" "length buf \<le> channelSize"
    "\<forall>key'. fmlookup (subscribers s) key' = Some ch \<longrightarrow> key' = key"
proof -
  have h: "fmlookup handlers ch = Some key" using assms by (simp add: server_ok_def)
  then have "ch |\<in>| fmdom (channels s)" using assms(1) unfolding server_ok_def by (metis fmdomI)
  then obtain buf where "fmlookup (channels s) ch = Some buf" by (auto simp: fmlookup_dom_iff)
  moreover from this have "length buf \<le> channelSize" using assms(1) by (simp add: server_ok_def)
  moreover have "key' = key" if "fmlookup (subscribers s) key' = Some ch" for key'
  proof -
    have "fmlookup handlers ch = Some key'" using assms(1) that by (simp add: server_ok_def)
    with h show ?thesis by simp
  qed
  ultimately show thesis using that by blast
qed

definition sent_to :: "BlockHeader \<Rightarrow> string set \<Rightarrow> GatewayServer \<Rightarrow> GatewayServer \<Rightarrow> bool" where
  "sent_to h A s s' \<longleftrightarrow> subscribers s' = subscribers s \<and>
     (\<forall>ch. fmlookup (channels s') ch =
        (if \<exists>a \<in> A. fmlookup (subscribers s) a = Some ch then map_option (offered h) (fmlookup (channels s) ch)
         else fmlookup (channels s) ch))"

lemma sent_to_insert:
  assumes "sent_to h A (s\<lparr>channels := fmupd ch (offered h buf) (channels s)\<rparr>) s'" "a \<notin> A"
    "fmlookup (subscribers s) a = Some ch" "fmlookup (channels s) ch = Some buf"
    "\<forall>key. fmlookup (subscribers s) key = Some ch \<longrightarrow> key = a"
  shows "sent_to h (insert a A) s s'"
  unfolding sent_to_def
proof (intro conjI allI)
  fix c
  have none: "\<not> (\<exists>b \<in> A. fmlookup (subscribers s) b = Some ch)" using assms(2,5) by blast
  have "fmlookup (channels s') c = (if \<exists>b \<in> A. fmlookup (subscribers s) b = Some c then map_option (offered h) (fmlookup (fmupd ch (offered h buf) (channels s)) c)
         else fmlookup (fmupd ch (offered h buf) (channels s)) c)"
    using spec [OF conjunct2 [OF assms(1) [unfolded sent_to_def]], of c] by simp
  with none assms(3,4) show "fmlookup (channels s') c =
      (if \<exists>b \<in> insert a A. fmlookup (subscribers s) b = Some c then map_option (offered h) (fmlookup (channels s) c)
       else fmlookup (channels s) c)"
    by (cases "c = ch") simp_all
qed (use assms(1) in \<open>simp add: sent_to_def\<close>)

text \<open>On a well-formed server the loop of \<open>BroadcastHeader\<close> meets every channel once.\<close>

lemma broadcast_loop_ok:
  assumes "server_ok s handlers" "distinct as" "set as \<subseteq> fset (fmdom (subscribers s))"
  shows "\<exists>s'. broadcast_loop h as s = Inr s' \<and> server_ok s' handlers \<and> sent_to h (set as) s s'"
  using assms
proof (induction as arbitrary: s)
  case (Cons a as)
  obtain ch where ch: "fmlookup (subscribers s) a = Some ch" using Cons.prems(3) by (meson fmdomE list.set_intros(1) subsetD)
  obtain buf where buf: "fmlookup (channels s) ch = Some buf" "length buf \<le> channelSize"
    and own: "\<forall>key'. fmlookup (subscribers s) key' = Some ch \<longrightarrow> key' = a"
    by (rule server_ok_channel [OF Cons.prems(1) ch])
  let ?s = "s\<lparr>channels := fmupd ch (offered h buf) (channels s)\<rparr>"
  have ok: "server_ok ?s handlers" using buf(2) by (intro server_ok_channels [OF Cons.prems(1) buf(1)]) simp
  have sub: "distinct as" "set as \<subseteq> fset (fmdom (subscribers ?s))" using Cons.prems(2,3) by simp_all
  obtain s' where s': "broadcast_loop h as ?s = Inr s'" "server_ok s' handlers" "sent_to h (set as) ?s s'"
    using Cons.IH [OF ok sub] by (elim exE conjE)
  have "fmupd ch buf (channels s) = channels s" by (rule fmap_ext) (auto simp: buf(1))
  then have "(if length buf < channelSize then s\<lparr>channels := fmupd ch (buf @ [h]) (channels s)\<rparr> else s) = ?s"
    by (cases "length buf < channelSize") (simp_all only: if_True if_False channels_id)
  then have "broadcast_loop h (a # as) s = broadcast_loop h as ?s" by (simp only: broadcast_loop.simps ch buf(1) option.case)
  moreover have "sent_to h (set (a # as)) s s'"
    unfolding list.set(2) by (rule sent_to_insert [OF s'(3) _ ch buf(1) own]) (use Cons.prems(2) in simp_all)
  ultimately show ?case using s'(1,2) by (intro exI [of _ s'] conjI) simp_all
qed (simp add: sent_to_def)

lemma server_ok_subscribe:
  assumes "server_ok s handlers"
  shows "server_ok (subscribe key s) (fmupd (nextChannel s) key handlers)"
proof -
  have fresh: "nextChannel s |\<notin>| fmdom (channels s)" "fmdom handlers = fmdom (channels s)"
    using assms by (auto simp: server_ok_def)
  then have "fmlookup handlers (nextChannel s) = None" by auto
  then have "fmlookup (fmupd (nextChannel s) key handlers) ch = Some key'"
    if "fmlookup (fmupd key (nextChannel s) (subscribers s)) key' = Some ch" for key' ch
    using assms that by (cases "key' = key") (auto simp: server_ok_def)
  with assms fresh(2) show ?thesis unfolding server_ok_def Gateway.subscribe_def by (auto simp: less_Suc_eq)
qed

lemma server_ok_unsubscribe:
  assumes "server_ok s handlers" "fmlookup handlers ch = Some key"
  shows "server_ok (unsubscribe key ch s) (fmdrop ch handlers)"
proof -
  have "fmlookup (fmdrop ch handlers) c = Some key'" if "fmlookup (fmdrop key (subscribers s)) key' = Some c" for key' c
  proof -
    from that have "key' \<noteq> key" "fmlookup (subscribers s) key' = Some c" by (simp_all split: if_split_asm)
    then have "fmlookup handlers c = Some key'" using assms(1) by (simp add: server_ok_def)
    with \<open>key' \<noteq> key\<close> assms(2) show ?thesis by auto
  qed
  moreover have "length buf \<le> channelSize" if "fmlookup (fmdrop ch (channels s)) c = Some buf" for c buf
    using assms(1) that by (simp add: server_ok_def split: if_split_asm)
  ultimately show ?thesis using assms(1) unfolding server_ok_def unsubscribe_def by simp
qed

lemma server_reach_ok:
  assumes "server_reach ord s handlers" "visits ord"
  shows "server_ok s handlers"
  using assms(1)
proof (induction rule: server_reach.induct)
  case (subscribe s handlers key)
  then show ?case by (intro server_ok_subscribe)
next
  case (leave s handlers ch key)
  then show ?case by (intro server_ok_unsubscribe)
next
  case (forward s handlers ch)
  have "length (hdr # buf) \<le> channelSize" if "fmlookup (channels s) ch = Some (hdr # buf)" for hdr buf
    using forward.IH that by (simp only: server_ok_def)
  with forward.IH server_ok_channels [OF forward.IH] show ?case
    by (auto simp: Gateway.forward_def split: option.split list.split)
next
  case (publish s handlers h s')
  have "distinct (ord (subscribers s))" "set (ord (subscribers s)) \<subseteq> fset (fmdom (subscribers s))"
    using assms(2) by (auto simp: visits_def)
  from broadcast_loop_ok [OF publish.IH this, of "toProtoHeader h"] publish.hyps show ?case
    by (auto simp: BroadcastHeader_def)
qed (simp add: server_ok_def NewGatewayServer_def)

text \<open>C28: Publishing a header never fails: in every reachable state of the server it never sends on a closed
  channel, it reaches every subscriber whatever the order of the map, and no channel ever holds more
  than 100 headers: a full one drops the new header and keeps the rest.
\<close>

theorem publish_reaches_subscribers:
  assumes "server_reach ord s handlers" "visits ord"
  shows "\<exists>s'. BroadcastHeader ord h s = Inr s' \<and> subscribers s' = subscribers s \<and>
     (\<forall>key ch. fmlookup (subscribers s) key = Some ch \<longrightarrow>
        (\<exists>buf. fmlookup (channels s) ch = Some buf \<and> length buf \<le> 100 \<and>
           fmlookup (channels s') ch = Some (if length buf < 100 then buf @ [toProtoHeader h] else buf))) \<and>
     (\<forall>ch. (\<forall>key. fmlookup (subscribers s) key \<noteq> Some ch) \<longrightarrow> fmlookup (channels s') ch = fmlookup (channels s) ch)"
proof -
  note ok = server_reach_ok [OF assms]
  have ord: "distinct (ord (subscribers s))" "set (ord (subscribers s)) = fset (fmdom (subscribers s))"
    using assms(2) by (auto simp: visits_def)
  obtain s' where s': "BroadcastHeader ord h s = Inr s'" and sent: "sent_to h (fset (fmdom (subscribers s))) s s'"
    using broadcast_loop_ok [OF ok ord(1) eq_refl [OF ord(2)], of h] unfolding ord(2) BroadcastHeader_def toProtoHeader_id by blast
  have live: "\<exists>buf. fmlookup (channels s) c = Some buf \<and> length buf \<le> 100 \<and>
      fmlookup (channels s') c = Some (if length buf < 100 then buf @ [toProtoHeader h] else buf)"
    if key: "fmlookup (subscribers s) key = Some c" for key c
  proof -
    obtain buf where "fmlookup (channels s) c = Some buf" "length buf \<le> channelSize" by (rule server_ok_channel [OF ok key])
    moreover have "\<exists>a \<in> fset (fmdom (subscribers s)). fmlookup (subscribers s) a = Some c"
      by (intro bexI [of _ key]) (simp_all add: key fmdomI [OF key])
    ultimately show ?thesis using spec [OF conjunct2 [OF sent [unfolded sent_to_def]], of c] by (simp add: channelSize_def)
  qed
  have other: "fmlookup (channels s') c = fmlookup (channels s) c" if "\<forall>key. fmlookup (subscribers s) key \<noteq> Some c" for c
    using spec [OF conjunct2 [OF sent [unfolded sent_to_def]], of c] that by simp
  have "subscribers s' = subscribers s" using sent by (simp add: sent_to_def)
  moreover have "\<forall>ch. (\<forall>key. fmlookup (subscribers s) key \<noteq> Some ch) \<longrightarrow> fmlookup (channels s') ch = fmlookup (channels s) ch"
    using other by blast
  moreover have "\<forall>key ch. fmlookup (subscribers s) key = Some ch \<longrightarrow>
        (\<exists>buf. fmlookup (channels s) ch = Some buf \<and> length buf \<le> 100 \<and>
           fmlookup (channels s') ch = Some (if length buf < 100 then buf @ [toProtoHeader h] else buf))"
    by (intro allI impI live)
  ultimately show ?thesis using s' by (intro exI [of _ s'] conjI)
qed

definition sample_server :: GatewayServer where
  "sample_server = subscribe ''p'' NewGatewayServer"

theorem publish_reaches_subscribers_witness:
  "\<exists>s'. BroadcastHeader sorted_keys (sample_header 1) sample_server = Inr s' \<and> fmlookup (channels s') 0 = Some [sample_header 1]"
proof -
  have "server_reach sorted_keys sample_server (fmupd (nextChannel NewGatewayServer) ''p'' fmempty)"
    unfolding sample_server_def by (intro server_reach.intros)
  from publish_reaches_subscribers [OF this visits_sorted_keys, of "sample_header 1"] obtain s' where
    "BroadcastHeader sorted_keys (sample_header 1) sample_server = Inr s'"
    and sent: "\<forall>key ch. fmlookup (subscribers sample_server) key = Some ch \<longrightarrow>
        (\<exists>buf. fmlookup (channels sample_server) ch = Some buf \<and> length buf \<le> 100 \<and>
           fmlookup (channels s') ch = Some (if length buf < 100 then buf @ [toProtoHeader (sample_header 1)] else buf))"
    by blast
  moreover from sent [rule_format, of "''p''" 0] have "fmlookup (channels s') 0 = Some [sample_header 1]"
    by (simp add: sample_server_def Gateway.subscribe_def NewGatewayServer_def)
  ultimately show ?thesis by blast
qed

text \<open>A handler that ends removes the subscription of its address, even one that was opened later.\<close>

lemma second_subscription_lost:
  "fmlookup (subscribers (unsubscribe key ch (subscribe key s))) key = None"
  by (simp add: unsubscribe_def)

end
