(* ===== verification/Sync.thy ===== *)
theory Sync
  imports Gateway
begin

text \<open>
  Light nodes that follow a full node through the gateway: the headers of \<^verbatim>\<open>streamHeaders\<close> and
  \<^verbatim>\<open>SubscribeHeaders\<close> together, and the answers of \<^verbatim>\<open>QueryDomain\<close> under \<^verbatim>\<open>HandleDNSProofGRPC\<close>.
\<close>

subsection \<open>Light nodes that follow a full node\<close>

lemma fromProtoHeader_id [simp]: "fromProtoHeader h = h"
  by (simp add: fromProtoHeader_def)

lemma headers_linkedI:
  "(\<And>i. Suc i < length hs \<Longrightarrow> bhPrevHash (hs ! Suc i) = bhHash (hs ! i) \<and> bhHash (hs ! Suc i) \<noteq> bhHash (hs ! i)) \<Longrightarrow> headers_linked hs"
proof (induction hs rule: headers_linked.induct)
  case (1 a b hs)
  from "1.prems" [of 0] have "bhPrevHash b = bhHash a" "bhHash b \<noteq> bhHash a" by simp_all
  moreover have "headers_linked (b # hs)" using "1.prems" [of "Suc _"] by (intro "1.IH") simp
  ultimately show ?case by simp
qed simp_all

lemma chain_headers_linked:
  assumes "chain D cd bc bs" "is_i64 (int (length bs))"
  shows "headers_linked (drop k (map Header (rev bs)))"
proof (rule headers_linkedI)
  fix i assume "Suc i < length (drop k (map Header (rev bs)))"
  then have i: "k + Suc i < length bs" by simp
  moreover have "linked bs" using assms(1) by (simp add: chain_def)
  ultimately show "bhPrevHash (drop k (map Header (rev bs)) ! Suc i) = bhHash (drop k (map Header (rev bs)) ! i) \<and>
      bhHash (drop k (map Header (rev bs)) ! Suc i) \<noteq> bhHash (drop k (map Header (rev bs)) ! i)"
    using linked_prev [of bs "k + i"] chain_hashes [OF assms, of "k + Suc i" "k + i"] by (auto simp: Header_def)
qed

lemma upto_map_int: "[int k..int (k + m) - 1] = map int [k..<k + m]"
proof (induction m arbitrary: k)
  case (Suc m)
  have "[int k..int (k + Suc m) - 1] = int k # [int (Suc k)..int (Suc k + m) - 1]" by (simp add: upto_rec1 add.commute)
  also have "\<dots> = map int (k # [Suc k..<Suc k + m])" using Suc.IH [of "Suc k"] by simp
  also have "k # [Suc k..<Suc k + m] = [k..<k + Suc m]" by (simp only: upt_conv_Cons add_Suc_shift less_add_Suc1)
  finally show ?case .
qed simp

lemma replay_chain:
  assumes "chain (pfBolt PF) (pfCodec PF) bc bs" "is_i64 (int (length bs))" "k + m \<le> length bs"
  shows "replay_loop PF bc (map int [k..<k + m]) = Some (Inr (map (\<lambda>i. Header (rev bs ! i)) [k..<k + m]))"
  using assms(3)
proof (induction m arbitrary: k)
  case (Suc m)
  have "linked bs" using assms(1) by (simp add: chain_def)
  then have "GetBlockByIndex (pfBolt PF) (pfCodec PF) bc (int k) = Some (Inr (Some (rev bs ! k)))"
    using chain_by_index [OF assms(1), of "int k"] find_index [OF _ assms(2), of k] Suc.prems by simp
  moreover have "[k..<k + Suc m] = k # [Suc k..<Suc k + m]" by (simp only: upt_conv_Cons add_Suc_shift less_add_Suc1)
  moreover have "Suc k + m \<le> length bs" using Suc.prems by simp
  ultimately show ?case using Suc.IH [of "Suc k"] by (simp del: upt_Suc)
qed simp

lemma chain_node:
  assumes "chain (pfBolt PF) (pfCodec PF) bc bs" "ndBlockchain m = Some bc"
  shows "latest PF m = Inr (Some (hd bs))"
  using chain_latest [OF assms(1)] assms(2) by (simp add: latest_def deref_def)

text \<open>A stored chain of seven blocks; the genesis block has two transactions.\<close>

definition tower_block :: "nat \<Rightarrow> Block" where
  "tower_block i =
     (let txs = (if i = 0 then [zero_Transaction\<lparr>TID := 3\<rparr>, zero_Transaction\<lparr>TID := 4\<rparr>] else [])
      in zero_Block\<lparr>BIndex := int i, BHash := replicate 32 (of_nat i), PrevHash := (if i = 0 then [] else replicate 32 (of_nat i - 1)),
           Transactions := txs, MerkleRootHash := tree_root (pad_level (tx_leaves sample_codec txs))\<rparr>)"

definition tower_codec :: codec where
  "tower_codec = sample_codec\<lparr>gobBlock := (\<lambda>b. [of_int (BIndex b)]), gobBlockDec := (\<lambda>d. Some (tower_block (unat (hd d))))\<rparr>"

definition tower :: "Block list" where
  "tower = map tower_block [6, 5, 4, 3, 2, 1, 0]"

definition tower_chain :: "(bytes, bytes) fmap Blockchain" where
  "tower_chain = \<lparr>tip = replicate 32 6,
     blocks = fmupd last_key (replicate 32 6) (foldl (\<lambda>m b. fmupd (BHash b) (gobBlock tower_codec b) m) fmempty tower),
     spent_txs = fmempty\<rparr>"

abbreviation tower_platform :: "(string fset, (bytes, bytes) fmap, nat) platform" where
  "tower_platform \<equiv> sample_platform\<lparr>pfCodec := tower_codec\<rparr>"

lemma tower_block_simps [simp]:
  "BIndex (tower_block i) = int i" "BHash (tower_block i) = replicate 32 (of_nat i)"
  "gobBlock tower_codec (tower_block i) = [of_nat i]"
  by (simp_all add: tower_block_def tower_codec_def Let_def)

lemma tower_lookup: "i \<in> {0, 1, 2, 3, 4, 5, 6} \<Longrightarrow> fmlookup (blocks tower_chain) (replicate 32 (of_nat i)) = Some [of_nat i]"
  unfolding tower_chain_def tower_def by (elim insertE emptyE) (simp_all add: last_key_short)

lemma tower_stored: "i \<in> {0, 1, 2, 3, 4, 5, 6} \<Longrightarrow> stored sample_bolt tower_codec (blocks tower_chain) (tower_block i)"
proof -
  assume i: "i \<in> {0, 1, 2, 3, 4, 5, 6}"
  then have "i < 256" by auto
  then have "unat (of_nat i :: byte) = i" by (simp add: unsigned_of_nat take_bit_nat_eq_self)
  then have "gobBlockDec tower_codec [of_nat i] = Some (tower_block i)" by (simp add: tower_codec_def)
  with tower_lookup [OF i] show ?thesis by (simp add: stored_def gob_ok_def sample_bolt_def)
qed

lemma tower_ok: "chain (pfBolt tower_platform) (pfCodec tower_platform) tower_chain tower"
proof -
  have "linked tower" by (simp add: tower_def tower_block_def zero_Block_def Let_def i64_def)
  moreover have "tip tower_chain = BHash (hd tower)" by (simp add: tower_chain_def tower_def tower_block_def zero_Block_def Let_def)
  moreover have "boltGet sample_bolt (blocks tower_chain) last_key = Some (tip tower_chain)"
    by (simp add: sample_bolt_def tower_chain_def)
  moreover have "\<forall>b \<in> set tower. stored sample_bolt tower_codec (blocks tower_chain) b"
    using tower_stored by (auto simp: tower_def)
  ultimately show ?thesis by (simp add: chain_def sample_platform_def)
qed

lemma tower_facts: "is_i64 (int (length tower))" "length tower = 7" "rev tower ! 0 = tower_block 0" "hd tower = tower_block 6"
  by (simp_all add: tower_def is_i64_def)

abbreviation tower_full :: "(string fset, (bytes, bytes) fmap, nat) Node" where
  "tower_full \<equiv> sample_light\<lparr>ndBlockchain := Some tower_chain\<rparr>"

text \<open>C26: A light node catches up if it has a first header: when its header chain is a non-empty prefix of the
  full node's, it asks for the headers it misses, the full node replays exactly those of its stored
  chain, and afterwards the header chain of the light node is that of the full node. When its header
  chain is empty, the full node replays nothing and the header chain stays empty.
\<close>

theorem header_sync:
  assumes "chain (pfBolt PF) (pfCodec PF) bc bs" "is_i64 (int (length bs))" "ndBlockchain full = Some bc"
    and "HeaderChain light = take k (map Header (rev bs))" "k \<le> length bs"
  shows "\<exists>hdrs light'. replayed PF (int k) (Some full) = Some (Inr hdrs) \<and>
     streamHeaders [Opened hdrs err] light = (light', [int k]) \<and> HeaderChain light' = (if k = 0 then [] else map Header (rev bs))"
proof (cases "k = 0")
  case True
  with assms(4) show ?thesis by (simp add: replayed_def Let_def)
next
  case False
  let ?hs = "map Header (rev bs)"
  let ?hdrs = "drop k ?hs"
  have "[int k..BIndex (hd bs)] = map int [k..<k + (length bs - k)]"
    using chain_top [OF assms(1,2)] upto_map_int [of k "length bs - k"] assms(5) by simp
  then have "replayed PF (int k) (Some full) = Some (Inr (map (\<lambda>i. Header (rev bs ! i)) [k..<length bs]))"
    using replay_chain [OF assms(1,2), of k "length bs - k"] chain_node [OF assms(1,3)] assms(3,5) False
    by (simp add: replayed_def deref_def)
  moreover have "map (\<lambda>i. Header (rev bs ! i)) [k..<length bs] = ?hdrs"
    by (rule nth_equalityI) simp_all
  ultimately have sent: "replayed PF (int k) (Some full) = Some (Inr ?hdrs)" by simp
  have "headers_linked (HeaderChain light @ ?hdrs)"
    using chain_headers_linked [OF assms(1,2), of 0] assms(4) by simp
  moreover have "bs \<noteq> []" using assms(5) False by auto
  ultimately have sync: "HeaderChain (receive_headers ?hdrs light) = ?hs"
    using receive_linked [of light "map (\<lambda>h. (h, 0)) ?hdrs"] assms(4,5) False by (auto simp: comp_def concat_map_singleton)
  have "streamHeaders [Opened ?hdrs err] light = (receive_headers ?hdrs light, [int k])"
    using assms(4,5) by (simp add: Let_def min_def)
  with sent sync False show ?thesis by auto
qed

theorem header_sync_witness:
  "\<exists>hdrs light'. replayed tower_platform 2 (Some tower_full) = Some (Inr hdrs) \<and>
     streamHeaders [Opened hdrs EOF] (sample_light\<lparr>HeaderChain := take 2 (map Header (rev tower))\<rparr>) = (light', [2]) \<and>
     HeaderChain light' = map Header (rev tower)"
  using header_sync [OF tower_ok tower_facts(1), of tower_full "sample_light\<lparr>HeaderChain := take 2 (map Header (rev tower))\<rparr>" 2 EOF]
  by (simp add: tower_facts(2))

subsection \<open>Answers of a full node\<close>

text \<open>The answer to a query, and the verdict of a light node that has the header of the answer.\<close>

lemma query_answer:
  assumes full: "chain (pfBolt PF) (pfCodec PF) bc bs" "is_i64 (int (length bs))" "ndBlockchain full = Some bc"
    and domain: "GetDomain (pfBloom PF) (ndIndexManager full) d = Some tx" "slot_at now full = Inr slot" "slots_per_day full = Inr spd"
      "GetDomainPhase slot (ExpirySlot tx) spd = ''active''"
    and loc: "GetTxLocation (ndIndexManager full) d = Some \<lparr>tlBlockIndex = int i, tlTxIndex = int j\<rparr>" "i < length bs"
      "j < length (Transactions (rev bs ! i))"
    and root: "SetupMerkleTree (pfCodec PF) (rev bs ! i) = Inr (MerkleRootHash (rev bs ! i))" "1 < length (Transactions (rev bs ! i))"
      "length (Transactions (rev bs ! i)) = 2 ^ k \<or> length (Transactions (rev bs ! i)) + 1 = 2 ^ k"
  obtains resp p where "QueryDomain PF now d full = Some (Inr (Inr resp))" "pbIpAddress resp = first_A (Records tx)"
    "pbBlockHeader resp = Some (Header (rev bs ! i))" "pbProof resp = Some p"
    "pbTxHash p = sha256 (gobTx (pfCodec PF) (Transactions (rev bs ! i) ! j))"
    "verify_loop (pbTxHash p) (pbProofPath p) (pbDirections p) = Inr (MerkleRootHash (rev bs ! i))"
proof -
  let ?b = "rev bs ! i"
  have linked: "linked bs" using full(1) by (simp add: chain_def)
  obtain p where p: "GenerateMerkleProof (pfCodec PF) ?b (int j) = Some p" "mpTxHash p = sha256 (gobTx (pfCodec PF) (Transactions ?b ! j))"
    "mpMerkleRoot p = level_root (tx_leaves (pfCodec PF) (Transactions ?b))" "VerifyMerkleProof (Some p) = Inr True"
    by (rule GenerateMerkleProof_spec [OF loc(3)])
  have "block_at PF full \<lparr>tlBlockIndex = int i, tlTxIndex = int j\<rparr> = Some (Inr (Some (?b, p)))"
    using full(3) chain_by_index [OF full(1), of "int i"] find_index [OF linked full(2) loc(2)] p(1) by (simp add: block_at_def)
  moreover have "MerkleRootHash ?b = mpMerkleRoot p"
    using proof_root_is_block_root [OF root(2,3), of "pfCodec PF"] root(1,2) p(3) by (simp add: SetupMerkleTree_root split: if_split_asm)
  then have "verify_loop (mpTxHash p) (ProofPath p) (Directions p) = Inr (MerkleRootHash ?b)"
    using p(4) by (simp add: VerifyMerkleProof_def bindR_eq_Inr split: option.split_asm)
  ultimately show thesis using domain loc(1) p(2) that
      [of "\<lparr>pbDomainName = d, pbIpAddress = first_A (Records tx),
         pbProof = Some \<lparr>pbTxHash = mpTxHash p, pbProofPath = ProofPath p, pbDirections = Directions p\<rparr>,
         pbBlockHeader = Some (Header ?b)\<rparr>"
        "\<lparr>pbTxHash = mpTxHash p, pbProofPath = ProofPath p, pbDirections = Directions p\<rparr>"]
    by (simp add: QueryDomain_def Let_def)
qed

lemma proof_verdict:
  assumes "pbBlockHeader resp = Some h" "pbProof resp = Some p" "bhIndex h = int i" "i < length (HeaderChain light)" "HeaderChain light ! i = h"
    and "verify_loop (pbTxHash p) (pbProofPath p) (pbDirections p) = Inr (bhMerkleRoot h)"
  shows "HandleDNSProofGRPC PF later (Some resp) light =
     (case latest PF light of Inl e \<Rightarrow> Inl e | Inr None \<Rightarrow> Inl NilDereference
      | Inr (Some own) \<Rightarrow> Inr (6 \<le> i64 (BIndex own - int i)))"
  using assms by (simp add: HandleDNSProofGRPC_def VerifyMerkleProof_def kConfirmations_def deref_def not_less bindR_def split: sum.split option.split)

lemma HandleDNSProofGRPC_wait:
  assumes "HandleDNSProofGRPC PF later (Some resp) n = Inr True"
  obtains claimed h where "pbBlockHeader resp = Some claimed" "waitForHeader (HeaderChain n # later) (bhIndex claimed) = Inr (Some h)"
    "bhHash h = bhHash claimed"
  using assms by (auto simp: HandleDNSProofGRPC_def bindR_eq_Inr split: option.split_asm if_split_asm)

lemma waitForHeader_total: "0 \<le> i \<Longrightarrow> \<exists>h. waitForHeader polls i = Inr h"
  by (induction polls) auto

lemma waitForHeader_found:
  "waitForHeader polls i = Inr (Some h) \<Longrightarrow> \<exists>hs \<in> set polls. 0 \<le> i \<and> nat i < length hs \<and> h = hs ! nat i"
  by (induction polls) (auto split: if_split_asm)

text \<open>The header chain of a node that started late, and what its polls can find.\<close>

lemma late_chain:
  assumes "chain D cd bc bs" "is_i64 (int (length bs))" "HeaderChain start = []"
  shows "HeaderChain (receive_headers (take m (drop k (map Header (rev bs)))) start) = take m (drop k (map Header (rev bs)))"
proof (cases "take m (drop k (map Header (rev bs)))")
  case Nil
  show ?thesis by (simp only: Nil) (simp add: assms(3))
next
  case (Cons h hs)
  have "headers_linked (take m (drop k (map Header (rev bs))) @ drop m (drop k (map Header (rev bs))))"
    using chain_headers_linked [OF assms(1,2)] by (simp only: append_take_drop_id)
  then have linked: "headers_linked (h # hs)" by (simp only: Cons headers_linked_append)
  have one: "HeaderChain (AddBlockHeader h start) = [h]" using assms(3) by (simp add: AddBlockHeader_chain)
  show ?thesis
    using receive_linked [of "AddBlockHeader h start" "map (\<lambda>h. (h, 0)) hs"] one linked
    by (simp add: Cons comp_def concat_map_singleton)
qed

lemma polls_shifted:
  assumes "waitForHeader polls idx = Inr (Some h)" "\<forall>hs \<in> set polls. \<exists>m. hs = take m (drop k (map Header (rev bs)))"
  shows "\<exists>j. idx = int j \<and> k + j < length bs \<and> h = Header (rev bs ! (k + j))"
proof -
  from waitForHeader_found [OF assms(1)] obtain hs where hs: "hs \<in> set polls" "0 \<le> idx" "nat idx < length hs" "h = hs ! nat idx" by blast
  with assms(2) obtain m where "hs = take m (drop k (map Header (rev bs)))" by blast
  with hs have "nat idx < length bs - k" "h = drop k (map Header (rev bs)) ! nat idx" by simp_all
  then have "k + nat idx < length bs" "h = Header (rev bs ! (k + nat idx))" by (simp_all add: less_diff_conv add.commute)
  then show ?thesis using hs(2) by (intro exI [of _ "nat idx"]) simp
qed

text \<open>A full node with the seven blocks that knows the domain \<open>a.com\<close>.\<close>

definition tower_record :: Transaction where
  "tower_record = zero_Transaction\<lparr>ExpirySlot := 9, Records := [Record ''A'' ''1.2.3.4'' 0]\<rparr>"

lemma tower_domain:
  obtains im :: "string fset IndexManager"
  where "GetDomain (pfBloom tower_platform) (ndIndexManager (tower_full\<lparr>ndIndexManager := im\<rparr>)) ''a.com'' = Some tower_record"
    "slot_at 50 (tower_full\<lparr>ndIndexManager := im\<rparr>) = Inr 5" "slots_per_day (tower_full\<lparr>ndIndexManager := im\<rparr>) = Inr 8640"
    "GetDomainPhase 5 (ExpirySlot tower_record) 8640 = ''active''"
    "GetTxLocation (ndIndexManager (tower_full\<lparr>ndIndexManager := im\<rparr>)) ''a.com'' = Some \<lparr>tlBlockIndex = int 0, tlTxIndex = int 1\<rparr>"
proof -
  obtain im :: "string fset IndexManager" where im: "GetDomain sample_bloom im ''a.com'' = Some tower_record"
    unfolding tower_record_def using sample_registered by (rule exE)
  let ?im = "im\<lparr>txLocations := fmupd (HashDomain ''a.com'') \<lparr>tlBlockIndex = int 0, tlTxIndex = int 1\<rparr> (txLocations im)\<rparr>"
  have "GetDomain sample_bloom ?im ''a.com'' = GetDomain sample_bloom im ''a.com''" by (simp add: GetDomain_def)
  with im show thesis
    by (intro that [of ?im]) (simp_all add: sample_platform_def GetTxLocation_def slot_at_def slots_per_day_def sample_light_def
        sample_config_def godiv_def signed_divide_int_def i64_def GetDomainPhase_def zero_Transaction_def tower_record_def)
qed

lemma tower_genesis:
  "Transactions (rev tower ! 0) = [zero_Transaction\<lparr>TID := 3\<rparr>, zero_Transaction\<lparr>TID := 4\<rparr>]"
  "SetupMerkleTree (pfCodec tower_platform) (rev tower ! 0) = Inr (MerkleRootHash (rev tower ! 0))"
proof -
  show t: "Transactions (rev tower ! 0) = [zero_Transaction\<lparr>TID := 3\<rparr>, zero_Transaction\<lparr>TID := 4\<rparr>]"
    by (simp add: tower_facts(3) tower_block_def)
  show "SetupMerkleTree (pfCodec tower_platform) (rev tower ! 0) = Inr (MerkleRootHash (rev tower ! 0))"
    by (simp add: SetupMerkleTree_root t) (simp add: tower_facts(3) tower_block_def tower_codec_def)
qed

text \<open>C29: A light node whose first header is a later one than the genesis block's rejects every response with a
  genuine header. It started with an empty header chain, so it asked for no replay, and the headers
  it holds, now and at every later poll, are those of the blocks from the \<open>k\<close>-th on; responses are
  checked against the header at the position of their index. What it does accept must therefore name
  a block by a wrong index: the hash is the one of the block \<open>k\<close> positions above the claimed index.
\<close>

theorem late_joiner_rejects:
  assumes "chain (pfBolt PF) (pfCodec PF) bc bs" "is_i64 (int (length bs))" "HeaderChain start = []" "0 < k"
    and "light = receive_headers (take m (drop k (map Header (rev bs)))) start"
    and "\<forall>hs \<in> set later. \<exists>m. hs = take m (drop k (map Header (rev bs)))"
  shows "replayed PF (int (length (HeaderChain start))) (Some full) = Some (Inr []) \<and>
     (i < length bs \<and> pbBlockHeader resp = Some (Header (rev bs ! i)) \<longrightarrow> HandleDNSProofGRPC PF' later (Some resp) light = Inr False) \<and>
     (HandleDNSProofGRPC PF' later (Some resp) light = Inr True \<longrightarrow>
       (\<exists>claimed j. pbBlockHeader resp = Some claimed \<and> bhIndex claimed = int j \<and> k + j < length bs \<and>
          bhHash claimed = BHash (rev bs ! (k + j))))"
proof (intro conjI impI)
  show "replayed PF (int (length (HeaderChain start))) (Some full) = Some (Inr [])" using assms(3) by (simp add: replayed_def)
next
  have polls: "\<forall>hs \<in> set (HeaderChain light # later). \<exists>m. hs = take m (drop k (map Header (rev bs)))"
    using late_chain [OF assms(1,2,3), of m k] assms(5,6) by auto
  note shifted = polls_shifted [OF _ this]
  {
    assume "i < length bs \<and> pbBlockHeader resp = Some (Header (rev bs ! i))"
    then have i: "i < length bs" "pbBlockHeader resp = Some (Header (rev bs ! i))" by simp_all
    have idx: "bhIndex (Header (rev bs ! i)) = int i"
      using linked_index [OF _ assms(2) i(1)] assms(1) by (simp add: chain_def Header_def)
    obtain h where h: "waitForHeader (HeaderChain light # later) (int i) = Inr h"
      using waitForHeader_total [of "int i" "HeaderChain light # later"] by (auto simp del: waitForHeader.simps)
    have "bhHash h' \<noteq> BHash (rev bs ! i)" if "h = Some h'" for h'
    proof -
      from shifted [OF h [unfolded that]] have "k + i < length bs" "h' = Header (rev bs ! (k + i))" by auto
      then show ?thesis using chain_hashes [OF assms(1,2) _ i(1), of "k + i"] assms(4) by (auto simp: Header_def)
    qed
    then show "HandleDNSProofGRPC PF' later (Some resp) light = Inr False"
      using i(2) h idx by (cases h) (auto simp: HandleDNSProofGRPC_def Header_def simp del: waitForHeader.simps split: option.split)
  }
  assume "HandleDNSProofGRPC PF' later (Some resp) light = Inr True"
  then obtain claimed h where c: "pbBlockHeader resp = Some claimed" "bhHash h = bhHash claimed"
    and h: "waitForHeader (HeaderChain light # later) (bhIndex claimed) = Inr (Some h)"
    by (rule HandleDNSProofGRPC_wait)
  from shifted [OF h] c show "\<exists>claimed j. pbBlockHeader resp = Some claimed \<and> bhIndex claimed = int j \<and> k + j < length bs \<and>
          bhHash claimed = BHash (rev bs ! (k + j))" by (auto simp: Header_def)
qed

theorem late_joiner_rejects_witness:
  "\<exists>im resp. QueryDomain tower_platform 50 ''a.com'' (tower_full\<lparr>ndIndexManager := im\<rparr>) = Some (Inr (Inr resp)) \<and>
     HandleDNSProofGRPC tower_platform [] (Some resp) (tower_full\<lparr>HeaderChain := map Header (rev tower)\<rparr>) = Inr True \<and>
     HandleDNSProofGRPC tower_platform [drop 3 (map Header (rev tower))] (Some resp)
       (receive_headers (take 2 (drop 3 (map Header (rev tower)))) (tower_full\<lparr>HeaderChain := []\<rparr>)) = Inr False"
proof -
  obtain im where im: "GetDomain (pfBloom tower_platform) (ndIndexManager (tower_full\<lparr>ndIndexManager := im\<rparr>)) ''a.com'' = Some tower_record"
    "slot_at 50 (tower_full\<lparr>ndIndexManager := im\<rparr>) = Inr 5" "slots_per_day (tower_full\<lparr>ndIndexManager := im\<rparr>) = Inr 8640"
    "GetDomainPhase 5 (ExpirySlot tower_record) 8640 = ''active''"
    "GetTxLocation (ndIndexManager (tower_full\<lparr>ndIndexManager := im\<rparr>)) ''a.com'' = Some \<lparr>tlBlockIndex = int 0, tlTxIndex = int 1\<rparr>"
    by (rule tower_domain)
  obtain resp p where q: "QueryDomain tower_platform 50 ''a.com'' (tower_full\<lparr>ndIndexManager := im\<rparr>) = Some (Inr (Inr resp))"
    and resp: "pbBlockHeader resp = Some (Header (rev tower ! 0))" "pbProof resp = Some p"
    "verify_loop (pbTxHash p) (pbProofPath p) (pbDirections p) = Inr (MerkleRootHash (rev tower ! 0))"
    by (rule query_answer [OF tower_ok tower_facts(1) _ im _ _ tower_genesis(2), of 1]) (simp_all add: tower_facts(2) tower_genesis(1))
  let ?synced = "tower_full\<lparr>HeaderChain := map Header (rev tower)\<rparr>"
  have "HandleDNSProofGRPC tower_platform [] (Some resp) ?synced = Inr True"
    using proof_verdict [OF resp(1,2), of 0 ?synced tower_platform "[]"] resp(3) chain_node [OF tower_ok, of ?synced]
    by (simp add: Header_def tower_facts i64_def)
  moreover have "HandleDNSProofGRPC tower_platform [drop 3 (map Header (rev tower))] (Some resp)
       (receive_headers (take 2 (drop 3 (map Header (rev tower)))) (tower_full\<lparr>HeaderChain := []\<rparr>)) = Inr False"
  proof -
    have "drop 3 (map Header (rev tower)) = take 7 (drop 3 (map Header (rev tower)))" by (simp add: tower_facts(2))
    then have "\<forall>hs \<in> set [drop 3 (map Header (rev tower))]. \<exists>m. hs = take m (drop 3 (map Header (rev tower)))" by auto
    from late_joiner_rejects [OF tower_ok tower_facts(1) _ _ refl this, where start = "tower_full\<lparr>HeaderChain := []\<rparr>"
        and i = 0 and resp = resp and m = 2 and PF' = tower_platform]
    show ?thesis using resp(1) by (simp add: tower_facts(2))
  qed
  ultimately show ?thesis using q by blast
qed

text \<open>C25: What a full node answers to a query passes the proof checks of a light node: for an active domain whose
  location names a block and a transaction of the stored chain, the response carries the first
  address of the record and a proof for the transaction, and a light node with the same headers gets
  as far as the confirmations. These it counts from the latest block of its own block database, not from
  its headers: it accepts exactly when that block is six or more above the block of the answer, and
  panics when its database is empty. The header's tree must agree with the tree of the proof, so the
  block must have \<open>2\<^sup>k\<close> or \<open>2\<^sup>k - 1\<close> transactions, more than one.
\<close>

theorem gateway_proof_accepted:
  assumes full: "chain (pfBolt PF) (pfCodec PF) bc bs" "is_i64 (int (length bs))" "ndBlockchain full = Some bc"
    and domain: "GetDomain (pfBloom PF) (ndIndexManager full) d = Some tx" "slot_at now full = Inr slot" "slots_per_day full = Inr spd"
      "GetDomainPhase slot (ExpirySlot tx) spd = ''active''"
    and loc: "GetTxLocation (ndIndexManager full) d = Some \<lparr>tlBlockIndex = int i, tlTxIndex = int j\<rparr>" "i < length bs"
      "j < length (Transactions (rev bs ! i))"
    and root: "SetupMerkleTree (pfCodec PF) (rev bs ! i) = Inr (MerkleRootHash (rev bs ! i))" "1 < length (Transactions (rev bs ! i))"
      "length (Transactions (rev bs ! i)) = 2 ^ k \<or> length (Transactions (rev bs ! i)) + 1 = 2 ^ k"
    and light: "HeaderChain light = map Header (rev bs)"
  shows "\<exists>resp p. QueryDomain PF now d full = Some (Inr (Inr resp)) \<and> pbIpAddress resp = first_A (Records tx) \<and>
     pbProof resp = Some p \<and> pbTxHash p = sha256 (gobTx (pfCodec PF) (Transactions (rev bs ! i) ! j)) \<and>
     HandleDNSProofGRPC PF' later (Some resp) light =
       (case latest PF' light of Inl e \<Rightarrow> Inl e | Inr None \<Rightarrow> Inl NilDereference
        | Inr (Some own) \<Rightarrow> Inr (6 \<le> i64 (BIndex own - int i)))"
proof -
  obtain resp p where q: "QueryDomain PF now d full = Some (Inr (Inr resp))" "pbIpAddress resp = first_A (Records tx)"
    and resp: "pbBlockHeader resp = Some (Header (rev bs ! i))" "pbProof resp = Some p"
    and h: "pbTxHash p = sha256 (gobTx (pfCodec PF) (Transactions (rev bs ! i) ! j))"
    and v: "verify_loop (pbTxHash p) (pbProofPath p) (pbDirections p) = Inr (MerkleRootHash (rev bs ! i))"
    by (rule query_answer [OF full domain loc root])
  have "linked bs" using full(1) by (simp add: chain_def)
  from linked_index [OF this full(2) loc(2)] have "bhIndex (Header (rev bs ! i)) = int i" by (simp add: Header_def)
  from proof_verdict [OF resp this, of light PF' later] have "HandleDNSProofGRPC PF' later (Some resp) light =
       (case latest PF' light of Inl e \<Rightarrow> Inl e | Inr None \<Rightarrow> Inl NilDereference
        | Inr (Some own) \<Rightarrow> Inr (6 \<le> i64 (BIndex own - int i)))"
    using v light loc(2) by (simp add: Header_def)
  with q resp(2) h show ?thesis by blast
qed

theorem gateway_proof_accepted_witness:
  "\<exists>im resp. QueryDomain tower_platform 50 ''a.com'' (tower_full\<lparr>ndIndexManager := im\<rparr>) = Some (Inr (Inr resp)) \<and>
     pbIpAddress resp = ''1.2.3.4'' \<and>
     HandleDNSProofGRPC tower_platform [] (Some resp) (tower_full\<lparr>HeaderChain := map Header (rev tower)\<rparr>) = Inr True"
proof -
  obtain im where im: "GetDomain (pfBloom tower_platform) (ndIndexManager (tower_full\<lparr>ndIndexManager := im\<rparr>)) ''a.com'' = Some tower_record"
    "slot_at 50 (tower_full\<lparr>ndIndexManager := im\<rparr>) = Inr 5" "slots_per_day (tower_full\<lparr>ndIndexManager := im\<rparr>) = Inr 8640"
    "GetDomainPhase 5 (ExpirySlot tower_record) 8640 = ''active''"
    "GetTxLocation (ndIndexManager (tower_full\<lparr>ndIndexManager := im\<rparr>)) ''a.com'' = Some \<lparr>tlBlockIndex = int 0, tlTxIndex = int 1\<rparr>"
    by (rule tower_domain)
  let ?synced = "tower_full\<lparr>HeaderChain := map Header (rev tower)\<rparr>"
  from gateway_proof_accepted [OF tower_ok tower_facts(1) _ im _ _ tower_genesis(2), of 1 ?synced tower_platform "[]"]
    chain_node [OF tower_ok, of ?synced]
  obtain resp where "QueryDomain tower_platform 50 ''a.com'' (tower_full\<lparr>ndIndexManager := im\<rparr>) = Some (Inr (Inr resp))"
    "pbIpAddress resp = first_A (Records tower_record)"
    "HandleDNSProofGRPC tower_platform [] (Some resp) ?synced = Inr True"
    by (auto simp: tower_facts(2,4) tower_genesis(1) i64_def)
  then show ?thesis by (intro exI [of _ im] exI [of _ resp] conjI) (simp_all add: tower_record_def first_A_def filterByType_def)
qed

text \<open>A location beyond the end of the chain, such as the slot number that \<^verbatim>\<open>apply.go\<close> files as the block
  index, is answered with an internal error.\<close>

lemma location_beyond_chain:
  assumes full: "chain (pfBolt PF) (pfCodec PF) bc bs" "is_i64 (int (length bs))" "ndBlockchain full = Some bc"
    and domain: "GetDomain (pfBloom PF) (ndIndexManager full) d = Some tx" "slot_at now full = Inr slot" "slots_per_day full = Inr spd"
      "GetDomainPhase slot (ExpirySlot tx) spd = ''active''"
    and loc: "GetTxLocation (ndIndexManager full) d = Some loc" "int (length bs) \<le> tlBlockIndex loc"
  shows "QueryDomain PF now d full = Some (Inr (Inl (Status Internal)))"
proof -
  have "BIndex b \<noteq> tlBlockIndex loc" if "b \<in> set bs" for b
  proof -
    from that obtain j where "j < length (rev bs)" "b = rev bs ! j" by (metis in_set_conv_nth set_rev)
    with linked_index [OF _ full(2), of j] full(1) loc(2) show ?thesis by (simp add: chain_def)
  qed
  then have "find (\<lambda>b. BIndex b = tlBlockIndex loc) bs = None" by (simp add: find_None_iff)
  with chain_by_index [OF full(1)] full(3) domain loc(1) show ?thesis by (simp add: QueryDomain_def block_at_def Let_def)
qed

end
