(* ===== verification/Replica.thy ===== *)
theory Replica
  imports Run
begin

text \<open>
  A leader and a validator: the block that \<^verbatim>\<open>CreateBlockIfLeader\<close> broadcasts, handled by \<^verbatim>\<open>Node.AddBlock\<close>
  of a node in the same state. The validator commits the index overlay twice, once in
  \<^verbatim>\<open>ValidateBlock\<close> and once in \<^verbatim>\<open>AddBlock\<close>.
\<close>

subsection \<open>Names in the journal\<close>

abbreviation journaled :: "'f IndexOverlay \<Rightarrow> string set" where
  "journaled ov \<equiv> fset (fmdom (journal ov))"

lemma journaled_simps [simp]:
  "journaled (SetOwnerO B ov d k) = insert d (journaled ov)" "journaled (SetListPriceO B ov d p) = insert d (journaled ov)"
  "journaled (MarkAsSpentO ov i) = journaled ov"
  by (simp_all add: SetOwnerO_def SetListPriceO_def MarkAsSpentO_def Let_def)

lemma journaled_Add: "AddO ov d tx b i spd = Inr ov' \<Longrightarrow> journaled ov' = insert d (journaled ov)"
  by (auto simp: AddO_def Let_def)

lemma journaled_update_or_renew:
  assumes "applyUpdateOrRenew (IndexOverlayOps B ord) tx ds slot i spd isRenew = Inr (ds', r)"
  shows "journaled (dsIndex ds') \<subseteq> insert (DomainName tx) (journaled (dsIndex ds))"
  using assms
  by (auto simp: applyUpdateOrRenew_def IndexOverlayOps_def result_defs bindR_eq_Inr Let_def dest!: journaled_Add
      split: if_split_asm option.split_asm)

lemma IndexOverlayOps_simps:
  "diAdd (IndexOverlayOps B ord) = AddO" "diSetOwner (IndexOverlayOps B ord) = SetOwnerO B"
  "diMarkAsSpent (IndexOverlayOps B ord) = MarkAsSpentO" "diGetOwner (IndexOverlayOps B ord) = GetOwnerO"
  "diCommit (IndexOverlayOps B ord) = CommitOv B ord"
  by (simp_all add: IndexOverlayOps_def)

lemma journaled_reveal:
  assumes "applyReveal (IndexOverlayOps B ord) C tx ds slot i spd = Inr (ds', r)"
  shows "journaled (dsIndex ds') \<subseteq> insert (DomainName tx) (journaled (dsIndex ds))"
proof -
  let ?d = "DomainName tx"
  have "ds' = ds \<or> (\<exists>ov. AddO (dsIndex ds) ?d tx slot i spd = Inr ov \<and>
      dsIndex ds' = MarkAsSpentO (SetOwnerO B ov ?d (Recipient tx)) (RedeemsTxID tx))"
    using assms unfolding applyReveal_def Let_def failed_def done_with_def IndexOverlayOps_simps
    by (cases "dsCommits ds"; cases "csGetCommit C (the (dsCommits ds)) (reveal_key tx)")
      (simp_all add: bindR_eq_Inr split: if_split_asm, elim conjE exE, hypsubst, auto)
  then show ?thesis by (elim disjE exE conjE) (auto dest: journaled_Add)
qed

lemma journaled_register:
  assumes "applyRegister (IndexOverlayOps B ord) tx ds slot i spd = Inr (ds', r)"
  shows "journaled (dsIndex ds') \<subseteq> insert (DomainName tx) (journaled (dsIndex ds))"
proof -
  have "ds' = ds \<or> (\<exists>ov. AddO (dsIndex ds) (DomainName tx) tx slot i spd = Inr ov \<and>
      dsIndex ds' = SetOwnerO B ov (DomainName tx) (OwnerKey tx))"
    using assms unfolding applyRegister_def Let_def failed_def done_with_def IndexOverlayOps_simps
    by (simp add: bindR_eq_Inr split: if_split_asm) (elim exE conjE, hypsubst, simp)
  then show ?thesis by (elim disjE exE conjE) (auto dest: journaled_Add)
qed

lemma journaled_revoke:
  assumes "applyRevoke (IndexOverlayOps B ord) tx ds slot i spd = Inr (ds', r)"
  shows "journaled (dsIndex ds') \<subseteq> insert (DomainName tx) (journaled (dsIndex ds))"
proof -
  let ?I = "IndexOverlayOps B ord" and ?im = "dsIndex ds"
  let ?marked = "if RedeemsTxID tx \<noteq> 0 then MarkAsSpentO ?im (RedeemsTxID tx) else ?im"
  let ?restored = "\<lambda>im. case GetOwnerO ?im (DomainName tx) of None \<Rightarrow> im | Some k \<Rightarrow> SetOwnerO B im (DomainName tx) (Some k)"
  have "ds' = ds \<or> (\<exists>ov. AddO ?marked (DomainName tx) tx slot i spd = Inr ov \<and> dsIndex ds' = ?restored ov)"
    using assms unfolding applyRevoke_def Let_def failed_def done_with_def IndexOverlayOps_simps
    apply (simp only: sliced_eq_Inr bindR_eq_Inr sum.inject prod.inject split: if_split_asm)
    by (elim exE conjE, hypsubst, simp)+
  then show ?thesis by (elim disjE exE conjE) (auto dest!: journaled_Add split: option.split if_split_asm)
qed

lemma journaled_market:
  "applyBuyDomain (IndexOverlayOps B ord) tx ds k slot spd = Inr (ds', r) \<Longrightarrow>
     journaled (dsIndex ds') \<subseteq> insert (DomainName tx) (journaled (dsIndex ds))"
  "applyTransferDomain (IndexOverlayOps B ord) tx ds k slot spd = Inr (ds', r) \<Longrightarrow>
     journaled (dsIndex ds') \<subseteq> insert (DomainName tx) (journaled (dsIndex ds))"
  "applyList (IndexOverlayOps B ord) tx ds slot spd = Inr (ds', r) \<Longrightarrow>
     journaled (dsIndex ds') \<subseteq> insert (DomainName tx) (journaled (dsIndex ds))"
  "applyDelist (IndexOverlayOps B ord) tx ds slot spd = Inr (ds', r) \<Longrightarrow>
     journaled (dsIndex ds') \<subseteq> insert (DomainName tx) (journaled (dsIndex ds))"
  by (auto simp: applyBuyDomain_def applyTransferDomain_def applyList_def applyDelist_def IndexOverlayOps_def failed_def done_with_def
      Let_def split: if_split_asm option.split_asm)

lemma journaled_apply:
  assumes "ApplyDomainMutations (IndexOverlayOps B ord) C tx ds slot bi i spd = Inr (ds', r)"
  shows "journaled (dsIndex ds') \<subseteq> insert (DomainName tx) (journaled (dsIndex ds))"
proof -
  have "journaled (dsIndex ds') \<subseteq> insert (DomainName tx) (journaled (dsIndex ds))"
    if "applyUpdate (IndexOverlayOps B ord) tx ds slot i spd = Inr (ds', r) \<or> applyRenew (IndexOverlayOps B ord) tx ds slot i spd = Inr (ds', r)"
    using that journaled_update_or_renew [of B ord tx ds slot i spd _ ds' r]
    by (auto simp: applyUpdate_def applyRenew_def failed_def Let_def split: if_split_asm)
  moreover have "dsIndex ds' = dsIndex ds" if "applyCommit C tx ds slot bi = Inr (ds', r)"
    using that by (auto simp: applyCommit_def done_with_def Let_def split: option.split_asm)
  ultimately show ?thesis
    using assms journaled_reveal [of B ord C tx ds slot i spd ds' r] journaled_register [of B ord tx ds slot i spd ds' r]
      journaled_revoke [of B ord tx ds slot i spd ds' r] journaled_market(1,2) [of B ord tx ds _ slot spd ds' r]
      journaled_market(3,4) [of B ord tx ds slot spd ds' r]
    by (cases "TxType tx") (auto simp: ApplyDomainMutations_def done_with_def)
qed

lemma journaled_apply_all:
  assumes "ApplyDomainAll (IndexOverlayOps B ord) C txs slot bi i spd ds = Inr ds'"
  shows "journaled (dsIndex ds') \<subseteq> DomainName ` set txs \<union> journaled (dsIndex ds)"
  using assms
proof (induction txs arbitrary: ds i)
  case (Cons tx txs)
  then obtain m r where m: "ApplyDomainMutations (IndexOverlayOps B ord) C tx ds slot bi i spd = Inr (m, r)"
    "ApplyDomainAll (IndexOverlayOps B ord) C txs slot bi (i + 1) spd m = Inr ds'"
    by (auto simp: bindR_eq_Inr)
  from Cons.IH [OF m(2)] journaled_apply [OF m(1)] show ?case by auto
qed simp

text \<open>Sealing a block journals only names of its transactions.\<close>

lemma journaled_seal:
  assumes "SealBlock cr cd (IndexOverlayOps B ord) now slot leader pub priv spd parent txs ledger st co (NewIndexOverlay im) = Inr s"
  shows "journaled (sbIndex s) \<subseteq> DomainName ` set txs"
proof -
  obtain ds l where "ApplyDomainAll (IndexOverlayOps B ord) CommitOverlayOps txs slot (i64 (BIndex parent + 1)) 0 spd
       \<lparr>dsLedger = l, dsIndex = NewIndexOverlay im, dsCommits = Some co\<rparr> = Inr ds" "sbIndex s = dsIndex ds"
    using assms by (rule SealBlock_Inr) blast
  from journaled_apply_all [OF this(1)] this(2) show ?thesis by (simp add: NewIndexOverlay_def)
qed

subsection \<open>Committing twice\<close>

lemma CommitOv_frame: "CommitOv B ord ov = Inr ov' \<Longrightarrow> journal ov' = journal ov \<and> pendingSpent ov' = pendingSpent ov"
  by (auto simp: CommitOv_def bindR_eq_Inr)

lemma CommitOv_inv:
  assumes "ov_inv B ov" "enumerates ord" "inj_on HashDomain (journaled ov)" "CommitOv B ord ov = Inr ov'"
  shows "ov_inv B ov'"
proof -
  have jr: "journal ov' = journal ov" using CommitOv_frame [OF assms(4)] by simp
  have "entry_ok B (real ov') d e" if e: "fmlookup (journal ov) d = Some e" for d e
  proof -
    have "insert d (journaled ov) = journaled ov" using e by (auto simp: fmlookup_dom_iff)
    with CommitOv_spec [OF assms(1,2), of d] assms(3,4) have "GetDomain B (real ov') d = GetDomainO B ov d" by auto
    then show ?thesis using assms(1) e by (auto simp: ov_inv_def entry_ok_def GetDomainO_def)
  qed
  moreover have "im_inv B (real ov')" using overlay_commits [OF assms(1-3)] assms(4) by simp
  ultimately show ?thesis by (simp add: ov_inv_def jr)
qed

text \<open>What two indexes answer about a domain and a transaction.\<close>

definition same_answers :: "'f bloom \<Rightarrow> 'f IndexManager \<Rightarrow> 'f IndexManager \<Rightarrow> string \<Rightarrow> int \<Rightarrow> bool" where
  "same_answers B im im' d i \<longleftrightarrow> GetDomain B im' d = GetDomain B im d \<and> IsSpent im' i = IsSpent im i \<and>
     (GetDomain B im d \<noteq> None \<longrightarrow> GetOwner im' d = GetOwner im d \<and> GetListPrice im' d = GetListPrice im d)"

lemma commit_twice:
  assumes "ov_inv B ov" "enumerates ord" "inj_on HashDomain (insert d (journaled ov))" "CommitOv B ord ov = Inr ov1"
  shows "\<exists>ov2. CommitOv B ord ov1 = Inr ov2 \<and> im_inv B (real ov2) \<and> same_answers B (real ov1) (real ov2) d i"
proof -
  have fr: "journal ov1 = journal ov" "pendingSpent ov1 = pendingSpent ov" using CommitOv_frame [OF assms(4)] by simp_all
  have one: "GetDomain B (real ov1) d = GetDomainO B ov d" "IsSpent (real ov1) i = IsSpentO ov i"
    "GetDomainO B ov d \<noteq> None \<Longrightarrow> GetOwner (real ov1) d = GetOwnerO ov d \<and> GetListPrice (real ov1) d = GetListPriceO ov d"
    using CommitOv_spec [OF assms(1-3), of i] assms(4) by auto
  have "ov_inv B ov1" by (rule CommitOv_inv [OF assms(1,2) inj_on_subset [OF assms(3)] assms(4)]) auto
  then obtain ov2 where two: "CommitOv B ord ov1 = Inr ov2" "im_inv B (real ov2)" "GetDomain B (real ov2) d = GetDomainO B ov1 d"
    "GetDomainO B ov1 d \<noteq> None \<Longrightarrow> GetOwner (real ov2) d = GetOwnerO ov1 d \<and> GetListPrice (real ov2) d = GetListPriceO ov1 d"
    "IsSpent (real ov2) i = IsSpentO ov1 i"
    using CommitOv_spec [OF _ assms(2), of B ov1 d i] assms(3) fr by auto
  have dom: "GetDomainO B ov1 d = GetDomainO B ov d"
    using one(1) by (simp add: GetDomainO_def fr split: option.split)
  have "GetOwnerO ov1 d = GetOwnerO ov d \<and> GetListPriceO ov1 d = GetListPriceO ov d" if "GetDomainO B ov d \<noteq> None"
    using one(3) [OF that] by (simp add: GetOwnerO_def GetListPriceO_def fr split: option.split)
  moreover have "IsSpentO ov1 i = IsSpentO ov i" using one(2) by (simp add: IsSpentO_def fr)
  ultimately show ?thesis using one two dom by (auto simp: same_answers_def)
qed

subsection \<open>Storing the block\<close>

lemma mark_redeemed_chain: "chain D cd (mark_redeemed D txs bc) bs = chain D cd bc bs"
proof (induction txs arbitrary: bc)
  case (Cons tx txs)
  have "chain D cd bc' bs = chain D cd bc bs" if "MarkAsSpentDB D bc i = Some bc'" for i bc'
    using that by (auto simp: MarkAsSpentDB_def chain_def)
  with Cons.IH show ?case by (simp split: option.split)
qed simp

text \<open>Two nodes in the same state, as far as blocks determine it.\<close>

definition in_step :: "('f, 'd, 'r) Node \<Rightarrow> ('f, 'd, 'r) Node \<Rightarrow> bool" where
  "in_step n m \<longleftrightarrow> ndConfig n = ndConfig m \<and> ndBalanceLedger n = ndBalanceLedger m \<and>
     ndStake n = ndStake m \<and> ndCommitStore n = ndCommitStore m"

text \<open>The chain in the database of a node, and what a further block makes of it: a block whose hash is a key of
  the database already is not stored again.\<close>

definition holds_chain :: "('f, 'd, 'r) platform \<Rightarrow> ('f, 'd, 'r) Node \<Rightarrow> Block list \<Rightarrow> bool" where
  "holds_chain PF n bs \<longleftrightarrow> (case ndBlockchain n of None \<Rightarrow> False | Some bc \<Rightarrow> chain (pfBolt PF) (pfCodec PF) bc bs)"

definition grown :: "('f, 'd, 'r) platform \<Rightarrow> Block \<Rightarrow> ('f, 'd, 'r) Node \<Rightarrow> Block list \<Rightarrow> Block list" where
  "grown PF b n bs =
     (case ndBlockchain n of
        None \<Rightarrow> bs
      | Some bc \<Rightarrow> if boltGet (pfBolt PF) (blocks bc) (BHash b) = None then b # bs else bs)"

lemma next_index:
  assumes "holds_chain PF n bs" "is_i64 (int (length bs))" "BIndex b = i64 (BIndex (hd bs) + 1)"
  shows "BIndex b \<noteq> 0"
proof -
  obtain bc where "chain (pfBolt PF) (pfCodec PF) bc bs" using assms(1) by (auto simp: holds_chain_def split: option.split_asm)
  from chain_top [OF this assms(2)] have "BIndex b = int (length bs)" "0 < length bs" using assms(2,3) by simp_all
  then show ?thesis by simp
qed

lemma store_next:
  assumes "bolt_ok (pfBolt PF)" "holds_chain PF n bs" "is_i64 (int (length bs))"
    "gob_ok (pfCodec PF) b" "length (BHash b) = 32" "PrevHash b = BHash (hd bs)" "BIndex b = i64 (BIndex (hd bs) + 1)"
  shows "\<exists>bc'. store_block PF b n = Inr bc' \<and> chain (pfBolt PF) (pfCodec PF) bc' (grown PF b n bs)"
proof -
  obtain bc where bc: "ndBlockchain n = Some bc" "chain (pfBolt PF) (pfCodec PF) bc bs"
    using assms(2) by (auto simp: holds_chain_def split: option.split_asm)
  from AddBlock_chain [OF assms(1) bc(2) assms(4,5) next_index [OF assms(2,3,7)]] bc(1) assms(6,7) show ?thesis
    by (auto simp: store_block_def deref_def grown_def extends_def)
qed

lemma holds_latest: "holds_chain PF n bs \<Longrightarrow> latest PF n = Inr (Some (hd bs))"
  by (simp add: holds_chain_def latest_def deref_def chain_latest split: option.split_asm)

lemma SealBlock_header:
  assumes "SealBlock cr cd I now slot leader pub priv spd parent txs ledger st co im = Inr s"
  shows "BHash (sbBlock s) = ComputeHash (sbBlock s)" "BTimestamp (sbBlock s) = now" "PrevHash (sbBlock s) = BHash parent"
    "BIndex (sbBlock s) = i64 (BIndex parent + 1)"
  using assms by (auto simp: SealBlock_def bindR_eq_Inr Let_def NewBlock_def simp del: CommitOps_simps)

lemma length_ComputeHash [simp]: "length (ComputeHash b) = 32"
  by (simp add: ComputeHash_def)

lemma GetSlotLeader_frame:
  assumes "GetSlotLeader PF e n = Inr (m, l)"
  shows "ndConfig m = ndConfig n" "ndBalanceLedger m = ndBalanceLedger n" "ndStake m = ndStake n" "ndCommitStore m = ndCommitStore n"
    "ndIndexManager m = ndIndexManager n" "ndBlockchain m = ndBlockchain n"
  using assms by (auto simp: GetSlotLeader_def Let_def bindR_eq_Inr split: option.split_asm prod.split_asm)

subsection \<open>The two sides\<close>

text \<open>The leader's side: what \<^verbatim>\<open>CreateBlockIfLeader\<close> does once a block is sealed.\<close>

lemma create_block_seals:
  assumes "ChooseTxFromPool (pfPool PF) (TransactionPool n) blockTxLimit = (txs, pool)" "txs \<noteq> []"
    "latest PF n = Inr (Some parent)" "GenerateAutoRevocations (pfSortByName PF) (ndIndexManager n) slot txs = []"
    "SlotNumber parent < slot" "slots_per_day n = Inr spd"
    "SealBlock (pfCrypto PF) (pfCodec PF) (IndexOverlayOps (pfBloom PF) (pfJournal PF)) now slot (sl l) (kpPublicKey (ndKeyPair n))
       (kpPrivateKey (ndKeyPair n)) spd parent txs (ndBalanceLedger n) (ndStake n)
       (stagedCommits (ndCommitStore n) (i64 (BIndex parent + 1))) (NewIndexOverlay (ndIndexManager n)) = Inr s"
    "CommitOv (pfBloom PF) (pfJournal PF) (sbIndex s) = Inr ov" "store_block PF (sbBlock s) n = Inr bc"
  obtains n' where "create_block PF now slot l n = Inr (n', [Broadcast (MsgBlock (sbBlock s))])"
    "ndConfig n' = ndConfig n" "ndBalanceLedger n' = sbLedger s" "ndStake n' = sbStake s"
    "ndCommitStore n' = CommitO (sbCommits s) (ndCommitStore n)" "ndIndexManager n' = real ov"
    "ndBlockchain n' = Some (mark_redeemed (pfBolt PF) txs bc)"
proof -
  let ?n = "n\<lparr>TransactionPool := pool\<rparr>"
  let ?m = "RebuildValidatorSetCache (Some (ssMap (sbStake s)))
     (?n\<lparr>ndBalanceLedger := sbLedger s, ndIndexManager := real ov, ndCommitStore := CommitO (sbCommits s) (ndCommitStore n), ndStake := sbStake s\<rparr>)"
  have "latest PF ?n = Inr (Some parent)" "slots_per_day ?n = Inr spd"
    using assms(3,6) by (simp_all add: latest_def slots_per_day_def)
  moreover have "store_block PF (sbBlock s) ?m = Inr bc"
    using assms(9) by (simp add: store_block_def RebuildValidatorSetCache_def)
  moreover have "diCommit (IndexOverlayOps (pfBloom PF) (pfJournal PF)) (sbIndex s) = Inr ov"
    using assms(8) by (simp add: IndexOverlayOps_simps)
  ultimately have "create_block PF now slot l n =
      Inr (?m\<lparr>ndBlockchain := Some (mark_redeemed (pfBolt PF) txs bc)\<rparr>, [Broadcast (MsgBlock (sbBlock s))])"
    using assms(1,2,4,5,7) by (simp add: create_block_def deref_def)
  then show thesis by (rule that) (simp_all add: RebuildValidatorSetCache_def)
qed

lemma AddBlockHeader_frame [simp]:
  "ndConfig (AddBlockHeader h n) = ndConfig n" "ndBalanceLedger (AddBlockHeader h n) = ndBalanceLedger n"
  "ndStake (AddBlockHeader h n) = ndStake n" "ndCommitStore (AddBlockHeader h n) = ndCommitStore n"
  "ndIndexManager (AddBlockHeader h n) = ndIndexManager n" "ndBlockchain (AddBlockHeader h n) = ndBlockchain n"
  by (simp_all add: AddBlockHeader_def Let_def)

lemma file_block_stores:
  assumes "store_block PF b k = Inr bc"
  obtains n' outs where "file_block PF b k = Inr (n', outs)"
    "ndConfig n' = ndConfig k" "ndBalanceLedger n' = ndBalanceLedger k" "ndStake n' = ndStake k" "ndCommitStore n' = ndCommitStore k"
    "ndIndexManager n' = ndIndexManager k" "ndBlockchain n' = Some (mark_redeemed (pfBolt PF) (Transactions b) bc)"
proof -
  have st: "store_block PF b (k\<lparr>TransactionPool := p\<rparr>) = Inr bc" for p using assms by (simp add: store_block_def)
  show thesis
    by (cases "IsFullNode k") (rule that, simp add: file_block_def st Let_def, simp_all)+
qed

text \<open>The validator's side: \<^verbatim>\<open>AddBlock\<close> for a block that \<^verbatim>\<open>ValidateBlock\<close> accepts.\<close>

lemma nodeAddBlock_accepts:
  assumes "block_epoch b n = Inr e" "GetSlotLeader PF e n = Inr (m, l)" "slots_per_day n = Inr spd" "BIndex b \<noteq> 0"
    "latest PF n = Inr old"
    "ValidateBlock (pfCrypto PF) (pfCodec PF) (pfRegistries PF) (IndexOverlayOps (pfBloom PF) (pfJournal PF)) b old (sl l)
       (ndBalanceLedger n) (NewIndexOverlay (ndIndexManager n)) (Some (GetPurgeableDomains (ndIndexManager n))) spd (ndStake n)
       (ndCommitStore n) = Inr (Some r)"
    "CommitOv (pfBloom PF) (pfJournal PF) (vbIndex r) = Inr ov" "store_block PF b n = Inr bc"
  obtains n' outs where "nodeAddBlock PF b n = Inr (n', outs)"
    "ndConfig n' = ndConfig n" "ndBalanceLedger n' = vbLedger r" "ndStake n' = vbStake r"
    "ndCommitStore n' = CommitO (vbCommits r) (ndCommitStore n)" "ndIndexManager n' = real ov"
    "ndBlockchain n' = Some (mark_redeemed (pfBolt PF) (Transactions b) bc)"
proof -
  note fr = GetSlotLeader_frame [OF assms(2)]
  define k where "k = adopted r (real ov) m"
  have "store_block PF b k = Inr bc"
    using assms(8) fr by (simp add: store_block_def k_def adopted_def RebuildValidatorSetCache_def)
  then obtain n' outs where filed: "file_block PF b k = Inr (n', outs)"
    "ndConfig n' = ndConfig k" "ndBalanceLedger n' = ndBalanceLedger k" "ndStake n' = ndStake k" "ndCommitStore n' = ndCommitStore k"
    "ndIndexManager n' = ndIndexManager k" "ndBlockchain n' = Some (mark_redeemed (pfBolt PF) (Transactions b) bc)"
    by (rule file_block_stores)
  have "latest PF m = Inr old" "slots_per_day m = Inr spd" using assms(3,5) fr by (simp_all add: latest_def slots_per_day_def)
  then have "nodeAddBlock PF b n = file_block PF b k"
    using assms(1,2,4,6,7) fr
    by (simp add: nodeAddBlock_def block_epoch_def IndexOverlayOps_simps k_def adopted_def)
  with filed show thesis
    by (intro that [of n' outs]) (simp_all add: k_def adopted_def RebuildValidatorSetCache_def fr)
qed

subsection \<open>Property\<close>

text \<open>C9: Leader and validator stay in step: when a leader in the same state as a validator seals a block from its
  pool, with no purge due, and the transactions it takes from the pool are valid in the order it takes them, the
  block it broadcasts is accepted by \<^verbatim>\<open>AddBlock\<close> of the validator that elects it for the epoch of the block's
  timestamp. The leader itself does not check that \<open>ValidateTransactions\<close> accepts what it takes: this is a condition
  on the pool. Afterwards both hold the same ledger, stakes and commitments, each database holds
  the chain extended by the block, unless its hash was a key of the database already, and both indexes answer alike
  about every domain, although the validator commits the index overlay twice. Transactions of type BUY and
  equivocation proofs are left out, the names concerned have different hashes, sender keys have at least four bytes,
  the coins of the ledger and the length of the chain fit in 64 bits, and the sealed block can be read back from its
  encoding.\<close>

theorem replicas_agree:
  fixes leader :: "('f, 'd, 'r) Node"
  defines "pub \<equiv> kpPublicKey (ndKeyPair leader)" and "im \<equiv> ndIndexManager leader"
  assumes "bolt_ok (pfBolt PF)" "enumerates (pfJournal PF)" "sorts_names (pfSortByName PF)"
    and "key_pair_ok (pfCrypto PF) (kpPrivateKey (ndKeyPair leader)) pub"
    and "in_step leader validator" "ndIndexManager validator = im" "im_inv (pfBloom PF) im" "holds_chain PF leader bs" "holds_chain PF validator bs"
    and "ledger_supply (ndBalanceLedger leader) < 2 ^ 64" "is_i64 (int (length bs))" "SlotNumber (hd bs) < slot"
    and "ChooseTxFromPool (pfPool PF) (TransactionPool leader) blockTxLimit = (txs, pool)" "txs \<noteq> []"
    and "GenerateAutoRevocations (pfSortByName PF) im slot txs = []" "slots_per_day leader = Inr spd"
    and "ValidateTransactions (block_ctx (pfCrypto PF) (pfCodec PF) (pfRegistries PF) (IndexOverlayOps (pfBloom PF) (pfJournal PF))
           (next_block (hd bs) slot pub) (ndBalanceLedger leader) (NewIndexOverlay im)
           (stagedCommits (ndCommitStore leader) (BIndex (next_block (hd bs) slot pub))) spd (ndStake leader)) txs = Inr True"
    and "\<forall>tx \<in> set txs. keyed tx \<longrightarrow> 4 \<le> length (sl (OwnerKey tx))"
    and "\<forall>tx \<in> set txs. TxType tx \<noteq> EQUIVOCATION_PROOF \<and> TxType tx \<noteq> BUY"
    and "inj_on HashDomain (insert d (DomainName ` set txs))"
    and "block_epoch (zero_Block\<lparr>BTimestamp := now\<rparr>) validator = Inr epoch" "GetSlotLeader PF epoch validator = Inr (elected, Some pub)"
  shows "\<exists>s. SealBlock (pfCrypto PF) (pfCodec PF) (IndexOverlayOps (pfBloom PF) (pfJournal PF)) now slot pub pub
        (kpPrivateKey (ndKeyPair leader)) spd (hd bs) txs (ndBalanceLedger leader) (ndStake leader)
        (stagedCommits (ndCommitStore leader) (i64 (BIndex (hd bs) + 1))) (NewIndexOverlay im) = Inr s \<and>
      (gob_ok (pfCodec PF) (sbBlock s) \<longrightarrow>
        (\<exists>leader' validator' outs.
          create_block PF now slot (Some pub) leader = Inr (leader', [Broadcast (MsgBlock (sbBlock s))]) \<and>
          nodeAddBlock PF (sbBlock s) validator = Inr (validator', outs) \<and> in_step leader' validator' \<and>
          holds_chain PF leader' (grown PF (sbBlock s) leader bs) \<and> holds_chain PF validator' (grown PF (sbBlock s) validator bs) \<and>
          same_answers (pfBloom PF) (ndIndexManager leader') (ndIndexManager validator') d i))"
proof -
  let ?B = "pfBloom PF" and ?ord = "pfJournal PF" and ?D = "pfBolt PF" and ?cd = "pfCodec PF"
  let ?b0 = "next_block (hd bs) slot pub"
  have same: "ndConfig validator = ndConfig leader" "ndBalanceLedger validator = ndBalanceLedger leader" "ndStake validator = ndStake leader"
    "ndCommitStore validator = ndCommitStore leader"
    using assms(7) by (simp_all add: in_step_def)
  have purge: "purge_check (Some (GetPurgeableDomains im)) (?b0\<lparr>Transactions := txs\<rparr>)"
    using revocations_complete [OF assms(5), of "?b0\<lparr>Transactions := txs\<rparr>" im txs] assms(17) by (simp add: next_block_def)
  have b0: "BIndex ?b0 = i64 (BIndex (hd bs) + 1)" by (simp add: next_block_def)
  obtain s where s:
    "SealBlock (pfCrypto PF) ?cd (IndexOverlayOps ?B ?ord) now slot pub pub (kpPrivateKey (ndKeyPair leader)) spd (hd bs) txs
       (ndBalanceLedger leader) (ndStake leader) (stagedCommits (ndCommitStore leader) (i64 (BIndex (hd bs) + 1))) (NewIndexOverlay im) = Inr s"
    "ov_inv ?B (sbIndex s)" "Transactions (sbBlock s) = txs"
    "\<And>ov'. CommitOv ?B ?ord (sbIndex s) = Inr ov' \<Longrightarrow>
       ValidateBlock (pfCrypto PF) ?cd (pfRegistries PF) (IndexOverlayOps ?B ?ord) (sbBlock s) (Some (hd bs)) pub (ndBalanceLedger leader)
         (NewIndexOverlay im) (Some (GetPurgeableDomains im)) spd (ndStake leader) (ndCommitStore leader) =
         Inr (Some \<lparr>vbLedger = sbLedger s, vbStake = sbStake s, vbCommits = sbCommits s, vbIndex = ov'\<rparr>)"
    using sealed_block_accepted [OF assms(6,14,16,19) refl purge assms(12) ov_inv_New [OF assms(9)] assms(20,21), of now] unfolding b0 by blast
  note hdr = SealBlock_header [OF s(1)]
  have inj: "inj_on HashDomain (insert d (journaled (sbIndex s)))"
    by (rule inj_on_subset [OF assms(22)]) (use journaled_seal [OF s(1)] in auto)
  then obtain ov1 where ov1: "CommitOv ?B ?ord (sbIndex s) = Inr ov1"
    using overlay_commits [OF s(2) assms(4)] by (auto intro: inj_on_subset)
  obtain ov2 where ov2: "CommitOv ?B ?ord ov1 = Inr ov2" "same_answers ?B (real ov1) (real ov2) d i"
    using commit_twice [OF s(2) assms(4) inj ov1] by blast
  have "\<exists>leader' validator' outs.
      create_block PF now slot (Some pub) leader = Inr (leader', [Broadcast (MsgBlock (sbBlock s))]) \<and>
      nodeAddBlock PF (sbBlock s) validator = Inr (validator', outs) \<and> in_step leader' validator' \<and>
      holds_chain PF leader' (grown PF (sbBlock s) leader bs) \<and> holds_chain PF validator' (grown PF (sbBlock s) validator bs) \<and>
      same_answers ?B (ndIndexManager leader') (ndIndexManager validator') d i"
    if new: "gob_ok ?cd (sbBlock s)"
  proof -
    have len: "length (BHash (sbBlock s)) = 32" by (simp add: hdr)
    obtain st where st: "store_block PF (sbBlock s) leader = Inr st" "chain ?D ?cd st (grown PF (sbBlock s) leader bs)"
      using store_next [OF assms(3,10,13) new len hdr(3,4)] by blast
    obtain st' where st': "store_block PF (sbBlock s) validator = Inr st'" "chain ?D ?cd st' (grown PF (sbBlock s) validator bs)"
      using store_next [OF assms(3,11,13) new len hdr(3,4)] by blast
    obtain leader' where l: "create_block PF now slot (Some pub) leader = Inr (leader', [Broadcast (MsgBlock (sbBlock s))])"
      "ndConfig leader' = ndConfig leader" "ndBalanceLedger leader' = sbLedger s" "ndStake leader' = sbStake s"
      "ndCommitStore leader' = CommitO (sbCommits s) (ndCommitStore leader)" "ndIndexManager leader' = real ov1"
      "ndBlockchain leader' = Some (mark_redeemed ?D txs st)"
      using create_block_seals [OF assms(15,16) holds_latest [OF assms(10)] assms(17) [unfolded im_def] assms(14,18) _ ov1 st(1), of now "Some pub"]
        s(1) by (auto simp: pub_def im_def)
    have ep: "block_epoch (sbBlock s) validator = Inr epoch" using assms(23) hdr(2) by (simp add: block_epoch_def)
    have spd: "slots_per_day validator = Inr spd" using assms(18) same(1) by (simp add: slots_per_day_def)
    obtain validator' outs where v: "nodeAddBlock PF (sbBlock s) validator = Inr (validator', outs)"
      "ndConfig validator' = ndConfig leader" "ndBalanceLedger validator' = sbLedger s" "ndStake validator' = sbStake s"
      "ndCommitStore validator' = CommitO (sbCommits s) (ndCommitStore leader)" "ndIndexManager validator' = real ov2"
      "ndBlockchain validator' = Some (mark_redeemed ?D txs st')"
      using nodeAddBlock_accepts [OF ep assms(24) spd next_index [OF assms(11,13) hdr(4)] holds_latest [OF assms(11)], of
          "\<lparr>vbLedger = sbLedger s, vbStake = sbStake s, vbCommits = sbCommits s, vbIndex = ov1\<rparr>" ov2 st'] s(4) [OF ov1] ov2(1) st'(1)
      by (auto simp: same assms(8) s(3))
    have "in_step leader' validator'" using l v by (simp add: in_step_def)
    moreover have "holds_chain PF leader' (grown PF (sbBlock s) leader bs)" "holds_chain PF validator' (grown PF (sbBlock s) validator bs)"
      using l(7) v(7) st(2) st'(2) by (simp_all add: holds_chain_def mark_redeemed_chain)
    ultimately show ?thesis using l(1,6) v(1,6) ov2(2) by auto
  qed
  with s(1) show ?thesis by blast
qed

text \<open>A leader and a validator whose database holds the genesis block; the encoding knows that block and the one
  about to be sealed.\<close>

definition replica_block :: Block where
  "replica_block = sbBlock (projr (SealBlock sample_crypto sample_codec (IndexOverlayOps sample_bloom sorted_keys) 105 10
     [1, 2, 3, 4] [1, 2, 3, 4] 7 8640 sample_genesis [sample_stake] sample_ledger sample_leader_stake
     (stagedCommits NewCommitStore 1) (NewIndexOverlay sample_im)))"

definition replica_codec :: codec where
  "replica_codec = sample_codec\<lparr>gobBlock := (\<lambda>b. if b = sample_genesis then [0] else [1]),
     gobBlockDec := (\<lambda>d. if d = [0] then Some sample_genesis else Some replica_block)\<rparr>"

abbreviation replica_platform :: "(string fset, (bytes, bytes) fmap, nat) platform" where
  "replica_platform \<equiv> sample_platform\<lparr>pfCodec := replica_codec\<rparr>"

definition replica_node :: "bool \<Rightarrow> (string fset, (bytes, bytes) fmap, nat) Node" where
  "replica_node leads = (NewNode sample_platform sample_key_pair True)
     \<lparr>ndConfig := sample_config, RegistryKeys := [[1, 2, 3, 4]], ndBalanceLedger := sample_ledger,
      ndBlockchain := Some sample_chain, SlotLeaders := fmupd 2 (Some [1, 2, 3, 4]) fmempty,
      TransactionPool := (if leads then fmupd 11 sample_stake fmempty else fmempty)\<rparr>"

lemma replica_fields [simp]:
  "ndConfig (replica_node r) = sample_config" "ndBalanceLedger (replica_node r) = sample_ledger" "ndStake (replica_node r) = sample_leader_stake"
  "ndCommitStore (replica_node r) = NewCommitStore" "ndIndexManager (replica_node r) = sample_im" "ndBlockchain (replica_node r) = Some sample_chain"
  "ndKeyPair (replica_node r) = sample_key_pair" "TransactionPool (replica_node True) = fmupd 11 sample_stake fmempty"
  by (simp_all add: replica_node_def NewNode_def sample_leader_stake_def sample_im_def sample_platform_def del: hex.simps)

text \<open>Sealing a STAKE does not decode blocks.\<close>

lemma seal_codec:
  "gobTx cd = gobTx cd' \<Longrightarrow>
   SealBlock cr cd I now slot leader pub priv spd parent [sample_stake] ledger st co im =
   SealBlock cr cd' I now slot leader pub priv spd parent [sample_stake] ledger st co im"
  by (simp add: SealBlock_def ApplyStakeMutations_def NewBlock_def SetupMerkleTree_def del: hex.simps)

lemma replica_holds: "holds_chain replica_platform (replica_node r) [sample_genesis]"
proof -
  note last_key_short [of 5]
  then show ?thesis
    by (simp add: holds_chain_def chain_def stored_def gob_ok_def sample_platform_def sample_bolt_def sample_chain_def replica_codec_def)
      (simp add: sample_genesis_def zero_Block_def)
qed

theorem replicas_agree_witness:
  "\<exists>leader' validator' outs.
     create_block replica_platform 105 10 (Some [1, 2, 3, 4]) (replica_node True) = Inr (leader', [Broadcast (MsgBlock replica_block)]) \<and>
     nodeAddBlock replica_platform replica_block (replica_node False) = Inr (validator', outs) \<and> in_step leader' validator' \<and>
     holds_chain replica_platform leader' (grown replica_platform replica_block (replica_node True) [sample_genesis]) \<and>
     holds_chain replica_platform validator' (grown replica_platform replica_block (replica_node False) [sample_genesis]) \<and>
     same_answers sample_bloom (ndIndexManager leader') (ndIndexManager validator') (DomainName sample_stake) 4"
  (is "?agree replica_block")
proof -
  let ?PF = replica_platform and ?n = "replica_node True" and ?m = "replica_node False"
  have pf: "pfCrypto ?PF = sample_crypto" "pfBolt ?PF = sample_bolt" "pfBloom ?PF = sample_bloom" "pfJournal ?PF = sorted_keys"
    "pfPool ?PF = sorted_keys" "pfSortByName ?PF = sort_key DomainName" "pfRegistries ?PF = [[1, 2, 3, 4]]" "pfCodec ?PF = replica_codec"
    by (simp_all add: sample_platform_def)
  have kp: "kpPublicKey sample_key_pair = [1, 2, 3, 4]" "kpPrivateKey sample_key_pair = 7" by (simp_all add: sample_key_pair_def)
  have sup: "ledger_supply (ndBalanceLedger ?n) < 2 ^ 64" unfolding replica_fields sample_ledger_supply by simp
  have choose: "ChooseTxFromPool sorted_keys (TransactionPool ?n) blockTxLimit = ([sample_stake], fmdrop (TID sample_stake) (TransactionPool ?n))"
    by (simp add: ChooseTxFromPool_def blockTxLimit_def sorted_keys_def sorted_list_of_fset.rep_eq)
  have purge: "GenerateAutoRevocations (sort_key DomainName) (ndIndexManager ?n) 10 [sample_stake] = []"
    by (simp add: GenerateAutoRevocations_def GetPurgeableDomains_def scheduled_def sample_im_def NewIndexManager_def)
  have spd: "slots_per_day ?n = Inr 8640"
    by (simp add: slots_per_day_def sample_config_def godiv_def signed_divide_int_def i64_def)
  have ep: "block_epoch (zero_Block\<lparr>BTimestamp := 105\<rparr>) ?m = Inr 2"
    by (simp add: block_epoch_def sample_config_def godiv_def signed_divide_int_def i64_def)
  have ld: "GetSlotLeader ?PF 2 ?m = Inr (?m, Some [1, 2, 3, 4])" by (simp add: GetSlotLeader_def replica_node_def)
  have top: "SlotNumber (hd [sample_genesis]) < 10" by (simp add: sample_genesis_def zero_Block_def)
  have len: "is_i64 (int (length [sample_genesis]))" by (simp add: is_i64_def)
  have step: "in_step ?n ?m" by (simp add: in_step_def)
  have ty: "\<forall>tx \<in> set [sample_stake]. keyed tx \<longrightarrow> 4 \<le> length (sl (OwnerKey tx))"
    "\<forall>tx \<in> set [sample_stake]. TxType tx \<noteq> EQUIVOCATION_PROOF \<and> TxType tx \<noteq> BUY" by simp_all
  have inj: "inj_on HashDomain (insert (DomainName sample_stake) (DomainName ` set [sample_stake]))" by simp
  obtain s where s: "SealBlock sample_crypto replica_codec (IndexOverlayOps sample_bloom sorted_keys) 105 10
     [1, 2, 3, 4] [1, 2, 3, 4] 7 8640 sample_genesis [sample_stake] sample_ledger sample_leader_stake
     (stagedCommits NewCommitStore (i64 (BIndex sample_genesis + 1))) (NewIndexOverlay sample_im) = Inr s"
    "gob_ok replica_codec (sbBlock s) \<Longrightarrow> ?agree (sbBlock s)"
    using replicas_agree [where PF = ?PF and leader = ?n and validator = ?m and bs = "[sample_genesis]" and i = 4,
      unfolded pf replica_fields kp list.sel, OF sample_bolt_ok enumerates_sorted_keys sort_key_sorts sample_key_ok step refl sample_im_inv
      replica_holds replica_holds sup [unfolded replica_fields] len top [unfolded list.sel] choose [unfolded replica_fields] list.distinct(2)
      purge [unfolded replica_fields] spd sample_block_validates ty inj ep ld]
    by blast
  have one: "i64 (BIndex sample_genesis + 1) = 1" by (simp add: sample_genesis_def zero_Block_def i64_def)
  have tx: "gobTx replica_codec = gobTx sample_codec" by (simp add: replica_codec_def)
  have "sbBlock s = replica_block"
    using s(1) unfolding one seal_codec [OF tx] replica_block_def by (simp only: sum.sel)
  moreover have "replica_block \<noteq> sample_genesis"
  proof
    assume "replica_block = sample_genesis"
    with SealBlock_header(4) [OF s(1)] calculation one have "BIndex sample_genesis = 1" by simp
    then show False by (simp add: sample_genesis_def zero_Block_def)
  qed
  ultimately show ?thesis using s(2) by (simp add: gob_ok_def replica_codec_def)
qed

end
