(* ===== verification/Spec2Isabelle.thy ===== *)
theory Spec2Isabelle
  imports Sync Replica
begin

text \<open>
  A verification of the B-DNS node, a proof-of-stake blockchain that replaces DNS registries: the Go sources
  under \<^verbatim>\<open>src/internal\<close>.

  \<^bold>\<open>The program.\<close> A node keeps a ledger of coins, a map of stakes with a queue of unstakes, a store of pending
  commitments and an index of domains. Transactions register domains in two steps (commit and reveal), update,
  renew, revoke, list, buy and transfer them, and move stake. A slot leader, elected for an epoch from a
  randomness protocol among the validators, takes transactions from its pool, applies them to staged copies of
  the state, seals a block with digests of the results and broadcasts it. Every other node validates the block in
  the same way, adopts the staged state and appends the block to its database. Light nodes keep headers only:
  they receive them from a full node over gRPC and check answers to DNS queries with Merkle proofs.

  \<^bold>\<open>The theories\<close>, from the bottom up; each names its sources and follows their order.

  \<^item> \<^verbatim>\<open>Prelude\<close>: Go's types (\<open>bytes\<close>, nil-able slices, 64-bit words, wrapped integers), panics as the left side of a
    sum, maps as finite maps, hexadecimal and integer encodings. \<^verbatim>\<open>Sha256\<close>: the digest itself, executable.
  \<^item> \<^verbatim>\<open>Config\<close> (\<^verbatim>\<open>config.go\<close>), \<^verbatim>\<open>Utils\<close> (\<^verbatim>\<open>utils.go\<close>, \<^verbatim>\<open>key_pair.go\<close>), \<^verbatim>\<open>Ledger\<close> (\<^verbatim>\<open>balance_ledger.go\<close>), \<^verbatim>\<open>Stake\<close> (\<^verbatim>\<open>stake.go\<close>),
    \<^verbatim>\<open>Transaction\<close> (\<^verbatim>\<open>transaction.go\<close>), \<^verbatim>\<open>Commit\<close> (\<^verbatim>\<open>commit.go\<close>): the parts of the state and their operations. The
    interfaces of \<^verbatim>\<open>interfaces.go\<close> are locales (\<open>coin_book\<close>, \<open>stake_storer\<close>, \<open>commit_storer\<close>) that the model interprets.
  \<^item> \<^verbatim>\<open>AVL\<close>, \<^verbatim>\<open>Index\<close>, \<^verbatim>\<open>Overlay\<close> (\<^verbatim>\<open>internal/index\<close>): the search tree, shown to be a map that stays balanced; the index manager
    over it; the journal of one block. \<open>domain_indexer\<close> is the contract of a domain index, and both the manager and
    the overlay fulfil it. Committing an overlay installs what the overlay showed, in any order of Go's map iteration.
  \<^item> \<^verbatim>\<open>Block\<close> (\<^verbatim>\<open>merkle_tree.go\<close>, blocks and proofs of \<^verbatim>\<open>block.go\<close>), \<^verbatim>\<open>Apply\<close> (\<^verbatim>\<open>apply.go\<close>): blocks, and the effect of each
    transaction on ledger, stake and domains.
  \<^item> \<^verbatim>\<open>Validate\<close>, \<^verbatim>\<open>Accept\<close>, \<^verbatim>\<open>BlockValid\<close>, \<^verbatim>\<open>Progress\<close> (\<^verbatim>\<open>ValidateTransactions\<close> and \<^verbatim>\<open>ValidateBlock\<close> of \<^verbatim>\<open>block.go\<close>): the gates of the
    validation loop, what a batch that passes them satisfies (nonces, funds, conservation of coins, ownership, stakes,
    reveals, no double spend, signatures), what an accepted block satisfies, and that applying it does not panic.
  \<^item> \<^verbatim>\<open>Chain\<close> (\<^verbatim>\<open>blockchain.go\<close>): the database as a list of linked blocks; appending keeps it one and every reader ends.
  \<^item> \<^verbatim>\<open>Consensus\<close> (\<^verbatim>\<open>drg.go\<close>, \<^verbatim>\<open>pos.go\<close>), \<^verbatim>\<open>Drg\<close> (the handlers of the randomness protocol in \<^verbatim>\<open>node.go\<close>): nodes that have received
    the same messages in any order elect the same leader, an honest contribution counts and a recorded one opens
    its commitment.
  \<^item> \<^verbatim>\<open>Leader\<close> (the sealing part of \<^verbatim>\<open>node_leader.go\<close>): a sealed block passes \<^verbatim>\<open>ValidateBlock\<close> of a node in the same state; the
    kinds of block that never do; the account of the coins of an accepted block.
  \<^item> \<^verbatim>\<open>Resolve\<close> (\<^verbatim>\<open>cache.go\<close>, \<^verbatim>\<open>resolver.go\<close>, \<^verbatim>\<open>rfc1035_handler.go\<close>, \<^verbatim>\<open>dns_metrics.go\<close>): resolution equals a reference that follows
    aliases, and the answers put on the wire are exactly the records of the domain.
  \<^item> \<^verbatim>\<open>Node\<close> (\<^verbatim>\<open>node.go\<close>, \<^verbatim>\<open>node_helper.go\<close>, \<^verbatim>\<open>node_leader.go\<close>, \<^verbatim>\<open>message.go\<close>, set-up of \<^verbatim>\<open>simulation.go\<close>): the state of a node as a record,
    one function per handler, the dispatcher and the slot loop. \<^verbatim>\<open>Light\<close>: header chains and proofs. \<^verbatim>\<open>Run\<close>: runs of a
    node as sequences of ticks, messages and local transactions; \<open>machine\<close> is the locale of something that steps on
    events, and its invariants hold in every run.
  \<^item> \<^verbatim>\<open>Gateway\<close> (\<^verbatim>\<open>internal/gateway\<close>): failover in the connection pool, the requests of the server, subscriptions as an
    inductive set of reachable server states, the stream of a client. \<^verbatim>\<open>Sync\<close>: a light node with a first
    header that follows a full node ends with its headers, the verdict of a light node on the proofs a full node serves,
    and the verdict of one that joined late. \<^verbatim>\<open>Replica\<close>: a leader and a validator in the same state are in the same state
    again after the leader's block, when the transactions it took from its pool are valid.

  \<^bold>\<open>Parameters.\<close> Packages that are not part of the sources are arguments, bundled in the record \<open>platform\<close>: ECDSA
  (\<open>crypto\<close>), ASN.1 (\<open>asn1\<close>), \<^verbatim>\<open>encoding/gob\<close> (\<open>codec\<close>), the Bloom filter (\<open>bloom\<close>), bolt (\<open>bolt\<close>), float64 arithmetic (\<open>float64\<close>),
  and the orders in which Go visits maps. What a theorem needs of them is a named hypothesis (\<open>key_pair_ok\<close>, \<open>gob_ok\<close>,
  \<open>bloom_ok\<close>, \<open>bolt_ok\<close>, \<open>enumerates\<close>, \<open>visits\<close>), and the witnesses use concrete instances. miekg/dns is an argument of the DNS
  handler; the clock, random bytes and the answers of gRPC calls are arguments of the functions that read them.
  SHA-256 is not assumed to be injective; where two names or blocks must not collide, the hypothesis says so for
  those names or blocks.

  \<^bold>\<open>Termination.\<close> No fuel is used. Loops are structural or have a measure: the alias chain is bounded by the limit of the
  resolver, the levels of a Merkle tree by its leaves. The walk over the database may run forever on a cyclic store, so
  \<open>walk\<close> is a partial function whose value \<open>None\<close> means that it does not return; on a stored chain every reader is shown to
  return. The slot loop and the health monitor never end; the model has one turn of each, and runs are lists of turns.

  \<^bold>\<open>Not modelled.\<close> \<^verbatim>\<open>p2p.go\<close>: libp2p hosts, gossip and streams, with the JSON decoding of messages; handlers start from decoded
  messages and return the messages to send. The code generated by protoc. \<^verbatim>\<open>main.go\<close> and \<^verbatim>\<open>sims\<close>: drivers that start nodes,
  sleep and print. The UDP server, log output, opening and closing files, listeners and connections, and key
  generation, which are input and output only. Mutexes and goroutines: a handler is one step, so races between
  handlers are not covered.
\<close>

end
